(* ===== verification/Go_Prelude.thy ===== *)
theory Go_Prelude
  imports Main "HOL-Library.AList" "HOL-Library.Multiset" "HOL-Library.Char_ord"
    "HOL-Library.List_Lexorder"
begin

text \<open>
  The prelude of the development: the Go values every component uses and the generic lemmas the
  component proofs share.

  \<^item> A Go \<^verbatim>\<open>string\<close> is a byte sequence, here a \<^typ>\<open>string\<close> (a list of 8-bit characters).
  \<^item> A Go \<^verbatim>\<open>int64\<close> (and \<^verbatim>\<open>int\<close>, on a 64-bit platform) is an \<^typ>\<open>int\<close> in the range
    \<open>in_int64\<close>; arithmetic that can leave the range is wrapped with \<open>wrap64\<close>.
  \<^item> A Go map is an association list with distinct keys; what depends on Go's unspecified
    iteration order goes through \<open>arrange\<close>, which applies an arbitrary permutation.
  \<^item> \<open>strconv.ParseInt\<close>, \<open>strconv.Atoi\<close>, \<open>strconv.FormatInt\<close>, \<open>strings.ToUpper\<close>,
    \<open>strings.ToLower\<close>, \<open>strings.TrimSpace\<close> and \<open>strings.Split\<close> are the parts of Go's
    standard library the program calls.
\<close>

named_theorems go_simps \<open>equations that evaluate the Go library on constructor terms\<close>

section \<open>64-bit integers\<close>

definition in_int64 :: "int \<Rightarrow> bool" where
  "in_int64 n \<longleftrightarrow> - (2 ^ 63) \<le> n \<and> n < 2 ^ 63"

definition wrap64 :: "int \<Rightarrow> int" where
  "wrap64 n = (n + 2 ^ 63) mod 2 ^ 64 - 2 ^ 63"

lemma wrap64_in_int64 [simp, intro]: "in_int64 (wrap64 n)"
  unfolding in_int64_def wrap64_def
  using pos_mod_bound [of "2 ^ 64" "n + 2 ^ 63"] pos_mod_sign [of "2 ^ 64" "n + 2 ^ 63"]
  by simp

lemma wrap64_id [simp]: "in_int64 n \<Longrightarrow> wrap64 n = n"
  unfolding in_int64_def wrap64_def by (subst mod_pos_pos_trivial) simp_all

lemma wrap64_cong: "wrap64 n mod 2 ^ 64 = n mod 2 ^ 64"
  unfolding wrap64_def by (simp add: mod_simps)

lemma in_int64_small: "0 \<le> n \<Longrightarrow> n < 2 ^ 62 \<Longrightarrow> in_int64 n"
  by (simp add: in_int64_def)

section \<open>Go maps and their iteration order\<close>

text \<open>
  \<open>arrange p xs\<close> lists \<open>xs\<close> in the order the index list \<open>p\<close> gives; an index list that is
  not a permutation of the positions of \<open>xs\<close> leaves the order as it is. So \<open>arrange p\<close>
  is an arbitrary permutation, whatever \<open>p\<close> is.
\<close>

definition arrange :: "nat list \<Rightarrow> 'a list \<Rightarrow> 'a list" where
  "arrange p xs = (if mset p = mset [0..<length xs] then map ((!) xs) p else xs)"

lemma mset_arrange [simp]: "mset (arrange p xs) = mset xs"
proof (cases "mset p = mset [0..<length xs]")
  case True
  have "mset (map ((!) xs) p) = image_mset ((!) xs) (mset p)" by simp
  also have "\<dots> = mset (map ((!) xs) [0..<length xs])" by (simp only: True mset_map)
  also have "\<dots> = mset xs" by (simp only: map_nth)
  finally show ?thesis using True by (simp add: arrange_def)
qed (simp add: arrange_def)

lemma set_arrange [simp]: "set (arrange p xs) = set xs"
  by (metis mset_arrange set_mset_mset)

lemma length_arrange [simp]: "length (arrange p xs) = length xs"
  by (metis mset_arrange size_mset)

lemma distinct_arrange [simp]: "distinct (arrange p xs) = distinct xs"
  by (metis mset_arrange mset_eq_imp_distinct_iff)

lemma arrange_map: "arrange p (map f xs) = map f (arrange p xs)"
proof -
  have "map ((!) (map f xs)) p = map f (map ((!) xs) p)" if m: "mset p = mset [0..<length xs]"
  proof -
    from m have "set p = {0..<length xs}" by (metis set_mset_mset set_upt)
    then show ?thesis by auto
  qed
  then show ?thesis by (simp add: arrange_def)
qed

lemma map_of_arrange [simp]:
  assumes "distinct (map fst xs)" shows "map_of (arrange p xs) = map_of xs"
proof -
  have d: "distinct (map fst (arrange p xs))" using assms by (simp flip: arrange_map)
  show ?thesis
    by (rule map_of_inject_set [THEN iffD2]) (simp_all add: assms d)
qed

text \<open>A Go map literal built by a loop of assignments: the last value of a key wins.\<close>

definition go_map_of :: "('k \<times> 'v) list \<Rightarrow> ('k \<times> 'v) list" where
  "go_map_of ps = fold (\<lambda>(k, v). AList.update k v) ps []"

lemma set_update_alist: "set (AList.update k v al) \<subseteq> insert (k, v) (set al)"
  by (induction al) auto

lemma set_delete_alist: "x \<in> set (AList.delete k al) \<longleftrightarrow> x \<in> set al \<and> fst x \<noteq> k"
  by (induction al) auto

lemma distinct_go_map_of [simp]: "distinct (map fst (go_map_of ps))"
proof -
  have "distinct (map fst (fold (\<lambda>(k, v). AList.update k v) ps al))" if "distinct (map fst al)"
    for al using that by (induction ps arbitrary: al) (auto simp: distinct_update)
  then show ?thesis by (simp add: go_map_of_def)
qed

lemma map_of_go_map_of: "map_of (go_map_of ps) = map_of (rev ps)"
proof -
  have "map_of (fold (\<lambda>(k, v). AList.update k v) ps al) = map_of al ++ map_of (rev ps)" for al
    by (induction ps arbitrary: al) (auto simp: update_conv' map_add_def fun_eq_iff split: option.splits)
  from this [of "[]"] show ?thesis by (simp add: go_map_of_def)
qed

end
