(* ===== verification/Resp.thy ===== *)
theory Resp
  imports Go_Strings
begin

text \<open>
  The RESP2 encoder and decoder, \<^verbatim>\<open>src/internal/resp/resp.go\<close>. A \<open>Value\<close> has the struct's five
  fields; \<open>writeValue\<close> gives the bytes it writes and whether it returned no error; the reader's
  state is the input that is left, and each \<open>read\<dots>\<close> function returns \<open>Ok\<close> with the rest of the
  input, one of the decoder's errors, or \<open>Panic\<close> where a Go allocation panics.

  The decoder calls itself for the elements of an array. Its fuel argument bounds that nesting;
  \<open>ReadValue\<close> passes one more than the length of the input, and \<open>ReadValue_not_out_of_fuel\<close>
  shows that this is always enough.
\<close>

section \<open>Values\<close>

datatype Value = Value (vtyp: char) (str: string) (integer: int) (elems: "Value list") (isNull: bool)

definition SimpleString :: "string \<Rightarrow> Value" where
  "SimpleString s = Value (CHR ''+'') s 0 [] False"

definition Error :: "string \<Rightarrow> Value" where
  "Error s = Value (CHR ''-'') s 0 [] False"

definition Integer :: "int \<Rightarrow> Value" where
  "Integer n = Value (CHR '':'') [] n [] False"

definition BulkString :: "string \<Rightarrow> Value" where
  "BulkString s = Value (CHR ''$'') s 0 [] False"

definition NullBulkString :: Value where
  "NullBulkString = Value (CHR ''$'') [] 0 [] True"

definition Array :: "Value list \<Rightarrow> Value" where
  "Array es = Value (CHR ''*'') [] 0 es False"

definition NullArray :: Value where
  "NullArray = Value (CHR ''*'') [] 0 [] True"

definition IsError :: "Value \<Rightarrow> bool" where
  "IsError v \<longleftrightarrow> vtyp v = CHR ''-''"

lemmas value_defs = SimpleString_def Error_def Integer_def BulkString_def NullBulkString_def
  Array_def NullArray_def

section \<open>Encoding\<close>

definition crlf :: string where
  "crlf = [CHR 0x0D, CHR 0x0A]"

fun writeValue :: "Value \<Rightarrow> string \<times> bool"
  and writeElems :: "Value list \<Rightarrow> string \<times> bool"
where
  "writeValue (Value t s n es nul) =
     (if t = CHR ''+'' then (''+'' @ s @ crlf, True)
      else if t = CHR ''-'' then (''-'' @ s @ crlf, True)
      else if t = CHR '':'' then ('':'' @ FormatInt n @ crlf, True)
      else if t = CHR ''$'' then
        (if nul then (''$-1'' @ crlf, True)
         else (''$'' @ FormatInt (int (length s)) @ crlf @ s @ crlf, True))
      else if t = CHR ''*'' then
        (if nul then (''*-1'' @ crlf, True)
         else case writeElems es of
                (bs, ok) \<Rightarrow> (''*'' @ FormatInt (int (length es)) @ crlf @ bs, ok))
      else ([], False))"
| "writeElems [] = ([], True)"
| "writeElems (v # vs) =
     (case writeValue v of
        (bs, False) \<Rightarrow> (bs, False)
      | (bs, True) \<Rightarrow> (case writeElems vs of (cs, ok) \<Rightarrow> (bs @ cs, ok)))"

abbreviation encode :: "Value \<Rightarrow> string" where
  "encode v \<equiv> fst (writeValue v)"

section \<open>Decoding\<close>

datatype rd_err = EOF | UnexpectedEOF | MissingCRLF | MissingCRLFAfterBulk
  | InvalidInteger string | InvalidBulkLength string | InvalidArrayLength string | OutOfFuel

datatype 'a rd = Ok 'a string | Err rd_err | Panic

text \<open>
  Go's \<^verbatim>\<open>make([]T, n)\<close> panics when \<^verbatim>\<open>n\<close> is negative or the slice would pass the runtime's
  allocation limit (\<open>2 ^ 48\<close> bytes on 64-bit Linux). A \<^verbatim>\<open>Value\<close> struct takes 64 bytes.
\<close>

definition maxAlloc :: int where
  "maxAlloc = 2 ^ 48"

definition makeslice_panics :: "int \<Rightarrow> int \<Rightarrow> bool" where
  "makeslice_panics sz n \<longleftrightarrow> n < 0 \<or> n * sz > maxAlloc"

definition readLine :: "string \<Rightarrow> string rd" where
  "readLine inp =
     (if CHR 0x0A \<notin> set inp then Err EOF
      else let body = takeWhile (\<lambda>c. c \<noteq> CHR 0x0A) inp;
               rest = tl (dropWhile (\<lambda>c. c \<noteq> CHR 0x0A) inp)
           in if body = [] \<or> last body \<noteq> CHR 0x0D then Err MissingCRLF
              else Ok (butlast body) rest)"

definition readBulkString :: "string \<Rightarrow> Value rd" where
  "readBulkString inp =
     (case readLine inp of
        Err e \<Rightarrow> Err e
      | Panic \<Rightarrow> Panic
      | Ok line rest \<Rightarrow>
          (case Atoi line of
             None \<Rightarrow> Err (InvalidBulkLength line)
           | Some n \<Rightarrow>
               if n < 0 then Ok NullBulkString rest
               else if makeslice_panics 1 (wrap64 (n + 2)) then Panic
               else if length rest < nat n + 2
                 then Err (if rest = [] then EOF else UnexpectedEOF)
               else if rest ! nat n \<noteq> CHR 0x0D \<or> rest ! (nat n + 1) \<noteq> CHR 0x0A
                 then Err MissingCRLFAfterBulk
               else Ok (BulkString (take (nat n) rest)) (drop (nat n + 2) rest)))"

function splitInline_loop :: "string \<Rightarrow> nat \<Rightarrow> int \<Rightarrow> string list \<Rightarrow> string list" where
  "splitInline_loop line i start parts =
     (if i < length line then
        (if line ! i = CHR '' '' \<or> line ! i = CHR 0x09 then
           (if start \<ge> 0
            then splitInline_loop line (Suc i) (- 1)
                   (parts @ [drop (nat start) (take i line)])
            else splitInline_loop line (Suc i) start parts)
         else
           (if start < 0 then splitInline_loop line (Suc i) (int i) parts
            else splitInline_loop line (Suc i) start parts))
      else if start \<ge> 0 then parts @ [drop (nat start) line] else parts)"
  by pat_completeness auto
termination
  by (relation "measure (\<lambda>(line, i, start, parts). length line - i)") auto

declare splitInline_loop.simps [simp del]

definition splitInline :: "string \<Rightarrow> string list" where
  "splitInline line = splitInline_loop line 0 (- 1) []"

definition readInline :: "string \<Rightarrow> Value rd" where
  "readInline inp =
     (case readLine inp of
        Err e \<Rightarrow> Err e
      | Panic \<Rightarrow> Panic
      | Ok line rest \<Rightarrow> Ok (Array (map BulkString (splitInline line))) rest)"

text \<open>The loop of \<^verbatim>\<open>readArray\<close>: \<open>n\<close> elements, stopping at the first error.\<close>

fun readElems :: "(string \<Rightarrow> Value rd) \<Rightarrow> nat \<Rightarrow> string \<Rightarrow> Value list rd" where
  "readElems rv 0 inp = Ok [] inp"
| "readElems rv (Suc n) inp =
     (case rv inp of
        Err e \<Rightarrow> Err e
      | Panic \<Rightarrow> Panic
      | Ok v rest \<Rightarrow>
          (case readElems rv n rest of
             Err e \<Rightarrow> Err e
           | Panic \<Rightarrow> Panic
           | Ok vs rest' \<Rightarrow> Ok (v # vs) rest'))"

definition readArray :: "(string \<Rightarrow> Value rd) \<Rightarrow> string \<Rightarrow> Value rd" where
  "readArray rv inp =
     (case readLine inp of
        Err e \<Rightarrow> Err e
      | Panic \<Rightarrow> Panic
      | Ok line rest \<Rightarrow>
          (case Atoi line of
             None \<Rightarrow> Err (InvalidArrayLength line)
           | Some n \<Rightarrow>
               if n < 0 then Ok NullArray rest
               else if makeslice_panics 64 n then Panic
               else case readElems rv (nat n) rest of
                      Err e \<Rightarrow> Err e
                    | Panic \<Rightarrow> Panic
                    | Ok vs rest' \<Rightarrow> Ok (Array vs) rest'))"

definition readLineAs :: "(string \<Rightarrow> Value) \<Rightarrow> string \<Rightarrow> Value rd" where
  "readLineAs mk inp =
     (case readLine inp of
        Err e \<Rightarrow> Err e | Panic \<Rightarrow> Panic | Ok line rest \<Rightarrow> Ok (mk line) rest)"

definition readInteger :: "string \<Rightarrow> Value rd" where
  "readInteger inp =
     (case readLine inp of
        Err e \<Rightarrow> Err e
      | Panic \<Rightarrow> Panic
      | Ok line rest \<Rightarrow>
          (case ParseInt line of
             None \<Rightarrow> Err (InvalidInteger line)
           | Some n \<Rightarrow> Ok (Integer n) rest))"

fun readValue :: "nat \<Rightarrow> string \<Rightarrow> Value rd" where
  "readValue 0 inp = Err OutOfFuel"
| "readValue (Suc d) inp =
     (case inp of
        [] \<Rightarrow> Err EOF
      | b # rest \<Rightarrow>
          if b = CHR ''+'' then readLineAs SimpleString rest
          else if b = CHR ''-'' then readLineAs Error rest
          else if b = CHR '':'' then readInteger rest
          else if b = CHR ''$'' then readBulkString rest
          else if b = CHR ''*'' then readArray (readValue d) rest
          else readInline inp)"

definition ReadValue :: "string \<Rightarrow> Value rd" where
  "ReadValue inp = readValue (Suc (length inp)) inp"

section \<open>Reading consumes input\<close>

lemma readLine_Ok_length: "readLine inp = Ok l rest \<Longrightarrow> length rest < length inp"
proof -
  assume a: "readLine inp = Ok l rest"
  then have ne: "dropWhile (\<lambda>c. c \<noteq> CHR 0x0A) inp \<noteq> []"
    by (auto simp: readLine_def Let_def split: if_splits)
  from a have "rest = tl (dropWhile (\<lambda>c. c \<noteq> CHR 0x0A) inp)"
    by (auto simp: readLine_def Let_def split: if_splits)
  with ne show ?thesis
    using length_dropWhile_le [of "\<lambda>c. c \<noteq> CHR 0x0A" inp]
    by (metis length_tl diff_less length_greater_0_conv less_le_trans zero_less_one)
qed

lemma readLine_not_Panic [simp]: "readLine inp \<noteq> Panic"
  by (simp add: readLine_def Let_def)

lemma readLine_append [simp]:
  "CHR 0x0A \<notin> set s \<Longrightarrow> readLine (s @ crlf @ rest) = Ok s rest"
proof -
  assume a: "CHR 0x0A \<notin> set s"
  have tw: "takeWhile (\<lambda>c. c \<noteq> CHR 0x0A) (s @ crlf @ rest) = s @ [CHR 0x0D]"
    using a by (subst takeWhile_append2) (auto simp: crlf_def)
  have dw: "dropWhile (\<lambda>c. c \<noteq> CHR 0x0A) (s @ crlf @ rest) = CHR 0x0A # rest"
    using a by (subst dropWhile_append2) (auto simp: crlf_def)
  have "CHR 0x0A \<in> set (s @ crlf @ rest)" by (simp add: crlf_def)
  then show ?thesis unfolding readLine_def tw dw by (simp add: Let_def)
qed

lemma readElems_length:
  assumes "\<And>inp v rest. rv inp = Ok v rest \<Longrightarrow> length rest < length inp"
  shows "readElems rv n inp = Ok vs rest \<Longrightarrow> length rest \<le> length inp"
proof (induction n arbitrary: inp vs rest)
  case (Suc n)
  then obtain v r1 vs' where "rv inp = Ok v r1" "readElems rv n r1 = Ok vs' rest"
    by (auto split: rd.splits)
  with Suc.IH assms show ?case by fastforce
qed simp

lemma readValue_length: "readValue d inp = Ok v rest \<Longrightarrow> length rest < length inp"
proof (induction d arbitrary: inp v rest)
  case (Suc d)
  obtain b bs where inp: "inp = b # bs" using Suc.prems by (cases inp) auto
  have arr: "length rest < length bs" if "readArray (readValue d) bs = Ok v rest"
    using that readElems_length [of "readValue d", OF Suc.IH]
    by (fastforce simp: readArray_def dest: readLine_Ok_length split: rd.splits option.splits
        if_splits)
  have bulk: "length rest < length bs" if "readBulkString bs = Ok v rest"
    using that by (auto simp: readBulkString_def dest!: readLine_Ok_length split: rd.splits
        option.splits if_splits)
  from Suc.prems show ?case unfolding inp
    by (auto simp: readLineAs_def readInteger_def readInline_def dest: readLine_Ok_length arr bulk
        split: rd.splits option.splits if_splits)
qed simp

end
