(* ===== verification/Codec.thy ===== *)
theory Codec
  imports Go_Prelude
begin

text \<open>
  The contract between an encoder and a decoder that read from one stream: decoding the encoding
  of a valid message, whatever follows it, gives the message back and leaves what follows. From
  it: the stream of any sequence of valid messages decodes to exactly that sequence, and encodings
  are unambiguous (no two valid messages share a stream). The RESP reader and writer are the
  interpretation (theory Resp\_Codec).
\<close>

fun decode_all :: "('b list \<Rightarrow> ('v \<times> 'b list) option) \<Rightarrow> nat \<Rightarrow> 'b list \<Rightarrow> 'v list \<times> 'b list" where
  "decode_all dec 0 inp = ([], inp)"
| "decode_all dec (Suc n) inp =
     (case dec inp of
        None \<Rightarrow> ([], inp)
      | Some (v, rest) \<Rightarrow> (case decode_all dec n rest of (vs, r) \<Rightarrow> (v # vs, r)))"

locale stream_codec =
  fixes enc :: "'v \<Rightarrow> 'b list"
    and dec :: "'b list \<Rightarrow> ('v \<times> 'b list) option"
    and ok :: "'v \<Rightarrow> bool"
  assumes dec_enc: "ok v \<Longrightarrow> dec (enc v @ rest) = Some (v, rest)"
    and dec_Nil: "dec [] = None"
    and dec_shrinks: "dec inp = Some (v, rest) \<Longrightarrow> length rest < length inp"
begin

lemma enc_nonempty: "ok v \<Longrightarrow> enc v \<noteq> []"
  using dec_enc [of v "[]"] dec_Nil by auto

lemma decode_all_concat:
  "\<forall>v \<in> set vs. ok v \<Longrightarrow> length vs \<le> n \<Longrightarrow>
     decode_all dec n (concat (map enc vs) @ rest)
       = (vs @ fst (decode_all dec (n - length vs) rest),
          snd (decode_all dec (n - length vs) rest))"
proof (induction vs arbitrary: n)
  case (Cons v vs)
  then obtain m where n: "n = Suc m" by (cases n) auto
  have "dec ((enc v @ concat (map enc vs)) @ rest) = Some (v, concat (map enc vs) @ rest)"
    using Cons.prems(1) dec_enc [of v "concat (map enc vs) @ rest"] by simp
  with Cons show ?case by (simp add: n)
qed simp

lemma length_concat_enc: "\<forall>v \<in> set vs. ok v \<Longrightarrow> length vs \<le> length (concat (map enc vs))"
proof (induction vs)
  case (Cons v vs)
  then have "length vs \<le> length (concat (map enc vs))" and "0 < length (enc v)"
    using enc_nonempty by simp_all
  then show ?case unfolding list.map concat.simps length_append list.size by linarith
qed simp

lemma decode_all_stream:
  assumes "\<forall>v \<in> set vs. ok v"
  shows "decode_all dec (Suc (length (concat (map enc vs)))) (concat (map enc vs)) = (vs, [])"
proof -
  have "length vs \<le> Suc (length (concat (map enc vs)))"
    using length_concat_enc [OF assms] by simp
  moreover have "decode_all dec m [] = ([], [])" for m
    by (cases m) (simp_all add: dec_Nil)
  ultimately show ?thesis using decode_all_concat [OF assms, of _ "[]"]
    by (simp del: decode_all.simps)
qed

lemma streams_unambiguous:
  assumes "\<forall>v \<in> set vs. ok v" "\<forall>v \<in> set us. ok v"
    and "concat (map enc vs) = concat (map enc us)"
  shows "vs = us"
  using decode_all_stream [OF assms(1)] decode_all_stream [OF assms(2)] assms(3) by simp

end

end
