(* ===== verification/Resp_Codec.thy ===== *)
theory Resp_Codec
  imports Resp Codec
begin

text \<open>
  Correctness of the RESP2 codec: the decoder never runs out of its nesting fuel, decoding is the
  inverse of encoding on every value the constructors make (with any bytes after it, so pipelined
  commands are read one by one), the tokenizer of inline commands agrees with its reference, and
  the exact condition under which a length header makes the decoder panic.
\<close>

section \<open>Fuel\<close>

lemma readElems_cong:
  assumes dec: "\<And>i v r. rv i = Ok v r \<Longrightarrow> length r < length i"
    and eq: "\<And>i. length i \<le> length inp \<Longrightarrow> rv i = rv' i"
  shows "readElems rv n inp = readElems rv' n inp"
  using eq
proof (induction n arbitrary: inp)
  case (Suc n)
  show ?case
  proof (cases "rv inp")
    case (Ok v r)
    with dec have "length r \<le> length inp" by (meson less_imp_le)
    with Suc have "readElems rv n r = readElems rv' n r" by (meson le_trans)
    with Ok Suc.prems [of inp] show ?thesis by (simp del: Suc.prems)
  qed (use Suc.prems [of inp] in simp_all)
qed simp

lemma readElems_not_out_of_fuel:
  assumes dec: "\<And>i v r. rv i = Ok v r \<Longrightarrow> length r < length i"
    and ok: "\<And>i. length i \<le> length inp \<Longrightarrow> rv i \<noteq> Err OutOfFuel"
  shows "readElems rv n inp \<noteq> Err OutOfFuel"
  using ok
proof (induction n arbitrary: inp)
  case (Suc n)
  show ?case
  proof (cases "rv inp")
    case (Ok v r)
    with dec have "length r \<le> length inp" by (meson less_imp_le)
    with Suc have "readElems rv n r \<noteq> Err OutOfFuel" by (meson le_trans)
    with Ok show ?thesis by (auto split: rd.splits)
  qed (use Suc.prems [of inp] in auto)
qed simp

lemma readArray_cong:
  assumes dec: "\<And>i v r. rv i = Ok v r \<Longrightarrow> length r < length i"
    and eq: "\<And>i. length i < length inp \<Longrightarrow> rv i = rv' i"
  shows "readArray rv inp = readArray rv' inp"
proof (cases "readLine inp")
  case (Ok line rest)
  then have "length rest < length inp" by (rule readLine_Ok_length)
  with eq have "readElems rv n rest = readElems rv' n rest" for n
    by (intro readElems_cong [OF dec]) simp_all
  with Ok show ?thesis by (simp add: readArray_def split: option.splits)
qed (simp_all add: readArray_def)

lemma readArray_not_out_of_fuel:
  assumes dec: "\<And>i v r. rv i = Ok v r \<Longrightarrow> length r < length i"
    and ok: "\<And>i. length i < length inp \<Longrightarrow> rv i \<noteq> Err OutOfFuel"
  shows "readArray rv inp \<noteq> Err OutOfFuel"
proof (cases "readLine inp")
  case (Ok line rest)
  then have "length rest < length inp" by (rule readLine_Ok_length)
  with ok have "readElems rv n rest \<noteq> Err OutOfFuel" for n
    by (intro readElems_not_out_of_fuel [OF dec]) simp_all
  with Ok show ?thesis by (auto simp: readArray_def split: option.splits rd.splits)
next
  case (Err e)
  then show ?thesis by (auto simp: readArray_def readLine_def Let_def split: if_splits)
qed simp

lemma readLine_Err_cases: "readLine inp = Err e \<Longrightarrow> e = EOF \<or> e = MissingCRLF"
  by (auto simp: readLine_def Let_def split: if_splits)

lemma readValue_enough: "length inp < d \<Longrightarrow> readValue d inp \<noteq> Err OutOfFuel"
proof (induction d arbitrary: inp)
  case (Suc d)
  show ?case
  proof (cases inp)
    case (Cons b bs)
    have "readArray (readValue d) bs \<noteq> Err OutOfFuel"
      using Suc Cons by (intro readArray_not_out_of_fuel [OF readValue_length]) auto
    moreover have "readBulkString bs \<noteq> Err OutOfFuel"
      by (auto simp: readBulkString_def dest: readLine_Err_cases split: rd.splits option.splits)
    ultimately show ?thesis unfolding Cons
      by (auto simp: readLineAs_def readInteger_def readInline_def dest: readLine_Err_cases
          split: rd.splits option.splits)
  qed simp
qed simp

lemma readValue_fuel_irrelevant:
  "length inp < d \<Longrightarrow> length inp < d' \<Longrightarrow> readValue d inp = readValue d' inp"
proof (induction d arbitrary: inp d')
  case (Suc d)
  then obtain e where d': "d' = Suc e" by (cases d') auto
  show ?case
  proof (cases inp)
    case (Cons b bs)
    have "readValue d i = readValue e i" if "length i < length bs" for i
      using that Suc.prems by (intro Suc.IH) (simp_all add: Cons d')
    then have "readArray (readValue d) bs = readArray (readValue e) bs"
      by (intro readArray_cong [OF readValue_length])
    then show ?thesis by (simp add: Cons d')
  qed (simp add: d')
qed simp

lemma ReadValue_length: "ReadValue inp = Ok v rest \<Longrightarrow> length rest < length inp"
  unfolding ReadValue_def by (rule readValue_length)

section \<open>Round trip\<close>

text \<open>
  The values the constructors make and the wire can carry: a simple string or error has no line
  feed, an integer is an int64, a bulk string and an array fit in memory.
\<close>

fun wire_ok :: "Value \<Rightarrow> bool" where
  "wire_ok (Value t s n es nul) \<longleftrightarrow>
     (if t = CHR ''+'' \<or> t = CHR ''-'' then
        CHR 0x0A \<notin> set s \<and> n = 0 \<and> es = [] \<and> \<not> nul
      else if t = CHR '':'' then s = [] \<and> in_int64 n \<and> es = [] \<and> \<not> nul
      else if t = CHR ''$'' then
        n = 0 \<and> es = [] \<and> int (length s) + 2 \<le> maxAlloc \<and> (nul \<longrightarrow> s = [])
      else if t = CHR ''*'' then
        s = [] \<and> n = 0 \<and> int (length es) * 64 \<le> maxAlloc \<and> (nul \<longrightarrow> es = []) \<and>
        (\<forall>e \<in> set es. wire_ok e)
      else False)"

fun depth :: "Value \<Rightarrow> nat" where
  "depth (Value t s n es nul) = Suc (fold max (map depth es) 0)"

lemma depth_elem: "e \<in> set es \<Longrightarrow> depth e < depth (Value t s n es nul)"
proof -
  assume "e \<in> set es"
  then have "depth e \<le> Max (insert 0 (depth ` set es))" by simp
  moreover have "fold max (map depth es) 0 = Max (insert 0 (depth ` set es))"
    using Max.set_eq_fold [of 0 "map depth es"] by simp
  ultimately show ?thesis by simp
qed

lemma wire_ok_written: "wire_ok v \<Longrightarrow> snd (writeValue v)"
  "(\<forall>v \<in> set vs. wire_ok v) \<Longrightarrow> snd (writeElems vs)"
  by (induction v and vs rule: writeValue_writeElems.induct)
    (auto split: prod.splits bool.splits if_splits)

lemma writeElems_concat:
  "\<forall>v \<in> set vs. wire_ok v \<Longrightarrow> writeElems vs = (concat (map encode vs), True)"
proof (induction vs)
  case (Cons v vs)
  then obtain bs where "writeValue v = (bs, True)"
    using wire_ok_written(1) [of v] by (cases "writeValue v") auto
  with Cons show ?case by simp
qed simp

lemma readElems_concat:
  assumes "\<And>v rest. v \<in> set vs \<Longrightarrow> rv (encode v @ rest) = Ok v rest"
  shows "readElems rv (length vs) (concat (map encode vs) @ rest) = Ok vs rest"
  using assms by (induction vs) simp_all

lemma in_int64_length: "int (length xs) \<le> maxAlloc \<Longrightarrow> in_int64 (int (length xs))"
  by (simp add: in_int64_def maxAlloc_def)

lemma readBulkString_encode:
  assumes "int (length s) + 2 \<le> maxAlloc"
  shows "readBulkString (FormatInt (int (length s)) @ crlf @ s @ crlf @ rest) = Ok (BulkString s) rest"
proof -
  have "in_int64 (int (length s))" "in_int64 (int (length s) + 2)"
    using assms by (simp_all add: in_int64_def maxAlloc_def)
  moreover have "\<not> makeslice_panics 1 (int (length s) + 2)"
    using assms by (simp add: makeslice_panics_def)
  moreover have "(s @ crlf @ rest) ! length s = CHR 0x0D" "(s @ crlf @ rest) ! Suc (length s) = CHR 0x0A"
    by (simp_all add: crlf_def nth_append)
  moreover have "length (s @ crlf @ rest) \<ge> length s + 2" "drop 2 (crlf @ rest) = rest"
    by (simp_all add: crlf_def)
  ultimately show ?thesis by (simp add: readBulkString_def)
qed

lemma readValue_encode:
  "wire_ok v \<Longrightarrow> depth v \<le> d \<Longrightarrow> readValue d (encode v @ rest) = Ok v rest"
proof (induction v arbitrary: d rest)
  case (Value t s n es nul)
  then obtain e where d: "d = Suc e" by (cases d) auto
  show ?case
  proof (cases "t = CHR ''*''")
    case True
    show ?thesis
    proof (cases nul)
      case False
      have ok: "\<forall>v \<in> set es. wire_ok v" and sz: "int (length es) * 64 \<le> maxAlloc"
        using Value.prems(1) True by simp_all
      have "readValue e (encode v @ rest) = Ok v rest" if "v \<in> set es" for v rest
        using Value.IH [OF that, of e rest] Value.prems(2) depth_elem [OF that] ok that
        by (simp add: d less_Suc_eq_le order_less_le_trans)
      then have "readElems (readValue e) (length es) (concat (map encode es) @ rest) = Ok es rest"
        by (rule readElems_concat)
      moreover have "in_int64 (int (length es))" using sz by (simp add: in_int64_def maxAlloc_def)
      moreover have "\<not> makeslice_panics 64 (int (length es))"
        using sz by (simp add: makeslice_panics_def)
      ultimately show ?thesis
        using True False Value.prems(1) writeElems_concat [OF ok]
        by (simp add: d readArray_def Array_def)
    next
      case nul: True
      have "readLine (''-1'' @ crlf @ rest) = Ok ''-1'' rest" by (rule readLine_append) simp
      moreover have "Atoi ''-1'' = Some (- 1)" by code_simp
      ultimately show ?thesis
        using True nul Value.prems(1) by (simp add: d readArray_def NullArray_def)
    qed
  next
    case F: False
    have nb: "readBulkString (''-1'' @ crlf @ rest) = Ok NullBulkString rest"
    proof -
      have "readLine (''-1'' @ crlf @ rest) = Ok ''-1'' rest" by (rule readLine_append) simp
      moreover have "Atoi ''-1'' = Some (- 1)" by code_simp
      ultimately show ?thesis by (simp add: readBulkString_def)
    qed
    from F Value.prems(1) show ?thesis
      using nb readBulkString_encode [of s rest]
      by (auto simp: d readLineAs_def readInteger_def value_defs split: if_splits)
  qed
qed


lemma fold_max_le: "(\<And>x. x \<in> set xs \<Longrightarrow> x \<le> (m::nat)) \<Longrightarrow> fold max xs b \<le> max b m"
proof (induction xs arbitrary: b)
  case (Cons x xs)
  then have "fold max xs (max x b) \<le> max (max x b) m" and "x \<le> m" by simp_all
  then show ?case by simp
qed simp

lemma length_le_concat: "x \<in> set xs \<Longrightarrow> length (f x) \<le> length (concat (map f xs))"
  by (induction xs) auto

lemma depth_le_length: "wire_ok v \<Longrightarrow> depth v \<le> length (encode v)"
proof (induction v)
  case (Value t s n es nul)
  show ?case
  proof (cases "t = CHR ''*'' \<and> \<not> nul")
    case True
    then have ok: "\<forall>v \<in> set es. wire_ok v" using Value.prems by simp
    have "fold max (map depth es) 0 \<le> max 0 (length (concat (map encode es)))"
    proof (rule fold_max_le)
      fix x assume "x \<in> set (map depth es)"
      then obtain v where v: "v \<in> set es" "x = depth v" by auto
      with Value.IH ok have "x \<le> length (encode v)" by simp
      also have "\<dots> \<le> length (concat (map encode es))" using v(1) by (rule length_le_concat)
      finally show "x \<le> length (concat (map encode es))" .
    qed
    then show ?thesis using True writeElems_concat [OF ok] by simp
  next
    case False
    with Value.prems show ?thesis by (auto split: if_splits)
  qed
qed

lemma ReadValue_encode: "wire_ok v \<Longrightarrow> ReadValue (encode v @ rest) = Ok v rest"
proof -
  assume ok: "wire_ok v"
  have "depth v \<le> Suc (length (encode v @ rest))" using depth_le_length [OF ok] by simp
  with ok show ?thesis unfolding ReadValue_def by (rule readValue_encode)
qed

section \<open>The reader as a stream decoder\<close>

definition read_one :: "string \<Rightarrow> (Value \<times> string) option" where
  "read_one inp = (case ReadValue inp of Ok v rest \<Rightarrow> Some (v, rest) | _ \<Rightarrow> None)"

interpretation wire: stream_codec encode read_one wire_ok
proof unfold_locales
  show "read_one (encode v @ rest) = Some (v, rest)" if "wire_ok v" for v rest
    by (simp add: read_one_def ReadValue_encode that)
  show "read_one [] = None" by (simp add: read_one_def ReadValue_def)
  show "length rest < length inp" if "read_one inp = Some (v, rest)" for inp v rest
    using that by (auto simp: read_one_def dest: ReadValue_length split: rd.splits)
qed

section \<open>Inline commands\<close>

definition blank :: "char \<Rightarrow> bool" where
  "blank c \<longleftrightarrow> c = CHR '' '' \<or> c = CHR 0x09"

text \<open>The reference tokenizer: split at every blank, drop the empty pieces.\<close>

fun split_blanks :: "string \<Rightarrow> string list" where
  "split_blanks [] = [[]]"
| "split_blanks (c # cs) =
     (if blank c then [] # split_blanks cs
      else (c # hd (split_blanks cs)) # tl (split_blanks cs))"

definition fields :: "string \<Rightarrow> string list" where
  "fields s = filter (\<lambda>w. w \<noteq> []) (split_blanks s)"

lemma split_blanks_word: "\<forall>c \<in> set w. \<not> blank c \<Longrightarrow> split_blanks w = [w]"
  by (induction w) simp_all

lemma split_blanks_word_blank:
  "\<forall>c \<in> set w. \<not> blank c \<Longrightarrow> blank b \<Longrightarrow> split_blanks (w @ b # s) = w # split_blanks s"
  by (induction w) simp_all

lemma split_blanks_no_blank: "w \<in> set (split_blanks s) \<Longrightarrow> \<forall>c \<in> set w. \<not> blank c"
proof (induction s arbitrary: w)
  case (Cons c cs)
  have "split_blanks cs \<noteq> []" by (cases cs) simp_all
  then obtain u us where us: "split_blanks cs = u # us" by (cases "split_blanks cs") auto
  with Cons.IH [of u] Cons.IH [of w] Cons.prems show ?case by (auto split: if_splits)
qed simp

lemma fields_words: "w \<in> set (fields s) \<Longrightarrow> w \<noteq> [] \<and> (\<forall>c \<in> set w. \<not> blank c)"
  by (auto simp: fields_def dest: split_blanks_no_blank)

lemma splitInline_loop_fields:
  assumes "i \<le> length line"
    and "start \<ge> 0 \<Longrightarrow> nat start < i \<and> (\<forall>c \<in> set (drop (nat start) (take i line)). \<not> blank c)"
  shows "splitInline_loop line i start parts =
     parts @ fields (drop (if start \<ge> 0 then nat start else i) line)"
  using assms
proof (induction line i start parts rule: splitInline_loop.induct)
  case (1 line i start parts)
  let ?w = "drop (nat start) (take i line)"
  note unf = splitInline_loop.simps [of line i start parts] and bl = blank_def [of "line ! i"]
  have w: "drop (nat start) line = ?w @ drop i line" "?w \<noteq> []" "\<forall>c \<in> set ?w. \<not> blank c"
    if "start \<ge> 0"
  proof -
    have st: "nat start < i" using "1.prems"(2) that by simp
    have "drop (nat start) (take i line @ drop i line) = ?w @ drop i line"
      unfolding drop_append using st "1.prems"(1) by simp
    then show "drop (nat start) line = ?w @ drop i line" by simp
    show "?w \<noteq> []" using st "1.prems"(1) by simp
    show "\<forall>c \<in> set ?w. \<not> blank c" using "1.prems"(2) that by simp
  qed
  show ?case
  proof (cases "i < length line")
    case True
    then have suf: "drop i line = line ! i # drop (Suc i) line" by (simp add: Cons_nth_drop_Suc)
    have snoc: "take (Suc i) line = take i line @ [line ! i]" using True by (rule take_Suc_conv_app_nth)
    consider (bs) "blank (line ! i)" "start \<ge> 0" | (b) "blank (line ! i)" "start < 0"
      | (ws) "\<not> blank (line ! i)" "start < 0" | (w) "\<not> blank (line ! i)" "start \<ge> 0"
      by linarith
    then show ?thesis
    proof cases
      case bs
      then have "splitInline_loop line i start parts =
          (parts @ [?w]) @ fields (drop (Suc i) line)"
        using "1.IH"(1) True by (simp add: unf flip: bl)
      with bs w suf show ?thesis by (simp add: fields_def split_blanks_word_blank)
    next
      case b
      with "1.IH"(2) True suf show ?thesis by (simp add: unf fields_def flip: bl)
    next
      case ws
      then have "splitInline_loop line i start parts = parts @ fields (drop i line)"
        using "1.IH"(3) True by (simp add: unf snoc flip: bl)
      with ws show ?thesis by simp
    next
      case w
      have "\<forall>c \<in> set (drop (nat start) (take (Suc i) line)). \<not> blank c"
        using w \<open>start \<ge> 0 \<Longrightarrow> \<forall>c \<in> set ?w. \<not> blank c\<close> "1.prems" by (auto simp: snoc)
      with w "1.IH"(4) "1.prems" True show ?thesis by (simp add: unf flip: bl)
    qed
  next
    case False
    with "1.prems"(1) have "i = length line" by simp
    with w show ?thesis
      by (simp add: splitInline_loop.simps [of line "length line"] fields_def split_blanks_word)
  qed
qed

lemma splitInline_fields: "splitInline line = fields line"
  by (simp add: splitInline_def splitInline_loop_fields)

section \<open>Properties\<close>

text \<open>C1. Decoding inverts encoding: for every value the constructors make and the wire can carry,
  the reader returns exactly that value and leaves exactly the bytes that follow it.\<close>

theorem resp_roundtrip:
  assumes "wire_ok v"
  shows "ReadValue (encode v @ rest) = Ok v rest \<and> snd (writeValue v)"
  using ReadValue_encode [OF assms] wire_ok_written(1) [OF assms] by simp

theorem resp_roundtrip_witness:
  "wire_ok (Array [BulkString ''GET'', Integer (- 5), NullBulkString, Array [Error ''ERR x'']]) \<and>
   ReadValue (encode (Array [BulkString ''GET'', Integer (- 5), NullBulkString, Array [Error ''ERR x'']])
       @ ''+OK'')
     = Ok (Array [BulkString ''GET'', Integer (- 5), NullBulkString, Array [Error ''ERR x'']]) ''+OK''"
proof -
  have ok: "wire_ok (Array [BulkString ''GET'', Integer (- 5), NullBulkString, Array [Error ''ERR x'']])"
    by (simp add: value_defs in_int64_def maxAlloc_def)
  from resp_roundtrip [OF ok, of "''+OK''"] ok show ?thesis by blast
qed

text \<open>Pipelining: the concatenated encodings of any sequence of values decode, value by value,
  to exactly that sequence with nothing left over; so no two different sequences share a wire
  image.\<close>

theorem resp_pipeline:
  assumes "\<forall>v \<in> set vs. wire_ok v"
  shows "decode_all read_one (Suc (length (concat (map encode vs)))) (concat (map encode vs)) = (vs, [])
    \<and> (\<forall>us. (\<forall>u \<in> set us. wire_ok u) \<and> concat (map encode us) = concat (map encode vs)
          \<longrightarrow> us = vs)"
  using wire.decode_all_stream [OF assms] wire.streams_unambiguous [OF _ assms] by blast

theorem resp_pipeline_witness:
  "decode_all read_one (Suc (length (concat (map encode [SimpleString ''OK'', Integer 7]))))
     (concat (map encode [SimpleString ''OK'', Integer 7])) = ([SimpleString ''OK'', Integer 7], [])"
proof -
  have "\<forall>v \<in> set [SimpleString ''OK'', Integer 7]. wire_ok v"
    by (simp add: value_defs in_int64_def)
  from resp_pipeline [OF this] show ?thesis by (rule conjunct1)
qed

text \<open>C34. The reader is total on every byte stream: its nesting fuel is never exhausted, any larger
  fuel gives the same result, and a value it returns consumed at least one byte.\<close>

theorem reader_total:
  "ReadValue inp \<noteq> Err OutOfFuel \<and>
   (\<forall>d > length inp. readValue d inp = ReadValue inp) \<and>
   (\<forall>v rest. ReadValue inp = Ok v rest \<longrightarrow> length rest < length inp)"
proof (intro conjI allI impI)
  show "ReadValue inp \<noteq> Err OutOfFuel"
    unfolding ReadValue_def by (rule readValue_enough) simp
  show "readValue d inp = ReadValue inp" if "length inp < d" for d
    unfolding ReadValue_def using that by (rule readValue_fuel_irrelevant) simp
  show "length rest < length inp" if "ReadValue inp = Ok v rest" for v rest
    using that by (rule ReadValue_length)
qed

theorem reader_total_witness:
  "readValue 100 ''*1'' = ReadValue ''*1'' \<and> ReadValue ''*1'' = Err EOF"
proof -
  have "ReadValue ''*1'' = Err EOF" by (simp add: ReadValue_def readArray_def readLine_def)
  then show ?thesis using reader_total [of "''*1''"] by simp
qed

text \<open>C37. The exact condition for the decoder's allocation panic on a bulk string header: the
  announced length plus two passes the runtime's allocation limit. No later byte matters, so a
  client can cause it with a header of some twenty bytes. Every array header that announces more
  elements than fit in the limit panics in the same way.\<close>

theorem length_header_panics:
  assumes "in_int64 n" "0 \<le> n"
  shows "(ReadValue (''$'' @ FormatInt n @ crlf @ rest) = Panic \<longleftrightarrow> maxAlloc < n + 2) \<and>
    (maxAlloc < n * 64 \<longrightarrow> ReadValue (''*'' @ FormatInt n @ crlf @ rest) = Panic)"
proof (intro conjI impI)
  have "makeslice_panics 1 (wrap64 (n + 2)) \<longleftrightarrow> maxAlloc < n + 2"
  proof (cases "in_int64 (n + 2)")
    case True
    with assms(2) show ?thesis by (simp add: makeslice_panics_def)
  next
    case False
    with assms have "n + 2 = 2 ^ 63 \<or> n + 2 = 2 ^ 63 + 1" by (auto simp: in_int64_def)
    then show ?thesis by (auto simp: makeslice_panics_def wrap64_def maxAlloc_def)
  qed
  then show "ReadValue (''$'' @ FormatInt n @ crlf @ rest) = Panic \<longleftrightarrow> maxAlloc < n + 2"
    using assms by (simp add: ReadValue_def readBulkString_def)
  show "ReadValue (''*'' @ FormatInt n @ crlf @ rest) = Panic" if "maxAlloc < n * 64"
    using assms that by (simp add: ReadValue_def readArray_def makeslice_panics_def)
qed

theorem length_header_panics_witness:
  "ReadValue (''$'' @ FormatInt 9223372036854775807 @ crlf @ []) = Panic \<and>
   ReadValue (''*'' @ FormatInt 9223372036854775807 @ crlf @ []) = Panic \<and>
   ReadValue (''$'' @ FormatInt 3 @ crlf @ ''ab'') \<noteq> Panic"
proof -
  have big: "in_int64 9223372036854775807" "(0::int) \<le> 9223372036854775807"
    and small: "in_int64 3" "(0::int) \<le> 3"
    by (simp_all add: in_int64_def)
  show ?thesis
    using length_header_panics [OF big, of "[]"] length_header_panics [OF small, of "''ab''"]
    by (simp add: maxAlloc_def)
qed

text \<open>Inline commands: a line that starts with none of the five type bytes becomes the array of
  its words, which are exactly the non-empty pieces between blanks (spaces and tabs), in order.\<close>

theorem inline_command:
  assumes "CHR 0x0A \<notin> set line" and "line \<noteq> []" and "hd line \<notin> set ''+-:$*''"
  shows "ReadValue (line @ crlf @ rest) = Ok (Array (map BulkString (fields line))) rest \<and>
    (\<forall>w \<in> set (fields line). w \<noteq> [] \<and> (\<forall>c \<in> set w. \<not> blank c))"
proof (intro conjI ballI)
  obtain c cs where line: "line = c # cs" using assms(2) by (cases line) auto
  have "readLine (line @ crlf @ rest) = Ok line rest" using assms(1) by (rule readLine_append)
  then show "ReadValue (line @ crlf @ rest) = Ok (Array (map BulkString (fields line))) rest"
    using assms(3) by (simp add: line ReadValue_def readInline_def splitInline_fields)
qed (auto dest: fields_words)

theorem inline_command_witness:
  "ReadValue ('' SET  k v'' @ crlf @ []) = Ok (Array (map BulkString [''SET'', ''k'', ''v''])) []"
proof -
  have "fields '' SET  k v'' = [''SET'', ''k'', ''v'']" by (simp add: fields_def blank_def)
  moreover have "ReadValue ('' SET  k v'' @ crlf @ [])
      = Ok (Array (map BulkString (fields '' SET  k v''))) []"
    by (rule inline_command [THEN conjunct1]) simp_all
  ultimately show ?thesis by simp
qed

end
