(* ===== verification/Resp_Writer.thy ===== *)
theory Resp_Writer
  imports Resp_Codec
begin

text \<open>
  Writing to a connection: \<^verbatim>\<open>WriteTo\<close> of \<^verbatim>\<open>src/internal/resp/resp.go\<close> and \<^verbatim>\<open>connWriter\<close> of \<^verbatim>\<open>src/internal/server/server.go\<close>,
  over a buffered writer. The buffer holds bytes that are not on the wire yet; when the connection is broken, flushing fails.
  The mutex of \<^verbatim>\<open>connWriter\<close> makes each \<^verbatim>\<open>Write\<close> one step.
\<close>

record connWriter =
  pending :: string
  onWire :: string
  broken :: bool

definition newConnWriter :: "bool \<Rightarrow> connWriter" where
  "newConnWriter brk = \<lparr>pending = [], onWire = [], broken = brk\<rparr>"

text \<open>The results say whether there was no error.\<close>

definition Flush :: "connWriter \<Rightarrow> bool \<times> connWriter" where
  "Flush bw = (if broken bw then (False, bw) else (True, bw\<lparr>onWire := onWire bw @ pending bw, pending := []\<rparr>))"

definition WriteTo :: "Value \<Rightarrow> connWriter \<Rightarrow> bool \<times> connWriter" where
  "WriteTo v bw =
     (case writeValue v of
        (bs, ok) \<Rightarrow>
          let bw' = bw\<lparr>pending := pending bw @ bs\<rparr> in if ok then Flush bw' else (False, bw'))"

definition connWrite :: "Value \<Rightarrow> connWriter \<Rightarrow> bool \<times> connWriter" where
  "connWrite v bw = (case WriteTo v bw of (False, bw') \<Rightarrow> (False, bw') | (True, bw') \<Rightarrow> Flush bw')"

lemma connWrite_ok:
  assumes "wire_ok v" "\<not> broken bw"
  shows "connWrite v bw = (True, bw\<lparr>onWire := onWire bw @ pending bw @ encode v, pending := []\<rparr>)"
  using wire_ok_written(1) [OF assms(1)] assms(2)
  by (cases "writeValue v") (simp add: connWrite_def WriteTo_def Flush_def)

lemma connWrite_broken:
  "broken bw \<Longrightarrow> \<not> fst (connWrite v bw) \<and> onWire (snd (connWrite v bw)) = onWire bw \<and> broken (snd (connWrite v bw))"
  by (cases "writeValue v"; cases "snd (writeValue v)") (simp_all add: connWrite_def WriteTo_def Flush_def Let_def)

text \<open>Writing one value after the other; errors are ignored.\<close>

definition writes_out :: "Value list \<Rightarrow> connWriter \<Rightarrow> connWriter" where
  "writes_out vs = fold (\<lambda>v bw. snd (connWrite v bw)) vs"

lemma writes_out_wire:
  "\<forall>v \<in> set vs. wire_ok v \<Longrightarrow> \<not> broken bw \<Longrightarrow> pending bw = [] \<Longrightarrow>
     writes_out vs bw = bw\<lparr>onWire := onWire bw @ concat (map encode vs)\<rparr>"
  by (induction vs arbitrary: bw) (simp_all add: writes_out_def connWrite_ok)

text \<open>C3. What the other end reads: replies and messages that are written one after the other to a connection, whoever writes
  them, arrive as exactly this sequence of values with nothing left in the buffer, and no other sequence gives these bytes; on a
  broken connection every write fails and nothing arrives.\<close>

theorem replies_decode:
  assumes "\<forall>v \<in> set vs. wire_ok v"
  shows "decode_all read_one (Suc (length (onWire (writes_out vs (newConnWriter False)))))
      (onWire (writes_out vs (newConnWriter False))) = (vs, []) \<and>
    pending (writes_out vs (newConnWriter False)) = [] \<and>
    (\<forall>us. (\<forall>u \<in> set us. wire_ok u) \<and>
      onWire (writes_out us (newConnWriter False)) = onWire (writes_out vs (newConnWriter False)) \<longrightarrow> us = vs) \<and>
    onWire (writes_out vs (newConnWriter True)) = []"
proof -
  have w: "writes_out us (newConnWriter False) = \<lparr>pending = [], onWire = concat (map encode us), broken = False\<rparr>"
    if "\<forall>u \<in> set us. wire_ok u" for us
    using writes_out_wire [OF that] by (simp add: newConnWriter_def)
  have "onWire (writes_out us bw) = onWire bw" if "broken bw" for us bw
    using that by (induction us arbitrary: bw) (simp_all add: writes_out_def connWrite_broken)
  then have "onWire (writes_out vs (newConnWriter True)) = []" by (simp add: newConnWriter_def)
  moreover have "us = vs" if "\<forall>u \<in> set us. wire_ok u"
    "onWire (writes_out us (newConnWriter False)) = onWire (writes_out vs (newConnWriter False))" for us
    using wire.streams_unambiguous [OF that(1) assms] that(2) w [OF that(1)] w [OF assms] by simp
  ultimately show ?thesis using wire.decode_all_stream [OF assms] w [OF assms] by (simp del: decode_all.simps)
qed

theorem replies_decode_witness:
  "onWire (writes_out [SimpleString ''OK'', Integer 7] (newConnWriter False)) = ''+OK'' @ crlf @ '':7'' @ crlf \<and>
   decode_all read_one (Suc (length (''+OK'' @ crlf @ '':7'' @ crlf))) (''+OK'' @ crlf @ '':7'' @ crlf) =
     ([SimpleString ''OK'', Integer 7], [])"
proof -
  have ok: "\<forall>v \<in> set [SimpleString ''OK'', Integer 7]. wire_ok v" by (simp add: value_defs in_int64_def)
  have w: "onWire (writes_out [SimpleString ''OK'', Integer 7] (newConnWriter False)) = ''+OK'' @ crlf @ '':7'' @ crlf"
    by (simp add: writes_out_def connWrite_def WriteTo_def Flush_def newConnWriter_def SimpleString_def Integer_def FormatInt_def
        nat_digits.simps)
  from replies_decode [OF ok] show ?thesis unfolding w by blast
qed

end
