(* ===== verification/Pubsub.thy ===== *)
theory Pubsub
  imports Go_Prelude
begin

text \<open>
  The in-process message broker, \<^verbatim>\<open>src/internal/pubsub/broker.go\<close>. The broker's map from channel to
  subscriber slice is an association list; \<^verbatim>\<open>Subscribe\<close> and \<^verbatim>\<open>Unsubscribe\<close> hold the mutex throughout,
  so each is one atomic step, a function on the broker. \<^verbatim>\<open>Publish\<close> copies the subscribers of the channel under the read lock and
  delivers after it has released it: \<open>Publish\<close> gives the deliveries that follow from the copy, in their order.
  The order in which Go iterates over the map (when a subscriber leaves all channels) is the
  argument \<open>p\<close>.

  The contract (locale \<open>pubsub\<close>) is stated on the subscriber list of each channel.
\<close>

section \<open>The broker\<close>

record 'a Broker =
  subs :: "(string \<times> 'a list) list"

definition New :: "'a Broker" where
  "New = \<lparr>subs = []\<rparr>"

text \<open>Reading a missing key of the map gives the nil slice.\<close>

definition chan :: "'a Broker \<Rightarrow> string \<Rightarrow> 'a list" where
  "chan b ch = (case map_of (subs b) ch of None \<Rightarrow> [] | Some ss \<Rightarrow> ss)"

definition countForSub :: "'a Broker \<Rightarrow> 'a \<Rightarrow> nat" where
  "countForSub b sub =
     fold (\<lambda>(_, ss) n. fold (\<lambda>s m. if s = sub then Suc m else m) ss n) (subs b) 0"

fun removeOne_loop :: "'a list \<Rightarrow> 'a \<Rightarrow> bool \<Rightarrow> 'a list \<Rightarrow> 'a list" where
  "removeOne_loop [] target removed res = res"
| "removeOne_loop (s # ss) target removed res =
     (if \<not> removed \<and> s = target then removeOne_loop ss target True res
      else removeOne_loop ss target removed (res @ [s]))"

definition removeOne :: "'a list \<Rightarrow> 'a \<Rightarrow> 'a list" where
  "removeOne ss target = removeOne_loop ss target False []"

definition Subscribe :: "string \<Rightarrow> 'a \<Rightarrow> 'a Broker \<Rightarrow> nat \<times> 'a Broker" where
  "Subscribe ch sub b =
     (let b' = b\<lparr>subs := AList.update ch (chan b ch @ [sub]) (subs b)\<rparr>
      in (countForSub b' sub, b'))"

definition leave :: "string \<Rightarrow> 'a \<Rightarrow> 'a Broker \<Rightarrow> 'a Broker" where
  "leave ch sub b =
     (let b' = b\<lparr>subs := AList.update ch (removeOne (chan b ch) sub) (subs b)\<rparr>
      in if length (chan b' ch) = 0 then b'\<lparr>subs := AList.delete ch (subs b')\<rparr> else b')"

definition Unsubscribe :: "nat list \<Rightarrow> string \<Rightarrow> 'a \<Rightarrow> 'a Broker \<Rightarrow> nat \<times> 'a Broker" where
  "Unsubscribe p ch sub b =
     (if ch = '''' then (0, fold (\<lambda>c. leave c sub) (arrange p (map fst (subs b))) b)
      else let b' = leave ch sub b in (countForSub b' sub, b'))"

definition Publish :: "string \<Rightarrow> string \<Rightarrow> 'a Broker \<Rightarrow> nat \<times> ('a \<times> string \<times> string) list" where
  "Publish ch msg b =
     (let ss = chan b ch in (length ss, map (\<lambda>sub. (sub, ch, msg)) ss))"

section \<open>Invariant\<close>

text \<open>The map has one entry per channel, and no entry for a channel without subscribers.\<close>

definition broker_ok :: "'a Broker \<Rightarrow> bool" where
  "broker_ok b \<longleftrightarrow> distinct (map fst (subs b)) \<and> (\<forall>(ch, ss) \<in> set (subs b). ss \<noteq> [])"

lemma removeOne_loop_eq:
  "removeOne_loop ss x removed res = res @ (if removed then ss else remove1 x ss)"
  by (induction ss x removed res rule: removeOne_loop.induct) auto

lemma removeOne_remove1 [simp]: "removeOne ss x = remove1 x ss"
  by (simp add: removeOne_def removeOne_loop_eq)

lemma chan_New [simp]: "chan New ch = []"
  by (simp add: chan_def New_def)

lemma chan_Subscribe [simp]:
  "chan (snd (Subscribe ch sub b)) c = (if c = ch then chan b c @ [sub] else chan b c)"
  by (simp add: Subscribe_def chan_def Let_def update_conv')

lemma chan_leave [simp]:
  "chan (leave ch sub b) c = (if c = ch then remove1 sub (chan b c) else chan b c)"
  by (auto simp: leave_def chan_def Let_def update_conv' delete_conv' split: option.splits)

lemma chan_fold_leave:
  "distinct cs \<Longrightarrow> chan (fold (\<lambda>c. leave c sub) cs b) c =
     (if c \<in> set cs then remove1 sub (chan b c) else chan b c)"
  by (induction cs arbitrary: b) auto

lemma chan_not_dom: "ch \<notin> fst ` set (subs b) \<Longrightarrow> chan b ch = []"
  by (auto simp: chan_def split: option.splits dest: map_of_SomeD intro: rev_image_eqI)

lemma chan_Unsubscribe_all [simp]:
  assumes "broker_ok b"
  shows "chan (snd (Unsubscribe p '''' sub b)) c = remove1 sub (chan b c)"
proof -
  have "distinct (arrange p (map fst (subs b)))" using assms by (simp add: broker_ok_def)
  then show ?thesis
    by (auto simp: Unsubscribe_def chan_fold_leave chan_not_dom)
qed

lemma broker_ok_New: "broker_ok New"
  by (simp add: broker_ok_def New_def)

lemma broker_ok_Subscribe: "broker_ok b \<Longrightarrow> broker_ok (snd (Subscribe ch sub b))"
  using set_update_alist [of ch "chan b ch @ [sub]" "subs b"]
  by (auto simp: broker_ok_def Subscribe_def Let_def distinct_update)

lemma broker_ok_leave: "broker_ok b \<Longrightarrow> broker_ok (leave ch sub b)"
  using set_update_alist [of ch "removeOne (chan b ch) sub" "subs b"]
  by (fastforce simp: broker_ok_def leave_def Let_def distinct_update distinct_delete
      set_delete_alist chan_def update_conv')

lemma broker_ok_Unsubscribe: "broker_ok b \<Longrightarrow> broker_ok (snd (Unsubscribe p ch sub b))"
proof -
  assume ok: "broker_ok b"
  have "broker_ok (fold (\<lambda>c. leave c sub) cs b)" for cs
    using ok by (induction cs arbitrary: b) (simp_all add: broker_ok_leave)
  with ok show ?thesis by (simp add: Unsubscribe_def Let_def broker_ok_leave)
qed

section \<open>The contract\<close>

text \<open>
  A broker as its clients see it: the list of subscribers of each channel. A subscriber joins at
  the end of a channel's list, leaves it once per unsubscription, and a message goes to every
  entry of the channel's list.
\<close>

locale pubsub =
  fixes members :: "'b \<Rightarrow> string \<Rightarrow> 'a list"
    and join :: "string \<Rightarrow> 'a \<Rightarrow> 'b \<Rightarrow> 'b"
    and part :: "string \<Rightarrow> 'a \<Rightarrow> 'b \<Rightarrow> 'b"
    and part_all :: "'a \<Rightarrow> 'b \<Rightarrow> 'b"
    and send :: "string \<Rightarrow> string \<Rightarrow> 'b \<Rightarrow> nat \<times> ('a \<times> string \<times> string) list"
    and inv :: "'b \<Rightarrow> bool"
  assumes members_join: "inv b \<Longrightarrow> members (join ch s b) c = (if c = ch then members b c @ [s] else members b c)"
    and members_part: "inv b \<Longrightarrow> members (part ch s b) c = (if c = ch then remove1 s (members b c) else members b c)"
    and members_part_all: "inv b \<Longrightarrow> members (part_all s b) c = remove1 s (members b c)"
    and send_members: "send ch msg b = (length (members b ch), map (\<lambda>s. (s, ch, msg)) (members b ch))"
    and inv_join: "inv b \<Longrightarrow> inv (join ch s b)"
    and inv_part: "inv b \<Longrightarrow> inv (part ch s b)"
    and inv_part_all: "inv b \<Longrightarrow> inv (part_all s b)"
begin

lemma send_after_join:
  "inv b \<Longrightarrow> (s, ch, msg) \<in> set (snd (send ch msg (join ch s b))) \<and>
     fst (send ch msg (join ch s b)) = Suc (fst (send ch msg b))"
  by (simp add: send_members members_join)

lemma send_other_channel:
  "inv b \<Longrightarrow> c \<noteq> ch \<Longrightarrow> send c msg (join ch s b) = send c msg b \<and> send c msg (part ch s b) = send c msg b"
  by (simp add: send_members members_join members_part)

lemma part_undoes_join:
  "inv b \<Longrightarrow> s \<notin> set (members b ch) \<Longrightarrow> members (part ch s (join ch s b)) c = members b c"
  by (simp add: members_part members_join inv_join remove1_append)

lemma other_subscribers_kept:
  "inv b \<Longrightarrow> t \<noteq> s \<Longrightarrow> count_list (members (part_all s b) c) t = count_list (members b c) t"
  by (simp add: members_part_all count_list_remove1)

lemma gone_iff:
  "inv b \<Longrightarrow> s \<notin> set (members (part_all s b) c) \<longleftrightarrow> count_list (members b c) s \<le> 1"
proof -
  assume "inv b"
  then have "s \<notin> set (members (part_all s b) c) \<longleftrightarrow> count_list (remove1 s (members b c)) s = 0"
    by (simp only: members_part_all count_list_0_iff)
  also have "\<dots> \<longleftrightarrow> count_list (members b c) s \<le> 1"
    by (auto simp: count_list_remove1)
  finally show ?thesis .
qed

end

interpretation broker: pubsub chan
  "\<lambda>ch s b. snd (Subscribe ch s b)"
  "\<lambda>ch s b. leave ch s b"
  "\<lambda>s b. snd (Unsubscribe p '''' s b)"
  Publish broker_ok
  for p
  by unfold_locales (simp_all add: Publish_def Let_def broker_ok_Subscribe broker_ok_leave
      broker_ok_Unsubscribe)

lemma Unsubscribe_leave: "ch \<noteq> '''' \<Longrightarrow> snd (Unsubscribe p ch sub b) = leave ch sub b"
  by (simp add: Unsubscribe_def Let_def)

section \<open>What the reported count counts\<close>

lemma fold_count: "fold (\<lambda>s m. if s = x then Suc m else m) ss n = n + count_list ss x"
  by (induction ss arbitrary: n) auto

lemma countForSub_sum: "countForSub b sub = sum_list (map (\<lambda>(ch, ss). count_list ss sub) (subs b))"
proof -
  have "fold (\<lambda>(_, ss) n. fold (\<lambda>s m. if s = sub then Suc m else m) ss n) bs k
      = k + sum_list (map (\<lambda>(ch, ss). count_list ss sub) bs)" for bs :: "(string \<times> 'a list) list" and k
    by (induction bs arbitrary: k) (auto simp: fold_count)
  then show ?thesis by (simp add: countForSub_def)
qed

lemma countForSub_channels:
  assumes "broker_ok b" and "\<And>ch. count_list (chan b ch) sub \<le> 1"
  shows "countForSub b sub = card {ch. sub \<in> set (chan b ch)}"
proof -
  let ?f = "\<lambda>ch. count_list (chan b ch) sub"
  have d: "distinct (map fst (subs b))" using assms(1) by (simp add: broker_ok_def)
  have dom: "{ch. sub \<in> set (chan b ch)} \<subseteq> set (map fst (subs b))"
    using chan_not_dom [of _ b] by fastforce
  have "map (\<lambda>(ch, ss). count_list ss sub) (subs b) = map (?f \<circ> fst) (subs b)"
    using d by (auto simp: chan_def)
  then have "countForSub b sub = sum_list (map ?f (map fst (subs b)))"
    by (simp only: countForSub_sum map_map)
  also have "\<dots> = (\<Sum>ch \<in> set (map fst (subs b)). ?f ch)"
    using d by (rule sum_list_distinct_conv_sum_set)
  also have "\<dots> = (\<Sum>ch \<in> set (map fst (subs b)). if sub \<in> set (chan b ch) then 1 else 0)"
  proof (rule sum.cong)
    fix ch
    show "?f ch = (if sub \<in> set (chan b ch) then 1 else 0)"
      using assms(2) [of ch] count_list_0_iff [of "chan b ch" sub] by auto
  qed simp
  also have "\<dots> = card {ch \<in> set (map fst (subs b)). sub \<in> set (chan b ch)}"
    by (simp add: sum.If_cases Int_def)
  also have "{ch \<in> set (map fst (subs b)). sub \<in> set (chan b ch)} = {ch. sub \<in> set (chan b ch)}"
    using dom by auto
  finally show ?thesis .
qed

section \<open>Runs of the broker\<close>

datatype 'a broker_op = OpSub string 'a | OpUnsub "nat list" string 'a

fun broker_step :: "'a broker_op \<Rightarrow> 'a Broker \<Rightarrow> 'a Broker" where
  "broker_step (OpSub ch s) b = snd (Subscribe ch s b)"
| "broker_step (OpUnsub p ch s) b = snd (Unsubscribe p ch s b)"

text \<open>The specification: a total function from channel to subscriber list.\<close>

fun spec_step :: "'a broker_op \<Rightarrow> (string \<Rightarrow> 'a list) \<Rightarrow> string \<Rightarrow> 'a list" where
  "spec_step (OpSub ch s) m = m(ch := m ch @ [s])"
| "spec_step (OpUnsub p ch s) m =
     (if ch = '''' then (\<lambda>c. remove1 s (m c)) else m(ch := remove1 s (m ch)))"

lemma broker_step_ok: "broker_ok b \<Longrightarrow> broker_ok (broker_step op b)"
  by (cases op) (simp_all add: broker_ok_Subscribe broker_ok_Unsubscribe)

lemma broker_step_refines: "broker_ok b \<Longrightarrow> chan (broker_step op b) = spec_step op (chan b)"
  by (cases op) (auto simp: Unsubscribe_leave)

lemma broker_run_refines:
  "broker_ok b \<Longrightarrow> broker_ok (fold broker_step ops b) \<and>
     chan (fold broker_step ops b) = fold spec_step ops (chan b)"
  by (induction ops arbitrary: b) (simp_all add: broker_step_ok broker_step_refines)

section \<open>Properties\<close>

text \<open>C33. Refinement: after any sequence of subscriptions and unsubscriptions, whatever order Go
  iterates the map in, the broker's map is well formed and every channel has exactly the subscriber
  list that the specification gives; \<open>Publish\<close> delivers the message once to each entry of that list,
  in subscription order, and returns its length.\<close>

theorem broker_refines_spec:
  "broker_ok (fold broker_step ops New) \<and>
   chan (fold broker_step ops New) = fold spec_step ops (\<lambda>_. []) \<and>
   Publish ch msg (fold broker_step ops New) =
     (length (fold spec_step ops (\<lambda>_. []) ch),
      map (\<lambda>s. (s, ch, msg)) (fold spec_step ops (\<lambda>_. []) ch))"
proof -
  have "chan New = (\<lambda>_. [] :: 'a list)" by (rule ext) simp
  then have run: "broker_ok (fold broker_step ops New) \<and>
      chan (fold broker_step ops New) = fold spec_step ops (\<lambda>_. [])"
    using broker_run_refines [OF broker_ok_New, of ops] by simp
  then show ?thesis by (simp add: broker.send_members)
qed

text \<open>The count that \<open>Subscribe\<close> and \<open>Unsubscribe\<close> report is the number of entries the subscriber
  has in all channels; it is the number of channels it is subscribed to when it has at most one
  entry in each.\<close>

theorem reported_count:
  assumes "broker_ok b"
  shows "countForSub b sub = sum_list (map (\<lambda>(ch, ss). count_list ss sub) (subs b)) \<and>
    ((\<forall>ch. count_list (chan b ch) sub \<le> 1) \<longrightarrow> countForSub b sub = card {ch. sub \<in> set (chan b ch)})"
proof (intro conjI impI)
  show "countForSub b sub = card {ch. sub \<in> set (chan b ch)}"
    if "\<forall>ch. count_list (chan b ch) sub \<le> 1"
    using that by (intro countForSub_channels [OF assms]) blast
qed (rule countForSub_sum)

theorem reported_count_witness:
  "countForSub (snd (Subscribe ''a'' (1::nat) New)) 1
     = card {ch. 1 \<in> set (chan (snd (Subscribe ''a'' (1::nat) New)) ch)}"
proof -
  have "broker_ok (snd (Subscribe ''a'' (1::nat) New))"
    by (rule broker_ok_Subscribe [OF broker_ok_New])
  moreover have "\<forall>ch. count_list (chan (snd (Subscribe ''a'' (1::nat) New)) ch) 1 \<le> 1" by simp
  ultimately show ?thesis using reported_count [of "snd (Subscribe ''a'' (1::nat) New)" 1] by blast
qed

text \<open>C39. Leaving all channels (what the server does when a connection ends) removes one entry per
  channel, so a subscriber is gone from a channel exactly when it had subscribed to it at most
  once; other subscribers keep all their entries. A client that subscribed twice to a channel stays
  registered after its connection has ended, while the reported count is 0.\<close>

theorem leave_all_channels:
  assumes "broker_ok b"
  shows "fst (Unsubscribe p '''' sub b) = 0 \<and>
    (sub \<notin> set (chan (snd (Unsubscribe p '''' sub b)) ch) \<longleftrightarrow> count_list (chan b ch) sub \<le> 1) \<and>
    (t \<noteq> sub \<longrightarrow>
       count_list (chan (snd (Unsubscribe p '''' sub b)) ch) t = count_list (chan b ch) t)"
  using broker.gone_iff [OF assms] broker.other_subscribers_kept [OF assms]
  by (simp add: Unsubscribe_def)

theorem leave_all_channels_witness:
  "1 \<in> set (chan (snd (Unsubscribe [] '''' (1::nat)
      (snd (Subscribe ''a'' 1 (snd (Subscribe ''a'' 1 New)))))) ''a'')"
proof -
  let ?b = "snd (Subscribe ''a'' (1::nat) (snd (Subscribe ''a'' 1 New)))"
  have "broker_ok ?b" by (intro broker_ok_Subscribe broker_ok_New)
  moreover have "\<not> count_list (chan ?b ''a'') 1 \<le> 1" by simp
  ultimately show ?thesis using leave_all_channels [of ?b "[]" 1 "''a''" 2] by blast
qed

end
