(* ===== verification/Glob.thy ===== *)
theory Glob
  imports Go_Prelude
begin

text \<open>
  The pattern matcher behind KEYS: \<open>matchGlob\<close> and \<open>globMatch\<close> of
  \<^verbatim>\<open>src/internal/store/store.go\<close>. The result is \<^const>\<open>None\<close> where the Go code panics: after a
  character class without closing bracket has matched, \<^verbatim>\<open>pat[end+1:]\<close> slices past the end.

  The specification is a relation between a token sequence and a key; \<open>glob_correct\<close> shows that
  on every pattern whose classes are closed the matcher returns and decides the relation.
\<close>

section \<open>The matcher\<close>

text \<open>\<open>globStar\<close> is the loop of the case \<^verbatim>\<open>'*'\<close> over the suffixes of the key.\<close>

function (sequential) globMatch :: "string \<Rightarrow> string \<Rightarrow> bool option"
  and globStar :: "string \<Rightarrow> string \<Rightarrow> bool option"
where
  "globMatch [] key = Some (key = [])"
| "globMatch (p # pat) key =
     (if p = CHR ''*'' then (if pat = [] then Some True else globStar pat key)
      else if p = CHR ''?'' then
        (case key of [] \<Rightarrow> Some False | _ # key' \<Rightarrow> globMatch pat key')
      else if p = CHR ''['' then
        (case key of
           [] \<Rightarrow> Some False
         | ch # key' \<Rightarrow>
             if ch \<notin> set (takeWhile (\<lambda>c. c \<noteq> CHR '']'') pat) then Some False
             else (case dropWhile (\<lambda>c. c \<noteq> CHR '']'') pat of
                     [] \<Rightarrow> None
                   | _ # pat' \<Rightarrow> globMatch pat' key'))
      else
        (case key of
           [] \<Rightarrow> Some False
         | ch # key' \<Rightarrow> if p \<noteq> ch then Some False else globMatch pat key'))"
| "globStar pat key =
     (case globMatch pat key of
        None \<Rightarrow> None
      | Some True \<Rightarrow> Some True
      | Some False \<Rightarrow> (case key of [] \<Rightarrow> Some False | _ # key' \<Rightarrow> globStar pat key'))"
  by pat_completeness auto
termination
proof (relation "measures [\<lambda>x. case x of Inl (p, k) \<Rightarrow> length p | Inr (p, k) \<Rightarrow> length p,
    \<lambda>x. case x of Inl (p, k) \<Rightarrow> 2 * length k | Inr (p, k) \<Rightarrow> 2 * length k + 1]", goal_cases)
  case (4 p pat key ch key' c pat')
  then have "length (c # pat') \<le> length pat" using length_dropWhile_le by metis
  then show ?case by simp
qed auto

declare globMatch.simps [simp del] globStar.simps [simp del]

definition matchGlob :: "string \<Rightarrow> string \<Rightarrow> bool option" where
  "matchGlob pat key = globMatch pat key"

section \<open>The specification\<close>

datatype glob_token = AnySeq | AnyChar | OneOf "char list" | Lit char

text \<open>\<^const>\<open>None\<close>: a character class is not closed.\<close>

function tokens :: "string \<Rightarrow> glob_token list option" where
  "tokens [] = Some []"
| "tokens (p # pat) =
     (if p = CHR ''*'' then map_option ((#) AnySeq) (tokens pat)
      else if p = CHR ''?'' then map_option ((#) AnyChar) (tokens pat)
      else if p = CHR ''['' then
        (case dropWhile (\<lambda>c. c \<noteq> CHR '']'') pat of
           [] \<Rightarrow> None
         | _ # pat' \<Rightarrow>
             map_option ((#) (OneOf (takeWhile (\<lambda>c. c \<noteq> CHR '']'') pat))) (tokens pat'))
      else map_option ((#) (Lit p)) (tokens pat))"
  by pat_completeness auto
termination
proof (relation "measure length", goal_cases)
  case (4 p pat c pat')
  then have "length (c # pat') \<le> length pat" using length_dropWhile_le by metis
  then show ?case by simp
qed auto

declare tokens.simps(2) [simp del]

inductive glob :: "glob_token list \<Rightarrow> string \<Rightarrow> bool" where
  glob_Nil: "glob [] []"
| glob_AnySeq: "glob ts s2 \<Longrightarrow> glob (AnySeq # ts) (s1 @ s2)"
| glob_AnyChar: "glob ts s \<Longrightarrow> glob (AnyChar # ts) (c # s)"
| glob_OneOf: "c \<in> set cl \<Longrightarrow> glob ts s \<Longrightarrow> glob (OneOf cl # ts) (c # s)"
| glob_Lit: "glob ts s \<Longrightarrow> glob (Lit c # ts) (c # s)"

inductive_simps glob_NilL [simp]: "glob [] s"
inductive_simps glob_NilR: "glob (AnySeq # ts) []"
inductive_simps glob_AnyChar_iff [simp]: "glob (AnyChar # ts) s"
inductive_simps glob_OneOf_iff [simp]: "glob (OneOf cl # ts) s"
inductive_simps glob_Lit_iff [simp]: "glob (Lit c # ts) s"
inductive_simps glob_AnySeq_iff: "glob (AnySeq # ts) s"

lemma glob_AnySeq_step:
  "glob (AnySeq # ts) s \<longleftrightarrow> glob ts s \<or> (\<exists>c s'. s = c # s' \<and> glob (AnySeq # ts) s')"
proof
  assume "glob (AnySeq # ts) s"
  then obtain s1 s2 where s: "s = s1 @ s2" and g: "glob ts s2" by (auto simp: glob_AnySeq_iff)
  then show "glob ts s \<or> (\<exists>c s'. s = c # s' \<and> glob (AnySeq # ts) s')"
    by (cases s1) (auto intro: glob_AnySeq)
next
  assume "glob ts s \<or> (\<exists>c s'. s = c # s' \<and> glob (AnySeq # ts) s')"
  then show "glob (AnySeq # ts) s"
    using glob_AnySeq [of ts s "[]"] by (auto simp: glob_AnySeq_iff) (metis append_Cons)
qed

lemma glob_last_AnySeq: "glob [AnySeq] s"
  using glob_AnySeq [OF glob_Nil, of s] by simp

section \<open>Correctness\<close>

lemma tokens_Nil_iff: "tokens pat = Some [] \<longleftrightarrow> pat = []"
  by (cases pat) (auto simp: tokens.simps(2) split: list.splits)

lemma globMatch_glob:
  "tokens pat = Some ts \<Longrightarrow> globMatch pat key = Some (glob ts key)"
  "tokens pat = Some ts \<Longrightarrow> globStar pat key = Some (glob (AnySeq # ts) key)"
proof (induction pat key and pat key arbitrary: ts and ts rule: globMatch_globStar.induct)
  case (1 key)
  then show ?case by (simp add: globMatch.simps)
next
  case (2 p pat key)
  let ?cl = "takeWhile (\<lambda>c. c \<noteq> CHR '']'') pat" and ?tl = "dropWhile (\<lambda>c. c \<noteq> CHR '']'') pat"
  consider (last) "p = CHR ''*''" "pat = []" | (star) "p = CHR ''*''" "pat \<noteq> []"
    | (any) "p = CHR ''?''" | (cls) "p = CHR ''[''" | (lit) "p \<notin> set ''*?[''"
    by auto
  then show ?case
  proof cases
    case last
    with "2.prems" show ?thesis by (auto simp: globMatch.simps tokens.simps glob_last_AnySeq)
  next
    case star
    with "2.prems" obtain us where us: "tokens pat = Some us" "ts = AnySeq # us"
      by (auto simp: tokens.simps(2))
    with "2.IH"(1) [OF star us(1)] star show ?thesis by (simp add: globMatch.simps(2))
  next
    case any
    with "2.prems" obtain us where us: "tokens pat = Some us" "ts = AnyChar # us"
      by (auto simp: tokens.simps(2))
    with "2.IH"(2) any show ?thesis by (cases key) (simp_all add: globMatch.simps(2))
  next
    case cls
    with "2.prems" obtain b pat' us where us: "?tl = b # pat'" "tokens pat' = Some us"
      "ts = OneOf ?cl # us"
      by (auto simp: tokens.simps(2) split: list.splits)
    with "2.IH"(3) cls show ?thesis by (cases key) (simp_all add: globMatch.simps(2))
  next
    case lit
    with "2.prems" obtain us where us: "tokens pat = Some us" "ts = Lit p # us"
      by (auto simp: tokens.simps(2))
    with "2.IH"(4) lit show ?thesis by (cases key) (auto simp: globMatch.simps(2))
  qed
next
  case (3 pat key)
  from "3.IH"(1) [OF "3.prems"] have m: "globMatch pat key = Some (glob ts key)" .
  show ?case
  proof (cases "glob ts key")
    case True
    with m show ?thesis by (simp add: globStar.simps glob_AnySeq_step [of ts key])
  next
    case False
    with m 3 show ?thesis
      by (auto simp: globStar.simps [of pat key] glob_AnySeq_step [of ts key] split: list.splits)
  qed
qed

section \<open>Properties\<close>

text \<open>C32. On every pattern whose character classes are closed, the matcher returns (it neither
  panics nor loops) and says exactly whether the key matches: a star stands for any sequence of
  bytes, a question mark for one byte, a class for one of its bytes, any other byte for itself.\<close>

theorem glob_correct:
  assumes "tokens pat = Some ts"
  shows "matchGlob pat key = Some (glob ts key)"
  using globMatch_glob(1) [OF assms] by (simp add: matchGlob_def)

theorem glob_correct_witness:
  "matchGlob ''h[ae]l*o'' ''hello'' = Some (glob [Lit (CHR ''h''), OneOf ''ae'', Lit (CHR ''l''),
      AnySeq, Lit (CHR ''o'')] ''hello'')"
proof -
  have "tokens ''h[ae]l*o'' = Some [Lit (CHR ''h''), OneOf ''ae'', Lit (CHR ''l''), AnySeq,
      Lit (CHR ''o'')]"
    by (simp add: tokens.simps)
  then show ?thesis by (rule glob_correct)
qed

text \<open>C38. When the matcher panics: for a pattern of ordinary characters and then an open character class, exactly on the keys
  that begin with those characters and go on with a byte of the class (\<^verbatim>\<open>KEYS [a\<close> panics as soon as a live key starts
  with \<^verbatim>\<open>a\<close>); on the empty key and on all others it returns. For patterns with closed classes it never panics.\<close>

theorem glob_panic:
  assumes "CHR '']'' \<notin> set cl" "set lit \<inter> {CHR ''*'', CHR ''?'', CHR ''[''} = {}"
  shows "(matchGlob (lit @ CHR ''['' # cl) key = None \<longleftrightarrow> (\<exists>c key'. key = lit @ c # key' \<and> c \<in> set cl)) \<and>
    (tokens pat \<noteq> None \<longrightarrow> matchGlob pat key \<noteq> None)"
proof (intro conjI impI)
  have tw: "takeWhile (\<lambda>x. x \<noteq> CHR '']'') cl = cl" and dw: "dropWhile (\<lambda>x. x \<noteq> CHR '']'') cl = []"
    using assms(1) by (auto simp: takeWhile_eq_all_conv dropWhile_eq_Nil_conv)
  show "matchGlob (lit @ CHR ''['' # cl) key = None \<longleftrightarrow> (\<exists>c key'. key = lit @ c # key' \<and> c \<in> set cl)"
    using assms(2) unfolding matchGlob_def
  proof (induction lit arbitrary: key)
    case Nil
    show ?case by (cases key) (simp_all add: globMatch.simps(2) tw dw)
  next
    case (Cons l lit)
    then show ?case by (cases key) (auto simp: globMatch.simps(2))
  qed
  show "matchGlob pat key \<noteq> None" if "tokens pat \<noteq> None"
    using that globMatch_glob(1) [of pat] by (auto simp: matchGlob_def)
qed

theorem glob_panic_witness:
  "matchGlob ''k[a'' ''kabc'' = None \<and> matchGlob ''a*'' ''kabc'' \<noteq> None"
proof -
  have t: "tokens ''a*'' \<noteq> None" by (simp add: tokens.simps)
  have "CHR '']'' \<notin> set ''a''" "set ''k'' \<inter> {CHR ''*'', CHR ''?'', CHR ''[''} = {}" by simp_all
  from glob_panic [OF this, of "''kabc''" "''a*''"] t show ?thesis by simp
qed

end
