(* ===== verification/Placeholders.thy ===== *)
theory Placeholders
  imports Go_Strings
begin

text \<open>
  The query rewriting of the PostgreSQL driver, \<^verbatim>\<open>src/internal/db/postgres.go\<close>: \<open>?\<close> placeholders
  become \<open>$1\<close>, \<open>$2\<close>, \<dots>, except inside single-quoted SQL literals, and the schema text is cut
  into single statements. The store writes every query with \<open>?\<close>; this rewriting is what makes the
  two backends run the same statements.

  The specification reads a query as a sequence of segments (plain text, quoted literal,
  placeholder); \<open>placeholders_numbered\<close> shows that rewriting the printed query prints the same
  segments with the placeholders numbered from 1.
\<close>

section \<open>The code\<close>

function itoa_loop :: "nat \<Rightarrow> string \<Rightarrow> string" where
  "itoa_loop n digits =
     (if n > 0 then itoa_loop (n div 10) (digit_char (n mod 10) # digits) else digits)"
  by pat_completeness auto
termination
  by (relation "measure fst") auto

declare itoa_loop.simps [simp del]

definition itoa :: "nat \<Rightarrow> string" where
  "itoa n = (if n < 10 then [digit_char n] else itoa_loop n [])"

abbreviation quote :: char where
  "quote \<equiv> CHR 0x27"

fun rewrite_loop :: "string \<Rightarrow> nat \<Rightarrow> bool \<Rightarrow> string" where
  "rewrite_loop [] n inString = []"
| "rewrite_loop (ch # cs) n inString =
     (if ch = quote \<and> \<not> inString then ch # rewrite_loop cs n True
      else if ch = quote \<and> inString then
        (case cs of
           [] \<Rightarrow> [ch]
         | c # cs' \<Rightarrow>
             if c = quote then ch # ch # rewrite_loop cs' n True
             else ch # rewrite_loop (c # cs') n False)
      else if ch = CHR ''?'' \<and> \<not> inString then
        CHR ''$'' # itoa n @ rewrite_loop cs (n + 1) inString
      else ch # rewrite_loop cs n inString)"

definition rewritePlaceholders :: "string \<Rightarrow> string" where
  "rewritePlaceholders query = rewrite_loop query 1 False"

definition splitStatements :: "string \<Rightarrow> string list" where
  "splitStatements sql = filter (\<lambda>p. p \<noteq> []) (map TrimSpace (Split (CHR '';'') sql))"

section \<open>Decimal printing\<close>

lemma itoa_loop_digits: "n > 0 \<Longrightarrow> itoa_loop n ds = nat_digits n @ ds"
proof (induction n ds rule: itoa_loop.induct)
  case (1 n ds)
  show ?case
  proof (cases "n < 10")
    case True
    with "1.prems" show ?thesis
      by (simp add: itoa_loop.simps [of n] itoa_loop.simps [of 0] nat_digits.simps [of n])
  next
    case False
    with 1 show ?thesis
      by (simp add: itoa_loop.simps [of n] nat_digits.simps [of n] div_greater_zero_iff)
  qed
qed

lemma itoa_nat_digits: "itoa n = nat_digits n"
  by (auto simp: itoa_def itoa_loop_digits nat_digits.simps [of n])

section \<open>The specification\<close>

datatype segment = Plain string | Quoted string | Hole

fun escape :: "string \<Rightarrow> string" where
  "escape [] = []"
| "escape (c # cs) = (if c = quote then quote # quote # escape cs else c # escape cs)"

fun print_segment :: "segment \<Rightarrow> string" where
  "print_segment (Plain s) = s"
| "print_segment (Quoted s) = quote # escape s @ [quote]"
| "print_segment Hole = ''?''"

fun number_segments :: "nat \<Rightarrow> segment list \<Rightarrow> string" where
  "number_segments n [] = []"
| "number_segments n (Hole # segs) = CHR ''$'' # nat_digits n @ number_segments (Suc n) segs"
| "number_segments n (seg # segs) = print_segment seg @ number_segments n segs"

text \<open>
  Plain text has no quote and no placeholder, and a quoted literal is not followed at once by
  another one (SQL reads \<open>'a''b'\<close> as a single literal).
\<close>

fun segments_ok :: "segment list \<Rightarrow> bool" where
  "segments_ok [] = True"
| "segments_ok (Plain s # segs) \<longleftrightarrow>
     quote \<notin> set s \<and> CHR ''?'' \<notin> set s \<and> s \<noteq> [] \<and> segments_ok segs"
| "segments_ok (Quoted s # segs) \<longleftrightarrow>
     (case segs of Quoted t # _ \<Rightarrow> False | _ \<Rightarrow> True) \<and> segments_ok segs"
| "segments_ok (Hole # segs) \<longleftrightarrow> segments_ok segs"

lemma rewrite_plain:
  "quote \<notin> set s \<Longrightarrow> CHR ''?'' \<notin> set s \<Longrightarrow>
     rewrite_loop (s @ rest) n False = s @ rewrite_loop rest n False"
  by (induction s) auto

lemma rewrite_quoted:
  "rest = [] \<or> hd rest \<noteq> quote \<Longrightarrow>
     rewrite_loop (escape s @ quote # rest) n True = escape s @ quote # rewrite_loop rest n False"
  by (induction s) (auto split: list.splits)

lemma print_not_quote:
  "segments_ok segs \<Longrightarrow> (case segs of Quoted t # _ \<Rightarrow> False | _ \<Rightarrow> True) \<Longrightarrow>
     concat (map print_segment segs) = [] \<or> hd (concat (map print_segment segs)) \<noteq> quote"
  by (cases segs rule: segments_ok.cases) (auto simp: hd_append dest: hd_in_set)

lemma rewrite_segments:
  "segments_ok segs \<Longrightarrow>
     rewrite_loop (concat (map print_segment segs)) n False = number_segments n segs"
proof (induction segs arbitrary: n)
  case (Cons seg segs)
  show ?case
  proof (cases seg)
    case (Plain s)
    with Cons show ?thesis by (simp add: rewrite_plain)
  next
    case (Quoted s)
    with Cons.prems have "segments_ok segs" and "case segs of Quoted t # _ \<Rightarrow> False | _ \<Rightarrow> True"
      by simp_all
    then show ?thesis
      using Cons.IH [of n] rewrite_quoted [OF print_not_quote, of segs s n] by (simp add: Quoted)
  next
    case Hole
    with Cons show ?thesis by (simp add: itoa_nat_digits)
  qed
qed simp

section \<open>Trimming\<close>

lemma hd_rev_dropWhile: "dropWhile P s \<noteq> [] \<Longrightarrow> \<not> P (hd (dropWhile P s))"
  by (rule hd_dropWhile) (auto simp: dropWhile_eq_Nil_conv)

lemma TrimSpace_ends:
  assumes "TrimSpace s \<noteq> []"
  shows "\<not> is_space (hd (TrimSpace s)) \<and> \<not> is_space (last (TrimSpace s))"
proof
  let ?l = "dropWhile is_space s"
  let ?t = "dropWhile is_space (rev ?l)"
  have ne: "?t \<noteq> []" using assms by (simp add: TrimSpace_def)
  have "last (TrimSpace s) = hd ?t" unfolding TrimSpace_def by (simp only: last_rev)
  then show "\<not> is_space (last (TrimSpace s))" using hd_rev_dropWhile [OF ne] by simp
  have lne: "?l \<noteq> []" using ne by (metis dropWhile.simps(1) rev.simps(1))
  obtain u where u: "rev ?l = u @ ?t" by (metis takeWhile_dropWhile_id)
  then have "?l = rev ?t @ rev u" by (metis rev_append rev_rev_ident)
  then have "hd (TrimSpace s) = hd ?l" using ne by (metis TrimSpace_def hd_append2 rev_is_Nil_conv)
  then show "\<not> is_space (hd (TrimSpace s))" using hd_rev_dropWhile [OF lne] by simp
qed

lemma set_TrimSpace: "set (TrimSpace s) \<subseteq> set s"
  by (auto simp: TrimSpace_def dest!: set_dropWhileD)

section \<open>Properties\<close>

text \<open>C36. Rewriting numbers exactly the placeholders outside quoted literals, in order from 1, and
  leaves every other byte of the query as it is, quoted literals (with doubled quotes inside them)
  included.\<close>

theorem placeholders_numbered:
  assumes "segments_ok segs"
  shows "rewritePlaceholders (concat (map print_segment segs)) = number_segments 1 segs"
  unfolding rewritePlaceholders_def using assms by (rule rewrite_segments)

theorem placeholders_numbered_witness:
  "rewritePlaceholders
     (concat (map print_segment [Plain ''WHERE a='', Hole, Plain '' AND t='', Quoted ''is it?'',
        Plain '' AND b='', Hole]))
   = ''WHERE a=$1 AND t='' @ [quote] @ ''is it?'' @ [quote] @ '' AND b=$2''"
proof -
  have "segments_ok [Plain ''WHERE a='', Hole, Plain '' AND t='', Quoted ''is it?'',
      Plain '' AND b='', Hole]" by simp
  from placeholders_numbered [OF this] show ?thesis
    by (simp add: nat_digits.simps numeral_2_eq_2 [symmetric])
qed

text \<open>Cutting a script into statements: no piece is empty, has a semicolon or starts or ends with
  white space.\<close>

theorem statements_clean:
  assumes "p \<in> set (splitStatements sql)"
  shows "p \<noteq> [] \<and> CHR '';'' \<notin> set p \<and> \<not> is_space (hd p) \<and> \<not> is_space (last p)"
proof -
  from assms obtain q where q: "q \<in> set (Split (CHR '';'') sql)" "p = TrimSpace q" "p \<noteq> []"
    by (auto simp: splitStatements_def)
  with Split_no_sep [OF q(1)] set_TrimSpace [of q] TrimSpace_ends [of q] show ?thesis by auto
qed

theorem statements_clean_witness:
  "''B'' \<in> set (splitStatements ''A; B ;;'') \<and> CHR '';'' \<notin> set ''B''"
proof -
  have "''B'' \<in> set (splitStatements ''A; B ;;'')"
    by (simp add: splitStatements_def TrimSpace_def is_space_def)
  with statements_clean [OF this] show ?thesis by blast
qed

end
