(* ===== verification/Go_Float.thy ===== *)
theory Go_Float
  imports Complex_Main Go_Strings
begin

text \<open>
  Go's \<^verbatim>\<open>float64\<close> (IEEE 754 binary64), as the scores of sorted sets use it: not a number, the two
  infinities, and the finite values, each with its sign (so that the two zeros are different
  values) and its exact magnitude. \<open>round64\<close> rounds to the nearest value, ties to even;
  \<open>f_add\<close> is Go's \<^verbatim>\<open>+\<close>, \<open>ParseFloat\<close> is \<^verbatim>\<open>strconv.ParseFloat(s, 64)\<close>.
\<close>

section \<open>Values and comparisons\<close>

datatype float64 = NaN | Infinity bool | Finite bool rat

text \<open>The class of a value: negative infinity, finite, positive infinity.\<close>

fun f_class :: "float64 \<Rightarrow> int" where
  "f_class NaN = 0"
| "f_class (Infinity neg) = (if neg then - 1 else 1)"
| "f_class (Finite neg m) = 0"

fun f_real :: "float64 \<Rightarrow> rat" where
  "f_real (Finite neg m) = (if neg then - m else m)"
| "f_real _ = 0"

text \<open>The comparison operators of Go: every comparison with NaN is false.\<close>

definition f_less :: "float64 \<Rightarrow> float64 \<Rightarrow> bool" where
  "f_less x y \<longleftrightarrow> x \<noteq> NaN \<and> y \<noteq> NaN \<and>
     (f_class x < f_class y \<or> f_class x = f_class y \<and> f_real x < f_real y)"

definition f_le :: "float64 \<Rightarrow> float64 \<Rightarrow> bool" where
  "f_le x y \<longleftrightarrow> x \<noteq> NaN \<and> y \<noteq> NaN \<and>
     (f_class x < f_class y \<or> f_class x = f_class y \<and> f_real x \<le> f_real y)"

section \<open>Rounding\<close>

definition pow2 :: "int \<Rightarrow> rat" where
  "pow2 e = (if e \<ge> 0 then 2 ^ nat e else 1 / 2 ^ nat (- e))"

fun bits :: "nat \<Rightarrow> nat" where
  "bits n = (if n = 0 then 0 else Suc (bits (n div 2)))"

declare bits.simps [simp del]

text \<open>The exponent of the largest power of two that is at most a positive rational.\<close>

definition floor_log2 :: "rat \<Rightarrow> int" where
  "floor_log2 m =
     (let (a, b) = quotient_of m;
          e = int (bits (nat a)) - int (bits (nat b))
      in if pow2 e \<le> m then e else e - 1)"

definition round_half_even :: "rat \<Rightarrow> int" where
  "round_half_even x =
     (let f = \<lfloor>x\<rfloor>; d = x - of_int f
      in if d < 1 / 2 then f else if d > 1 / 2 then f + 1 else if even f then f else f + 1)"

definition round64 :: "bool \<Rightarrow> rat \<Rightarrow> float64" where
  "round64 neg m =
     (if m = 0 then Finite neg 0
      else let q = pow2 (max (floor_log2 m) (- 1022) - 52);
               r = of_int (round_half_even (m / q)) * q
           in if r \<ge> pow2 1024 then Infinity neg else Finite neg r)"

fun f_add :: "float64 \<Rightarrow> float64 \<Rightarrow> float64" where
  "f_add NaN y = NaN"
| "f_add x NaN = NaN"
| "f_add (Infinity a) (Infinity b) = (if a = b then Infinity a else NaN)"
| "f_add (Infinity a) (Finite b m) = Infinity a"
| "f_add (Finite a m) (Infinity b) = Infinity b"
| "f_add (Finite a m) (Finite b n) =
     (let s = f_real (Finite a m) + f_real (Finite b n)
      in if s = 0 then Finite (a \<and> b) 0 else round64 (s < 0) \<bar>s\<bar>)"

section \<open>Parsing\<close>

datatype num_error = ErrSyntax | ErrRange

definition hex_val :: "char \<Rightarrow> int option" where
  "hex_val c =
     (if is_digit c then Some (digit_val c)
      else let l = lower_char c in
        if 97 \<le> (of_char l :: nat) \<and> (of_char l :: nat) \<le> 102
        then Some (int (of_char l) - 87) else None)"

text \<open>The mantissa loop of \<^verbatim>\<open>readFloat\<close>: value of the digits, number of digits after the point, and
  whether a point, a digit and an underscore have been seen; then the rest of the input.\<close>

record mantissa =
  mant :: int
  fracDigits :: nat
  sawdot :: bool
  sawdigits :: bool
  underscores :: bool

fun mantissa_loop :: "bool \<Rightarrow> string \<Rightarrow> mantissa \<Rightarrow> mantissa \<times> string" where
  "mantissa_loop hex [] st = (st, [])"
| "mantissa_loop hex (c # cs) st =
     (if c = CHR ''_'' then mantissa_loop hex cs (st\<lparr>underscores := True\<rparr>)
      else if c = CHR ''.'' then
        (if sawdot st then (st, c # cs) else mantissa_loop hex cs (st\<lparr>sawdot := True\<rparr>))
      else case (if hex then hex_val c else if is_digit c then Some (digit_val c) else None) of
          None \<Rightarrow> (st, c # cs)
        | Some d \<Rightarrow> mantissa_loop hex cs
            (st\<lparr>mant := (if hex then 16 else 10) * mant st + d, sawdigits := True,
               fracDigits := (if sawdot st then Suc (fracDigits st) else fracDigits st)\<rparr>))"

text \<open>The exponent digits: the value is capped, as in Go.\<close>

fun exponent_loop :: "string \<Rightarrow> int \<Rightarrow> bool \<Rightarrow> int \<times> bool \<times> string" where
  "exponent_loop [] e us = (e, us, [])"
| "exponent_loop (c # cs) e us =
     (if c = CHR ''_'' then exponent_loop cs e True
      else if is_digit c then
        exponent_loop cs (if e < 10000 then 10 * e + digit_val c else e) us
      else (e, us, c # cs))"

text \<open>\<^verbatim>\<open>underscoreOK\<close>: underscores only between digits or after a base prefix. The state is the kind
  of the previous character: \<^verbatim>\<open>^\<close> start, \<^verbatim>\<open>0\<close> digit or prefix, \<^verbatim>\<open>_\<close>, \<^verbatim>\<open>!\<close> other.\<close>

fun underscore_loop :: "bool \<Rightarrow> char \<Rightarrow> string \<Rightarrow> bool" where
  "underscore_loop hex i [] \<longleftrightarrow> i \<noteq> CHR ''_''"
| "underscore_loop hex i (c # cs) \<longleftrightarrow>
     (if is_digit c \<or> hex \<and> hex_val c \<noteq> None then underscore_loop hex CHR ''0'' cs
      else if c = CHR ''_'' then i = CHR ''0'' \<and> underscore_loop hex CHR ''_'' cs
      else i \<noteq> CHR ''_'' \<and> underscore_loop hex CHR ''!'' cs)"

definition drop_sign :: "string \<Rightarrow> string" where
  "drop_sign s = (case s of c # cs \<Rightarrow> if c = CHR ''+'' \<or> c = CHR ''-'' then cs else s | [] \<Rightarrow> [])"

definition underscoreOK :: "string \<Rightarrow> bool" where
  "underscoreOK s0 =
     (let s = drop_sign s0 in
      case s of
        a # b # cs \<Rightarrow>
          if a = CHR ''0'' \<and> lower_char b \<in> {CHR ''b'', CHR ''o'', CHR ''x''}
          then underscore_loop (lower_char b = CHR ''x'') CHR ''0'' cs
          else underscore_loop False CHR ''^'' s
      | _ \<Rightarrow> underscore_loop False CHR ''^'' s)"

definition special :: "string \<Rightarrow> float64 option" where
  "special s =
     (let body = map lower_char (drop_sign s); neg = (s \<noteq> [] \<and> hd s = CHR ''-'') in
      if body = ''inf'' \<or> body = ''infinity'' then Some (Infinity neg)
      else if map lower_char s = ''nan'' then Some NaN else None)"

definition pow_rat :: "rat \<Rightarrow> int \<Rightarrow> rat" where
  "pow_rat b e = (if e \<ge> 0 then b ^ nat e else 1 / b ^ nat (- e))"

definition is_exp_char :: "bool \<Rightarrow> char \<Rightarrow> bool" where
  "is_exp_char hex c \<longleftrightarrow> lower_char c = (if hex then CHR ''p'' else CHR ''e'')"

definition readExponent :: "bool \<Rightarrow> string \<Rightarrow> (int \<times> bool \<times> string) option" where
  "readExponent hex s =
     (case s of
        [] \<Rightarrow> if hex then None else Some (0, False, [])
      | c # cs \<Rightarrow>
          if \<not> is_exp_char hex c then (if hex then None else Some (0, False, s))
          else let body = drop_sign cs; neg = (cs \<noteq> [] \<and> hd cs = CHR ''-'') in
            if body = [] \<or> \<not> is_digit (hd body) then None
            else case exponent_loop body 0 False of
                (e, us, rest) \<Rightarrow> Some (if neg then - e else e, us, rest))"

definition ParseFloat :: "string \<Rightarrow> num_error + float64" where
  "ParseFloat s =
     (case special s of
        Some f \<Rightarrow> Inr f
      | None \<Rightarrow>
          let neg = (s \<noteq> [] \<and> hd s = CHR ''-'');
              body = drop_sign s;
              hex = (length body > 2 \<and> hd body = CHR ''0'' \<and> lower_char (body ! 1) = CHR ''x'');
              (st, rest) = mantissa_loop hex (if hex then drop 2 body else body)
                \<lparr>mant = 0, fracDigits = 0, sawdot = False, sawdigits = False, underscores = False\<rparr>
          in if \<not> sawdigits st then Inl ErrSyntax
             else case readExponent hex rest of
                 None \<Rightarrow> Inl ErrSyntax
               | Some (e, us, rest2) \<Rightarrow>
                   if (underscores st \<or> us) \<and> \<not> underscoreOK s then Inl ErrSyntax
                   else if rest2 \<noteq> [] then Inl ErrSyntax
                   else
                     (let v = of_int (mant st) *
                        (if hex then pow_rat 2 (e - 4 * int (fracDigits st))
                         else pow_rat 10 (e - int (fracDigits st)))
                      in case round64 neg v of
                           Infinity _ \<Rightarrow> Inl ErrRange
                         | f \<Rightarrow> Inr f))"

section \<open>Lemmas\<close>

lemma f_le_refl [simp]: "x \<noteq> NaN \<Longrightarrow> f_le x x"
  by (simp add: f_le_def)

lemma f_le_trans: "f_le x y \<Longrightarrow> f_le y z \<Longrightarrow> f_le x z"
  by (auto simp: f_le_def)

lemma f_le_total: "x \<noteq> NaN \<Longrightarrow> y \<noteq> NaN \<Longrightarrow> f_le x y \<or> f_le y x"
  by (auto simp: f_le_def)

lemma f_less_le: "f_less x y \<longleftrightarrow> x \<noteq> NaN \<and> y \<noteq> NaN \<and> \<not> f_le y x"
  by (auto simp: f_le_def f_less_def)

end
