(* ===== verification/Sql.thy ===== *)
theory Sql
  imports Go_Strings Go_Float
begin

text \<open>
  The database as the store uses it: the six tables of the schema in \<^verbatim>\<open>src/internal/db/db.go\<close> and
  the effect of the SQL statements that \<^verbatim>\<open>src/internal/store\<close> executes.

  \<^item> A table is a list of rows, each a pair of its primary key and its other columns, in the
    order the engine stores them. The primary keys and the foreign keys with
    \<^verbatim>\<open>ON DELETE CASCADE\<close> are those of the schema (\<open>schema_ok\<close>).
  \<^item> A statement is a function on the tables that gives the number of affected rows, or the
    constraint it violates.
  \<^item> Running a statement can fail for reasons outside the program (lost connection, full disk,
    busy database). What the program cannot control is a parameter, the \<open>environ\<close>: whether the
    statement that is executed next fails, and with which message, what the clock reads, and in
    which order rows of a query without \<^verbatim>\<open>ORDER BY\<close> and entries of a Go map come. Every theorem
    holds for every environment, unless it says which it is about.
  \<^item> The store's Go functions are actions: functions from a \<open>world\<close> to a result or error and the
    world afterwards. \<open>seq\<close> is \<^verbatim>\<open>x, err := m(); if err != nil { return err }\<close>.
\<close>

named_theorems sql_simps \<open>equations that run actions\<close>

section \<open>Tables\<close>

type_synonym key_id = "string \<times> int"

record tables =
  keysT :: "(key_id \<times> (string \<times> int option)) list"
  stringsT :: "(key_id \<times> string) list"
  listsT :: "((key_id \<times> int) \<times> string) list"
  hashesT :: "((key_id \<times> string) \<times> string) list"
  setsT :: "((key_id \<times> string) \<times> unit) list"
  zsetsT :: "((key_id \<times> string) \<times> float64) list"

definition empty_tables :: tables where
  "empty_tables = \<lparr>keysT = [], stringsT = [], listsT = [], hashesT = [], setsT = [], zsetsT = []\<rparr>"

definition pk_ok :: "tables \<Rightarrow> bool" where
  "pk_ok T \<longleftrightarrow> distinct (map fst (keysT T)) \<and> distinct (map fst (stringsT T)) \<and>
     distinct (map fst (listsT T)) \<and> distinct (map fst (hashesT T)) \<and>
     distinct (map fst (setsT T)) \<and> distinct (map fst (zsetsT T))"

definition fk_ok :: "tables \<Rightarrow> bool" where
  "fk_ok T \<longleftrightarrow>
     (let ids = fst ` set (keysT T) in
      fst ` set (stringsT T) \<subseteq> ids \<and> (fst \<circ> fst) ` set (listsT T) \<subseteq> ids \<and>
      (fst \<circ> fst) ` set (hashesT T) \<subseteq> ids \<and> (fst \<circ> fst) ` set (setsT T) \<subseteq> ids \<and>
      (fst \<circ> fst) ` set (zsetsT T) \<subseteq> ids)"

definition schema_ok :: "tables \<Rightarrow> bool" where
  "schema_ok T \<longleftrightarrow> pk_ok T \<and> fk_ok T"

section \<open>Statements\<close>

text \<open>The Go error values: the two of the store, \<^verbatim>\<open>errors.New(text)\<close>, a \<^verbatim>\<open>strconv.NumError\<close> (the
  function's name, the input and the cause), and the errors of the database driver.\<close>

datatype error = ErrWrongType | ErrNoKey | ErrText string | ErrNum string string num_error
  | ErrSql string | ErrConstraint string

type_synonym stmt = "tables \<Rightarrow> error + (nat \<times> tables)"

definition has_key :: "tables \<Rightarrow> key_id \<Rightarrow> bool" where
  "has_key T kd \<longleftrightarrow> kd \<in> fst ` set (keysT T)"

text \<open>\<^verbatim>\<open>UPDATE \<dots> SET \<dots> WHERE\<close> the primary key is \<open>k\<close>.\<close>

definition update_rows :: "'k \<Rightarrow> ('v \<Rightarrow> 'v) \<Rightarrow> ('k \<times> 'v) list \<Rightarrow> ('k \<times> 'v) list" where
  "update_rows k f t = map (\<lambda>(k', v). (k', if k' = k then f v else v)) t"

subsection \<open>The table keys\<close>

text \<open>Deleting the keys \<open>G\<close>: the foreign keys' \<^verbatim>\<open>ON DELETE CASCADE\<close> deletes the rows that reference
  them.\<close>

definition drop_keys :: "key_id set \<Rightarrow> tables \<Rightarrow> tables" where
  "drop_keys G T =
     \<lparr>keysT = [r \<leftarrow> keysT T. fst r \<notin> G],
      stringsT = [r \<leftarrow> stringsT T. fst r \<notin> G],
      listsT = [r \<leftarrow> listsT T. fst (fst r) \<notin> G],
      hashesT = [r \<leftarrow> hashesT T. fst (fst r) \<notin> G],
      setsT = [r \<leftarrow> setsT T. fst (fst r) \<notin> G],
      zsetsT = [r \<leftarrow> zsetsT T. fst (fst r) \<notin> G]\<rparr>"

text \<open>\<^verbatim>\<open>DELETE FROM keys WHERE \<dots>\<close>\<close>

definition delete_keys :: "(key_id \<Rightarrow> string \<Rightarrow> int option \<Rightarrow> bool) \<Rightarrow> stmt" where
  "delete_keys P T =
     (let gone = map fst [(kd, ty, ex) \<leftarrow> keysT T. P kd ty ex]
      in Inr (length gone, drop_keys (set gone) T))"

text \<open>\<^verbatim>\<open>INSERT INTO keys \<dots> ON CONFLICT(key,db) DO UPDATE SET type=excluded.type, expires_at=\<dots>\<close>\<close>

definition upsert_key_row :: "key_id \<Rightarrow> string \<Rightarrow> int option \<Rightarrow> stmt" where
  "upsert_key_row kd ty ex T = Inr (1, T\<lparr>keysT := AList.update kd (ty, ex) (keysT T)\<rparr>)"

text \<open>\<^verbatim>\<open>INSERT INTO keys(key,db,type) \<dots> ON CONFLICT(key,db) DO UPDATE SET type=\<dots>\<close>: an existing
  expiry stays.\<close>

definition upsert_key_type :: "key_id \<Rightarrow> string \<Rightarrow> stmt" where
  "upsert_key_type kd ty T =
     (let ex = (case map_of (keysT T) kd of None \<Rightarrow> None | Some (_, ex) \<Rightarrow> ex)
      in Inr (1, T\<lparr>keysT := AList.update kd (ty, ex) (keysT T)\<rparr>))"

text \<open>\<^verbatim>\<open>INSERT INTO keys(key,db,type) \<dots> ON CONFLICT(key,db) DO NOTHING\<close>\<close>

definition insert_key_or_nothing :: "key_id \<Rightarrow> string \<Rightarrow> stmt" where
  "insert_key_or_nothing kd ty T =
     (if has_key T kd then Inr (0, T) else Inr (1, T\<lparr>keysT := keysT T @ [(kd, (ty, None))]\<rparr>))"

text \<open>\<^verbatim>\<open>INSERT INTO keys \<dots>\<close> without a conflict clause.\<close>

definition insert_key :: "key_id \<Rightarrow> string \<Rightarrow> int option \<Rightarrow> stmt" where
  "insert_key kd ty ex T =
     (if has_key T kd then Inl (ErrConstraint ''PRIMARY KEY'')
      else Inr (1, T\<lparr>keysT := keysT T @ [(kd, (ty, ex))]\<rparr>))"

text \<open>\<^verbatim>\<open>UPDATE keys SET expires_at=? WHERE key=? AND db=?\<close>\<close>

definition update_expiry :: "key_id \<Rightarrow> int option \<Rightarrow> stmt" where
  "update_expiry kd ex T =
     Inr (length [r \<leftarrow> keysT T. fst r = kd],
       T\<lparr>keysT := update_rows kd (\<lambda>(ty, _). (ty, ex)) (keysT T)\<rparr>)"

subsection \<open>The data tables\<close>

definition insert_string :: "key_id \<Rightarrow> string \<Rightarrow> stmt" where
  "insert_string kd v T =
     (if \<not> has_key T kd then Inl (ErrConstraint ''FOREIGN KEY'')
      else if kd \<in> fst ` set (stringsT T) then Inl (ErrConstraint ''PRIMARY KEY'')
      else Inr (1, T\<lparr>stringsT := stringsT T @ [(kd, v)]\<rparr>))"

definition upsert_string :: "key_id \<Rightarrow> string \<Rightarrow> stmt" where
  "upsert_string kd v T =
     (if \<not> has_key T kd then Inl (ErrConstraint ''FOREIGN KEY'')
      else Inr (1, T\<lparr>stringsT := AList.update kd v (stringsT T)\<rparr>))"

definition update_string :: "key_id \<Rightarrow> string \<Rightarrow> stmt" where
  "update_string kd v T =
     Inr (length [r \<leftarrow> stringsT T. fst r = kd],
       T\<lparr>stringsT := update_rows kd (\<lambda>_. v) (stringsT T)\<rparr>)"

definition insert_list_row :: "key_id \<Rightarrow> int \<Rightarrow> string \<Rightarrow> stmt" where
  "insert_list_row kd i v T =
     (if \<not> has_key T kd then Inl (ErrConstraint ''FOREIGN KEY'')
      else if (kd, i) \<in> fst ` set (listsT T) then Inl (ErrConstraint ''PRIMARY KEY'')
      else Inr (1, T\<lparr>listsT := listsT T @ [((kd, i), v)]\<rparr>))"

definition delete_list_rows :: "key_id \<Rightarrow> stmt" where
  "delete_list_rows kd T =
     Inr (length [r \<leftarrow> listsT T. fst (fst r) = kd],
       T\<lparr>listsT := [r \<leftarrow> listsT T. fst (fst r) \<noteq> kd]\<rparr>)"

definition upsert_field :: "key_id \<Rightarrow> string \<Rightarrow> string \<Rightarrow> stmt" where
  "upsert_field kd f v T =
     (if \<not> has_key T kd then Inl (ErrConstraint ''FOREIGN KEY'')
      else Inr (1, T\<lparr>hashesT := AList.update (kd, f) v (hashesT T)\<rparr>))"

definition delete_field :: "key_id \<Rightarrow> string \<Rightarrow> stmt" where
  "delete_field kd f T =
     Inr (length [r \<leftarrow> hashesT T. fst r = (kd, f)],
       T\<lparr>hashesT := [r \<leftarrow> hashesT T. fst r \<noteq> (kd, f)]\<rparr>)"

definition insert_member_or_nothing :: "key_id \<Rightarrow> string \<Rightarrow> stmt" where
  "insert_member_or_nothing kd m T =
     (if \<not> has_key T kd then Inl (ErrConstraint ''FOREIGN KEY'')
      else if (kd, m) \<in> fst ` set (setsT T) then Inr (0, T)
      else Inr (1, T\<lparr>setsT := setsT T @ [((kd, m), ())]\<rparr>))"

definition delete_member :: "key_id \<Rightarrow> string \<Rightarrow> stmt" where
  "delete_member kd m T =
     Inr (length [r \<leftarrow> setsT T. fst r = (kd, m)],
       T\<lparr>setsT := [r \<leftarrow> setsT T. fst r \<noteq> (kd, m)]\<rparr>)"

text \<open>Scores. What a \<^verbatim>\<open>float64\<close> argument becomes depends on the engine: SQLite binds NaN as NULL,
  which a \<^verbatim>\<open>NOT NULL\<close> column refuses, and stores an integral real as an integer, so that the
  negative zero loses its sign; PostgreSQL keeps every value, and takes NaN as equal to itself and
  greater than every other number.\<close>

datatype dialect = SQLite | Postgres

definition bind_score :: "dialect \<Rightarrow> float64 \<Rightarrow> float64 option" where
  "bind_score d x =
     (case d of
        Postgres \<Rightarrow> Some x
      | SQLite \<Rightarrow> (case x of NaN \<Rightarrow> None
                   | Finite neg m \<Rightarrow> Some (Finite (neg \<and> m \<noteq> 0) m) | _ \<Rightarrow> Some x))"

definition sc_less :: "dialect \<Rightarrow> float64 \<Rightarrow> float64 \<Rightarrow> bool" where
  "sc_less d x y = (case d of SQLite \<Rightarrow> f_less x y | Postgres \<Rightarrow> x \<noteq> NaN \<and> (y = NaN \<or> f_less x y))"

definition sc_le :: "dialect \<Rightarrow> float64 \<Rightarrow> float64 \<Rightarrow> bool" where
  "sc_le d x y = (case d of SQLite \<Rightarrow> f_le x y | Postgres \<Rightarrow> y = NaN \<or> f_le x y)"

definition insert_score :: "key_id \<Rightarrow> string \<Rightarrow> float64 option \<Rightarrow> stmt" where
  "insert_score kd m sc T =
     (case sc of
        None \<Rightarrow> Inl (ErrConstraint ''NOT NULL'')
      | Some x \<Rightarrow>
          if \<not> has_key T kd then Inl (ErrConstraint ''FOREIGN KEY'')
          else if (kd, m) \<in> fst ` set (zsetsT T) then Inl (ErrConstraint ''PRIMARY KEY'')
          else Inr (1, T\<lparr>zsetsT := zsetsT T @ [((kd, m), x)]\<rparr>))"

definition update_score :: "key_id \<Rightarrow> string \<Rightarrow> float64 option \<Rightarrow> stmt" where
  "update_score kd m sc T =
     (case sc of
        None \<Rightarrow> if (kd, m) \<in> fst ` set (zsetsT T) then Inl (ErrConstraint ''NOT NULL'') else Inr (0, T)
      | Some x \<Rightarrow>
          Inr (length [r \<leftarrow> zsetsT T. fst r = (kd, m)],
            T\<lparr>zsetsT := update_rows (kd, m) (\<lambda>_. x) (zsetsT T)\<rparr>))"

definition delete_score :: "key_id \<Rightarrow> string \<Rightarrow> stmt" where
  "delete_score kd m T =
     Inr (length [r \<leftarrow> zsetsT T. fst r = (kd, m)],
       T\<lparr>zsetsT := [r \<leftarrow> zsetsT T. fst r \<noteq> (kd, m)]\<rparr>)"

section \<open>Environment, worlds and actions\<close>

record environ =
  clock :: "nat \<Rightarrow> int"
  faults :: "nat \<Rightarrow> string option"
  orders :: "nat \<Rightarrow> nat list"
  dialect :: dialect
  collate :: "string \<Rightarrow> string \<Rightarrow> bool"

text \<open>\<open>tick\<close> counts the interactions with the environment; interaction number \<open>n\<close> reads
  \<open>clock n\<close> (Unix time in nanoseconds), \<open>faults n\<close> and \<open>orders n\<close>. \<open>collate\<close> is the order in which
  \<^verbatim>\<open>ORDER BY\<close> puts texts: byte order in SQLite, the database's collation in PostgreSQL.\<close>

record world =
  tabs :: tables
  env :: environ
  tick :: nat

type_synonym 'a act = "world \<Rightarrow> (error + 'a) \<times> world"

definition bump :: "world \<Rightarrow> world" where
  "bump w = w\<lparr>tick := Suc (tick w)\<rparr>"

definition ret :: "'a \<Rightarrow> 'a act" where
  "ret a w = (Inr a, w)"

definition fail :: "error \<Rightarrow> 'a act" where
  "fail e w = (Inl e, w)"

definition seq :: "'a act \<Rightarrow> ('a \<Rightarrow> 'b act) \<Rightarrow> 'b act" where
  "seq m f w = (case m w of (Inl e, w') \<Rightarrow> (Inl e, w') | (Inr a, w') \<Rightarrow> f a w')"

text \<open>A call whose error the caller looks at itself (or ignores).\<close>

definition attempt :: "'a act \<Rightarrow> (error + 'a) act" where
  "attempt m w = (case m w of (r, w') \<Rightarrow> (Inr r, w'))"

definition nowNs :: "int act" where
  "nowNs w = (Inr (clock (env w) (tick w)), bump w)"

definition engine :: "(environ \<Rightarrow> 'a) \<Rightarrow> 'a act" where
  "engine f w = (Inr (f (env w)), w)"

definition query :: "(tables \<Rightarrow> 'a) \<Rightarrow> 'a act" where
  "query q w = (case faults (env w) (tick w) of
       Some msg \<Rightarrow> (Inl (ErrSql msg), bump w)
     | None \<Rightarrow> (Inr (q (tabs w)), bump w))"

text \<open>A query without \<^verbatim>\<open>ORDER BY\<close>: the rows come in the environment's order.\<close>

definition query_rows :: "(tables \<Rightarrow> 'a list) \<Rightarrow> 'a list act" where
  "query_rows q w = (case faults (env w) (tick w) of
       Some msg \<Rightarrow> (Inl (ErrSql msg), bump w)
     | None \<Rightarrow> (Inr (arrange (orders (env w) (tick w)) (q (tabs w))), bump w))"

text \<open>Iterating over a Go map.\<close>

definition range_map :: "'a list \<Rightarrow> 'a list act" where
  "range_map xs w = (Inr (arrange (orders (env w) (tick w)) xs), bump w)"

definition exec :: "stmt \<Rightarrow> nat act" where
  "exec st w = (case faults (env w) (tick w) of
       Some msg \<Rightarrow> (Inl (ErrSql msg), bump w)
     | None \<Rightarrow> (case st (tabs w) of
           Inl e \<Rightarrow> (Inl e, bump w)
         | Inr (n, T) \<Rightarrow> (Inr n, (bump w)\<lparr>tabs := T\<rparr>)))"

text \<open>
  \<^verbatim>\<open>tx, err := s.db.BeginTx(ctx, nil); defer tx.Rollback(); \<dots>; tx.Commit()\<close>. The body ends with
  \<open>Commit\<close> or returns without committing (\<open>Abandon\<close>, or an error); without a successful commit the
  deferred rollback restores the tables.
\<close>

datatype 'a tx_end = Commit 'a | Abandon 'a

definition transact :: "'a tx_end act \<Rightarrow> 'a act" where
  "transact body w = (case exec (\<lambda>T. Inr (0, T)) w of
       (Inl e, w1) \<Rightarrow> (Inl e, w1)
     | (Inr _, w1) \<Rightarrow>
         (case body w1 of
            (Inl e, w2) \<Rightarrow> (Inl e, w2\<lparr>tabs := tabs w1\<rparr>)
          | (Inr (Abandon a), w2) \<Rightarrow> (Inr a, w2\<lparr>tabs := tabs w1\<rparr>)
          | (Inr (Commit a), w2) \<Rightarrow>
              (case exec (\<lambda>T. Inr (0, T)) w2 of
                 (Inl e, w3) \<Rightarrow> (Inl e, w3\<lparr>tabs := tabs w1\<rparr>)
               | (Inr _, w3) \<Rightarrow> (Inr a, w3))))"

text \<open>A loop that stops at the first error.\<close>

fun each :: "('x \<Rightarrow> 'a \<Rightarrow> 'a act) \<Rightarrow> 'x list \<Rightarrow> 'a \<Rightarrow> 'a act" where
  "each f [] a = ret a"
| "each f (x # xs) a = seq (f x a) (each f xs)"

lemmas act_defs = ret_def fail_def seq_def attempt_def nowNs_def query_def query_rows_def
  range_map_def exec_def engine_def transact_def

end
