(* ===== verification/Sql_Laws.thy ===== *)
theory Sql_Laws
  imports Sql
begin

text \<open>
  The laws the store's proofs rest on.

  \<^item> Locale \<open>table_relation\<close>: a reflexive and transitive relation between the tables before and
    after; if every statement respects it, every action built from statements does, transactions
    and failures included. It is interpreted twice: with \<open>schema_step\<close> (the schema's constraints
    stay true) and with \<open>frame\<close> (the rows of all other keys stay as they are).
  \<^item> \<open>calm t w\<close>: an environment in which no statement fails and the clock stays within one
    millisecond \<open>t\<close> while the action runs; there every action is a function, and \<open>sql_simps\<close>
    computes it.
\<close>

section \<open>Relations that actions respect\<close>

definition keeps :: "(tables \<Rightarrow> tables \<Rightarrow> bool) \<Rightarrow> 'a act \<Rightarrow> bool" where
  "keeps R m \<longleftrightarrow> (\<forall>w. R (tabs w) (tabs (snd (m w))))"

definition stmt_keeps :: "(tables \<Rightarrow> tables \<Rightarrow> bool) \<Rightarrow> stmt \<Rightarrow> bool" where
  "stmt_keeps R st \<longleftrightarrow> (\<forall>T n T'. st T = Inr (n, T') \<longrightarrow> R T T')"

lemma keepsD: "keeps R m \<Longrightarrow> m w = (r, w') \<Longrightarrow> R (tabs w) (tabs w')"
  unfolding keeps_def by (metis snd_conv)

lemma tabs_bump [simp]: "tabs (bump w) = tabs w" "env (bump w) = env w"
  by (simp_all add: bump_def)

text \<open>A transaction leaves the tables as they were, or as a committed run of its body leaves them.\<close>

lemma transact_commit:
  "tabs (snd (transact body w)) = tabs w \<or>
     (\<exists>w1 a w2. tabs w1 = tabs w \<and> env w1 = env w \<and> body w1 = (Inr (Commit a), w2) \<and>
       tabs (snd (transact body w)) = tabs w2)"
proof -
  have e: "tabs (snd (exec (\<lambda>T. Inr (0, T)) w)) = tabs w \<and> env (snd (exec (\<lambda>T. Inr (0, T)) w)) = env w"
    for w by (simp add: exec_def split: option.split)
  obtain r1 w1 where 1: "exec (\<lambda>T. Inr (0, T)) w = (r1, w1)" by (meson surj_pair)
  obtain r2 w2 where 2: "body w1 = (r2, w2)" by (meson surj_pair)
  obtain r3 w3 where 3: "exec (\<lambda>T. Inr (0, T)) w2 = (r3, w3)" by (meson surj_pair)
  have t: "tabs w1 = tabs w" "env w1 = env w" "tabs w3 = tabs w2"
    using e [of w] e [of w2] 1 3 by simp_all
  show ?thesis
  proof (cases r1)
    case (Inl e)
    with 1 t show ?thesis by (simp add: transact_def)
  next
    case (Inr n)
    note run = transact_def [of body w, unfolded 1 Inr prod.case sum.case 2]
    show ?thesis
    proof (cases "\<exists>a. r2 = Inr (Commit a) \<and> (\<exists>n. r3 = Inr n)")
      case True
      then show ?thesis using 2 t by (auto simp: run 3)
    next
      case False
      then have "tabs (snd (transact body w)) = tabs w1"
        by (cases r2; cases r3) (auto simp: run 3 split: tx_end.split)
      with t show ?thesis by simp
    qed
  qed
qed

locale table_relation =
  fixes R :: "tables \<Rightarrow> tables \<Rightarrow> bool"
  assumes R_refl: "R T T"
    and R_trans: "R T T' \<Longrightarrow> R T' T'' \<Longrightarrow> R T T''"
begin

lemma keeps_ret [simp, intro]: "keeps R (ret a)"
  by (simp add: keeps_def ret_def R_refl)

lemma keeps_fail [simp, intro]: "keeps R (fail e)"
  by (simp add: keeps_def fail_def R_refl)

lemma keeps_nowNs [simp, intro]: "keeps R nowNs"
  by (simp add: keeps_def nowNs_def R_refl)

lemma keeps_query [simp, intro]: "keeps R (query q)"
  by (simp add: keeps_def query_def R_refl split: option.split)

lemma keeps_query_rows [simp, intro]: "keeps R (query_rows q')"
  by (simp add: keeps_def query_rows_def R_refl split: option.split)

lemma keeps_range_map [simp, intro]: "keeps R (range_map xs)"
  by (simp add: keeps_def range_map_def R_refl)

lemma keeps_engine [simp, intro]: "keeps R (engine g)"
  by (simp add: keeps_def engine_def R_refl)

lemma keeps_exec [intro]: "stmt_keeps R st \<Longrightarrow> keeps R (exec st)"
  by (auto simp: keeps_def stmt_keeps_def exec_def R_refl split: option.split sum.split)

lemma keeps_seq [intro]: "keeps R m \<Longrightarrow> (\<And>a. keeps R (f a)) \<Longrightarrow> keeps R (seq m f)"
  unfolding keeps_def seq_def by (auto split: prod.split sum.split) (metis R_trans snd_conv)+

lemma keeps_attempt [intro]: "keeps R m \<Longrightarrow> keeps R (attempt m)"
  unfolding keeps_def attempt_def by (auto split: prod.split) (metis snd_conv)

lemma keeps_transact_commit:
  assumes "\<And>w a w'. body w = (Inr (Commit a), w') \<Longrightarrow> R (tabs w) (tabs w')"
  shows "keeps R (transact body)"
  unfolding keeps_def using transact_commit [of body] assms R_refl by metis

lemma keeps_transact [intro]: "keeps R body \<Longrightarrow> keeps R (transact body)"
  by (rule keeps_transact_commit) (erule (1) keepsD)

lemma keeps_each [intro]:
  "(\<And>x a. x \<in> set xs \<Longrightarrow> keeps R (f x a)) \<Longrightarrow> keeps R (each f xs a)"
  by (induction xs arbitrary: a) auto

lemma keeps_if [intro]: "(b \<Longrightarrow> keeps R m) \<Longrightarrow> (\<not> b \<Longrightarrow> keeps R m') \<Longrightarrow> keeps R (if b then m else m')"
  by simp

lemma keeps_option [intro]:
  "keeps R m \<Longrightarrow> (\<And>a. keeps R (f a)) \<Longrightarrow> keeps R (case x of None \<Rightarrow> m | Some a \<Rightarrow> f a)"
  by (simp split: option.split)

lemma keeps_sum [intro]:
  "(\<And>e. keeps R (g e)) \<Longrightarrow> (\<And>a. keeps R (f a)) \<Longrightarrow> keeps R (case x of Inl e \<Rightarrow> g e | Inr a \<Rightarrow> f a)"
  by (simp split: sum.split)

lemma keeps_prod [intro]: "(\<And>a b. keeps R (f a b)) \<Longrightarrow> keeps R (case x of (a, b) \<Rightarrow> f a b)"
  by (simp split: prod.split)

lemma keeps_prod_app [intro]:
  "(\<And>a b. keeps R (g a b y)) \<Longrightarrow> keeps R ((case x of (a, b) \<Rightarrow> g a b) y)"
  by (simp split: prod.split)

lemma keeps_list [intro]:
  "keeps R m \<Longrightarrow> (\<And>a as. x = a # as \<Longrightarrow> keeps R (f a as)) \<Longrightarrow>
     keeps R (case x of [] \<Rightarrow> m | a # as \<Rightarrow> f a as)"
  by (simp split: list.split)

lemmas keeps_rules = keeps_ret keeps_fail keeps_nowNs keeps_query keeps_query_rows keeps_range_map
  keeps_engine
  keeps_seq keeps_attempt keeps_transact keeps_each keeps_if keeps_option keeps_sum keeps_prod keeps_prod_app
  keeps_list

end

lemma seq_assoc: "seq (seq m f) g = seq m (\<lambda>x. seq (f x) g)"
  by (rule ext) (simp add: seq_def split: prod.split sum.split)

lemma seq_ret_right: "seq m ret = m"
  by (rule ext) (simp add: seq_def ret_def split: prod.split sum.split)

lemma seq_InrE [elim!]:
  assumes "seq m f w = (Inr b, w')"
  obtains a w1 where "m w = (Inr a, w1)" "f a w1 = (Inr b, w')"
  using assms by (auto simp: seq_def split: prod.splits sum.splits)

lemma exec_InrE [elim!]:
  assumes "exec st w = (Inr n, w')"
  obtains "st (tabs w) = Inr (n, tabs w')" "env w' = env w"
  using assms by (auto simp: exec_def split: option.splits sum.splits)

lemma query_InrE [elim!]:
  assumes "query q w = (Inr a, w')"
  obtains "a = q (tabs w)" "tabs w' = tabs w" "env w' = env w"
  using assms by (auto simp: query_def split: option.splits)

lemma ret_InrE [elim!]:
  assumes "ret a w = (Inr b, w')"
  obtains "b = a" "w' = w"
  using assms by (auto simp: ret_def)

section \<open>The schema's constraints\<close>

definition schema_step :: "tables \<Rightarrow> tables \<Rightarrow> bool" where
  "schema_step T T' \<longleftrightarrow> (schema_ok T \<longrightarrow> schema_ok T')"

interpretation schema: table_relation schema_step
  by unfold_locales (auto simp: schema_step_def)

lemma distinct_map_filter_fst: "distinct (map fst xs) \<Longrightarrow> distinct (map fst (filter P xs))"
  by (rule distinct_map_filter)

lemma map_fst_update_rows [simp]: "map fst (update_rows k f t) = map fst t"
  by (induction t) (auto simp: update_rows_def)

lemma fst_update_rows [simp]: "fst ` set (update_rows k f t) = fst ` set t"
  by (metis map_fst_update_rows set_map)

lemma map_of_update_rows [simp]:
  "map_of (update_rows k f t) x = (if x = k then map_option f (map_of t x) else map_of t x)"
  by (induction t) (auto simp: update_rows_def)

lemma ids_update:
  "(\<lambda>r. fst (fst r)) ` set (AList.update (kd, f) v al) = insert kd ((\<lambda>r. fst (fst r)) ` set al)"
proof -
  have "(\<lambda>r. fst (fst r)) ` set (AList.update (kd, f) v al)
      = fst ` (fst ` set (AList.update (kd, f) v al))" by (simp add: image_image)
  then show ?thesis by (simp add: dom_update image_image)
qed

lemma ids_update_rows:
  "(\<lambda>r. fst (fst r)) ` set (update_rows k f t) = (\<lambda>r. fst (fst r)) ` set t"
proof -
  have "(\<lambda>r. fst (fst r)) ` set (update_rows k f t) = fst ` (fst ` set (update_rows k f t))"
    by (simp only: image_image)
  then show ?thesis by (simp add: image_image)
qed

lemma fk_filter:
  "g ` set xs \<subseteq> fst ` set ks \<Longrightarrow>
     g ` set (filter (\<lambda>r. g r \<notin> G) xs) \<subseteq> fst ` set (filter (\<lambda>r. fst r \<notin> G) ks)"
  by fastforce

lemma schema_ok_drop_keys: "schema_ok T \<Longrightarrow> schema_ok (drop_keys G T)"
proof -
  assume ok: "schema_ok T"
  have "pk_ok (drop_keys G T)"
    using ok by (simp add: schema_ok_def pk_ok_def drop_keys_def distinct_map_filter)
  moreover have "fk_ok (drop_keys G T)"
    using ok unfolding schema_ok_def fk_ok_def Let_def comp_def drop_keys_def tables.simps
    by (intro conjI; intro fk_filter) simp_all
  ultimately show ?thesis by (simp add: schema_ok_def)
qed

lemma schema_delete_keys: "stmt_keeps schema_step (delete_keys P)"
  by (auto simp: stmt_keeps_def schema_step_def delete_keys_def Let_def
      intro: schema_ok_drop_keys)

lemma schema_upsert_key_row: "stmt_keeps schema_step (upsert_key_row kd ty ex)"
  by (auto simp: stmt_keeps_def schema_step_def schema_ok_def pk_ok_def fk_ok_def
      upsert_key_row_def distinct_update dom_update)

lemma schema_upsert_key_type: "stmt_keeps schema_step (upsert_key_type kd ty)"
  by (auto simp: stmt_keeps_def schema_step_def schema_ok_def pk_ok_def fk_ok_def
      upsert_key_type_def Let_def distinct_update dom_update)

lemma schema_insert_key_or_nothing: "stmt_keeps schema_step (insert_key_or_nothing kd ty)"
  by (auto simp: stmt_keeps_def schema_step_def schema_ok_def pk_ok_def fk_ok_def
      insert_key_or_nothing_def has_key_def split: if_splits)

lemma schema_insert_key: "stmt_keeps schema_step (insert_key kd ty ex)"
  by (auto simp: stmt_keeps_def schema_step_def schema_ok_def pk_ok_def fk_ok_def
      insert_key_def has_key_def split: if_splits)

lemma schema_update_expiry: "stmt_keeps schema_step (update_expiry kd ex)"
  by (auto simp: stmt_keeps_def schema_step_def schema_ok_def pk_ok_def fk_ok_def
      update_expiry_def)

lemma schema_insert_string: "stmt_keeps schema_step (insert_string kd v)"
  by (auto simp: stmt_keeps_def schema_step_def schema_ok_def pk_ok_def fk_ok_def
      insert_string_def has_key_def split: if_splits)

lemma schema_upsert_string: "stmt_keeps schema_step (upsert_string kd v)"
  by (auto simp: stmt_keeps_def schema_step_def schema_ok_def pk_ok_def fk_ok_def
      upsert_string_def has_key_def distinct_update dom_update split: if_splits)

lemma schema_update_string: "stmt_keeps schema_step (update_string kd v)"
  by (auto simp: stmt_keeps_def schema_step_def schema_ok_def pk_ok_def fk_ok_def
      update_string_def)

lemma schema_insert_list_row: "stmt_keeps schema_step (insert_list_row kd i v)"
  by (auto simp: stmt_keeps_def schema_step_def schema_ok_def pk_ok_def fk_ok_def
      insert_list_row_def has_key_def split: if_splits)

lemma schema_delete_list_rows: "stmt_keeps schema_step (delete_list_rows kd)"
  by (auto simp: stmt_keeps_def schema_step_def schema_ok_def pk_ok_def fk_ok_def
      delete_list_rows_def distinct_map_filter)

lemma schema_upsert_field: "stmt_keeps schema_step (upsert_field kd f v)"
  by (auto simp: stmt_keeps_def schema_step_def schema_ok_def pk_ok_def fk_ok_def
      upsert_field_def has_key_def distinct_update ids_update split: if_splits)

lemma schema_delete_field: "stmt_keeps schema_step (delete_field kd f)"
  by (auto simp: stmt_keeps_def schema_step_def schema_ok_def pk_ok_def fk_ok_def
      delete_field_def distinct_map_filter)

lemma schema_insert_member: "stmt_keeps schema_step (insert_member_or_nothing kd m)"
  by (auto simp: stmt_keeps_def schema_step_def schema_ok_def pk_ok_def fk_ok_def
      insert_member_or_nothing_def has_key_def split: if_splits)

lemma schema_delete_member: "stmt_keeps schema_step (delete_member kd m)"
  by (auto simp: stmt_keeps_def schema_step_def schema_ok_def pk_ok_def fk_ok_def
      delete_member_def distinct_map_filter)

lemma schema_insert_score: "stmt_keeps schema_step (insert_score kd m sc)"
  by (auto simp: stmt_keeps_def schema_step_def schema_ok_def pk_ok_def fk_ok_def
      insert_score_def has_key_def split: if_splits option.splits)

lemma schema_update_score: "stmt_keeps schema_step (update_score kd m sc)"
  by (auto simp: stmt_keeps_def schema_step_def schema_ok_def pk_ok_def fk_ok_def comp_def
      update_score_def ids_update_rows split: if_splits option.splits)

lemma schema_delete_score: "stmt_keeps schema_step (delete_score kd m)"
  by (auto simp: stmt_keeps_def schema_step_def schema_ok_def pk_ok_def fk_ok_def
      delete_score_def distinct_map_filter)

lemmas schema_stmts = schema_insert_score schema_update_score schema_delete_score schema_delete_keys schema_upsert_key_row schema_upsert_key_type
  schema_insert_key_or_nothing schema_insert_key schema_update_expiry schema_insert_string
  schema_upsert_string schema_update_string schema_insert_list_row schema_delete_list_rows
  schema_upsert_field schema_delete_field schema_insert_member schema_delete_member

section \<open>The rows of one key\<close>

text \<open>\<open>slice kd T\<close> keeps the rows of the key \<open>kd\<close> in every table, in order.\<close>

definition slice :: "key_id \<Rightarrow> tables \<Rightarrow> tables" where
  "slice kd T =
     \<lparr>keysT = [r \<leftarrow> keysT T. fst r = kd], stringsT = [r \<leftarrow> stringsT T. fst r = kd],
      listsT = [r \<leftarrow> listsT T. fst (fst r) = kd], hashesT = [r \<leftarrow> hashesT T. fst (fst r) = kd],
      setsT = [r \<leftarrow> setsT T. fst (fst r) = kd], zsetsT = [r \<leftarrow> zsetsT T. fst (fst r) = kd]\<rparr>"

text \<open>\<open>frame K T T'\<close>: the rows of every key outside \<open>K\<close> are the same in \<open>T\<close> and \<open>T'\<close>.\<close>

definition frame :: "key_id set \<Rightarrow> tables \<Rightarrow> tables \<Rightarrow> bool" where
  "frame K T T' \<longleftrightarrow> (\<forall>kd. kd \<notin> K \<longrightarrow> slice kd T' = slice kd T)"

interpretation frame: table_relation "frame K" for K
  by unfold_locales (auto simp: frame_def)

lemma frame_mono: "frame K T T' \<Longrightarrow> K \<subseteq> K' \<Longrightarrow> frame K' T T'"
  by (auto simp: frame_def)

lemma filter_update_other:
  "\<not> P k \<Longrightarrow> filter (\<lambda>r. P (fst r)) (AList.update k v al) = filter (\<lambda>r. P (fst r)) al"
  by (induction al) auto

lemma filter_update_rows_other:
  "\<not> P k \<Longrightarrow> filter (\<lambda>r. P (fst r)) (update_rows k f t) = filter (\<lambda>r. P (fst r)) t"
  by (induction t) (auto simp: update_rows_def)

lemma filter_keep_key:
  "kd \<notin> G \<Longrightarrow> filter (\<lambda>r. fst r \<notin> G \<and> fst r = kd) xs = filter (\<lambda>r. fst r = kd) xs"
  "kd \<notin> G \<Longrightarrow> filter (\<lambda>r. fst (fst r) \<notin> G \<and> fst (fst r) = kd) ys
     = filter (\<lambda>r. fst (fst r) = kd) ys"
  by (auto intro: filter_cong)

lemma slice_drop_keys: "kd \<notin> G \<Longrightarrow> slice kd (drop_keys G T) = slice kd T"
  by (simp add: slice_def drop_keys_def filter_keep_key)

lemma frame_delete_keys:
  assumes "\<And>kd ty ex. P kd ty ex \<Longrightarrow> kd \<in> K"
  shows "stmt_keeps (frame K) (delete_keys P)"
  using assms by (auto simp: stmt_keeps_def frame_def delete_keys_def Let_def
      intro!: slice_drop_keys)

lemma frame_stmt_mono: "stmt_keeps (frame K) st \<Longrightarrow> K \<subseteq> K' \<Longrightarrow> stmt_keeps (frame K') st"
  by (auto simp: stmt_keeps_def intro: frame_mono)

lemma filter_other_key:
  assumes "kd' \<noteq> kd"
  shows "filter (\<lambda>r. fst r = kd') (AList.update kd v al) = filter (\<lambda>r. fst r = kd') al"
    and "filter (\<lambda>r. fst r = kd') (update_rows kd f t) = filter (\<lambda>r. fst r = kd') t"
    and "filter (\<lambda>r. fst (fst r) = kd') (AList.update (kd, x) v al')
      = filter (\<lambda>r. fst (fst r) = kd') al'"
    and "filter (\<lambda>r. fst (fst r) = kd') (update_rows (kd, x) f t')
      = filter (\<lambda>r. fst (fst r) = kd') t'"
  using assms filter_update_other [of "\<lambda>x. x = kd'" kd v al]
    filter_update_rows_other [of "\<lambda>x. x = kd'" kd f t]
    filter_update_other [of "\<lambda>x. fst x = kd'" "(kd, x)" v al']
    filter_update_rows_other [of "\<lambda>x. fst x = kd'" "(kd, x)" f t']
  by auto

lemma frame_one_key:
  "stmt_keeps (frame {kd}) (upsert_key_row kd ty ex)"
  "stmt_keeps (frame {kd}) (upsert_key_type kd ty)"
  "stmt_keeps (frame {kd}) (insert_key_or_nothing kd ty)"
  "stmt_keeps (frame {kd}) (insert_key kd ty ex)"
  "stmt_keeps (frame {kd}) (update_expiry kd ex)"
  "stmt_keeps (frame {kd}) (insert_string kd v)"
  "stmt_keeps (frame {kd}) (upsert_string kd v)"
  "stmt_keeps (frame {kd}) (update_string kd v)"
  "stmt_keeps (frame {kd}) (insert_list_row kd i v)"
  "stmt_keeps (frame {kd}) (delete_list_rows kd)"
  "stmt_keeps (frame {kd}) (upsert_field kd f v)"
  "stmt_keeps (frame {kd}) (delete_field kd f)"
  "stmt_keeps (frame {kd}) (insert_member_or_nothing kd m)"
  "stmt_keeps (frame {kd}) (delete_member kd m)"
  "stmt_keeps (frame {kd}) (insert_score kd m sc)"
  "stmt_keeps (frame {kd}) (update_score kd m sc)"
  "stmt_keeps (frame {kd}) (delete_score kd m)"
  by (auto simp: stmt_keeps_def frame_def slice_def upsert_key_row_def upsert_key_type_def
      insert_score_def update_score_def delete_score_def
      insert_key_or_nothing_def insert_key_def update_expiry_def insert_string_def
      upsert_string_def update_string_def insert_list_row_def delete_list_rows_def
      upsert_field_def delete_field_def insert_member_or_nothing_def delete_member_def Let_def
      filter_other_key split: if_splits option.splits intro!: filter_cong)

lemmas frame_stmts = frame_one_key [THEN frame_stmt_mono]

section \<open>Calm environments\<close>

definition calm :: "int \<Rightarrow> world \<Rightarrow> bool" where
  "calm t w \<longleftrightarrow> (\<forall>n. faults (env w) n = None) \<and> (\<forall>n. clock (env w) n div 1000000 = t)"

lemma calm_bump [simp]: "calm t (bump w) = calm t w"
  by (simp add: calm_def)

lemma calm_tabs [simp]: "calm t (w\<lparr>tabs := T\<rparr>) = calm t w"
  by (simp add: calm_def)

lemma seq_ret [simp, sql_simps]: "seq (ret a) f w = f a w"
  by (simp add: seq_def ret_def)

lemma seq_fail [simp, sql_simps]: "seq (fail e) f w = (Inl e, w)"
  by (simp add: seq_def fail_def)

lemma seq_Inr [sql_simps]: "m w = (Inr a, w') \<Longrightarrow> seq m f w = f a w'"
  by (simp add: seq_def)

lemma seq_Inl [sql_simps]: "m w = (Inl e, w') \<Longrightarrow> seq m f w = (Inl e, w')"
  by (simp add: seq_def)

lemma calm_query [sql_simps]: "calm t w \<Longrightarrow> query q w = (Inr (q (tabs w)), bump w)"
  by (simp add: calm_def query_def)

lemma engine_run [simp, sql_simps]: "seq (engine g) f w = f (g (env w)) w"
  by (simp add: engine_def seq_def)

lemma calm_query_rows [sql_simps]:
  "calm t w \<Longrightarrow> query_rows q' w = (Inr (arrange (orders (env w) (tick w)) (q' (tabs w))), bump w)"
  by (simp add: calm_def query_rows_def)

lemma calm_exec_Inr:
  "calm t w \<Longrightarrow> st (tabs w) = Inr (n, T) \<Longrightarrow> exec st w = (Inr n, (bump w)\<lparr>tabs := T\<rparr>)"
  by (simp add: calm_def exec_def)

lemma calm_exec_Inl:
  "calm t w \<Longrightarrow> st (tabs w) = Inl e \<Longrightarrow> exec st w = (Inl e, bump w)"
  by (simp add: calm_def exec_def)

end
