(* ===== verification/Store_Core.thy ===== *)
theory Store_Core
  imports Sql_Laws Glob
begin

text \<open>
  The key-level operations of the store, \<^verbatim>\<open>src/internal/store/store.go\<close>: each Go method is one
  action, statement by statement, with the same early returns. The Go method receiver, the context
  and the transaction handle have no counterpart: the tables are part of the world.
\<close>

section \<open>Expiry and types\<close>

definition nowMs :: "int act" where
  "nowMs = seq nowNs (\<lambda>ns. ret (ns div 1000000))"

text \<open>\<^verbatim>\<open>expires_at IS NULL OR expires_at > ?\<close>\<close>

definition alive :: "int \<Rightarrow> int option \<Rightarrow> bool" where
  "alive t ex = (case ex of None \<Rightarrow> True | Some x \<Rightarrow> t < x)"

definition keyType :: "string \<Rightarrow> int \<Rightarrow> string act" where
  "keyType key db =
     seq nowMs (\<lambda>t.
     seq (query (\<lambda>T. case map_of (keysT T) (key, db) of
                         None \<Rightarrow> None
                       | Some (ty, ex) \<Rightarrow> if alive t ex then Some ty else None)) (\<lambda>row.
     ret (case row of None \<Rightarrow> '''' | Some ty \<Rightarrow> ty)))"

definition deleteExpired :: "string \<Rightarrow> int \<Rightarrow> unit act" where
  "deleteExpired key db =
     seq nowMs (\<lambda>t.
     seq (exec (delete_keys (\<lambda>kd ty ex. kd = (key, db) \<and> \<not> alive t ex))) (\<lambda>_. ret ()))"

definition assertType :: "string \<Rightarrow> int \<Rightarrow> string \<Rightarrow> unit act" where
  "assertType key db want =
     seq (keyType key db) (\<lambda>ty.
     if ty \<noteq> '''' \<and> ty \<noteq> want then fail ErrWrongType else ret ())"

definition upsertKey :: "string \<Rightarrow> int \<Rightarrow> string \<Rightarrow> int option \<Rightarrow> unit act" where
  "upsertKey key db ty expiresAt =
     (case expiresAt of
        None \<Rightarrow> seq (exec (upsert_key_row (key, db) ty None)) (\<lambda>_. ret ())
      | Some ms \<Rightarrow> seq (exec (upsert_key_row (key, db) ty (Some ms))) (\<lambda>_. ret ()))"

section \<open>Strings\<close>

definition Get :: "string \<Rightarrow> int \<Rightarrow> (string \<times> bool) act" where
  "Get key db =
     seq (deleteExpired key db) (\<lambda>_.
     seq (assertType key db ''string'') (\<lambda>_.
     seq (query (\<lambda>T. map_of (stringsT T) (key, db))) (\<lambda>row.
     ret (case row of None \<Rightarrow> ('''', False) | Some v \<Rightarrow> (v, True)))))"

record SetOptions =
  ExpiresAt :: "int option"
  NX :: bool
  XX :: bool
  KeepTTL :: bool

definition noSetOptions :: SetOptions where
  "noSetOptions = \<lparr>ExpiresAt = None, NX = False, XX = False, KeepTTL = False\<rparr>"

text \<open>\<^verbatim>\<open>SELECT COUNT(*) FROM keys WHERE key=? AND db=? AND \<close> alive\<close>

definition count_alive :: "tables \<Rightarrow> key_id \<Rightarrow> int \<Rightarrow> nat" where
  "count_alive T kd t = length [(i, ty, ex) \<leftarrow> keysT T. i = kd \<and> alive t ex]"

text \<open>A \<^verbatim>\<open>Scan\<close> whose error is not looked at leaves the variable at its zero value.\<close>

definition scan_or :: "'a \<Rightarrow> 'a act \<Rightarrow> 'a act" where
  "scan_or z m = seq (attempt m) (\<lambda>r. ret (case r of Inl _ \<Rightarrow> z | Inr a \<Rightarrow> a))"

definition Set :: "string \<Rightarrow> int \<Rightarrow> string \<Rightarrow> SetOptions \<Rightarrow> bool act" where
  "Set key db v opts =
     seq (deleteExpired key db) (\<lambda>_.
     seq (assertType key db ''string'') (\<lambda>_.
     transact (
       seq nowMs (\<lambda>t.
       seq (scan_or 0 (query (\<lambda>T. count_alive T (key, db) t))) (\<lambda>exists.
       if NX opts \<and> exists > 0 then ret (Abandon False)
       else if XX opts \<and> exists = 0 then ret (Abandon False)
       else
         seq (upsertKey key db ''string'' (ExpiresAt opts)) (\<lambda>_.
         seq (exec (upsert_string (key, db) v)) (\<lambda>_.
         ret (Commit True))))))))"

section \<open>Keys\<close>

definition delete_key :: "key_id \<Rightarrow> stmt" where
  "delete_key kd = delete_keys (\<lambda>i ty ex. i = kd)"

definition Del :: "string list \<Rightarrow> int \<Rightarrow> int act" where
  "Del ks db =
     (if length ks = 0 then ret 0
      else each (\<lambda>k total.
        seq (exec (delete_key (k, db))) (\<lambda>n. ret (total + int n))) ks 0)"

definition Exists :: "string list \<Rightarrow> int \<Rightarrow> int act" where
  "Exists ks db =
     each (\<lambda>k count.
       seq (deleteExpired k db) (\<lambda>_.
       seq (scan_or 0 (query (\<lambda>T. length [r \<leftarrow> keysT T. fst r = (k, db)]))) (\<lambda>n.
       ret (count + int n)))) ks 0"

definition ExpireAt :: "string \<Rightarrow> int \<Rightarrow> int \<Rightarrow> bool act" where
  "ExpireAt key db atMs =
     seq (deleteExpired key db) (\<lambda>_.
     seq (exec (update_expiry (key, db) (Some atMs))) (\<lambda>n.
     ret (n > 0)))"

text \<open>\<^verbatim>\<open>time.Duration(seconds) * time.Second\<close> is int64 arithmetic on nanoseconds.\<close>

definition Expire :: "string \<Rightarrow> int \<Rightarrow> int \<Rightarrow> bool act" where
  "Expire key db seconds =
     seq nowNs (\<lambda>now. ExpireAt key db ((now + wrap64 (seconds * 1000000000)) div 1000000))"

definition PExpire :: "string \<Rightarrow> int \<Rightarrow> int \<Rightarrow> bool act" where
  "PExpire key db ms = seq nowMs (\<lambda>now. ExpireAt key db (wrap64 (now + ms)))"

definition ttl :: "string \<Rightarrow> int \<Rightarrow> bool \<Rightarrow> int act" where
  "ttl key db millis =
     seq (deleteExpired key db) (\<lambda>_.
     seq (query (\<lambda>T. map_option snd (map_of (keysT T) (key, db)))) (\<lambda>row.
     case row of
       None \<Rightarrow> ret (- 2)
     | Some None \<Rightarrow> ret (- 1)
     | Some (Some expiresAt) \<Rightarrow>
         seq nowMs (\<lambda>now.
         let rem = wrap64 (expiresAt - now) in
         if rem < 0 then ret (- 2)
         else if millis then ret rem
         else ret (rem div 1000))))"

definition TTL :: "string \<Rightarrow> int \<Rightarrow> int act" where
  "TTL key db = ttl key db False"

definition PTTL :: "string \<Rightarrow> int \<Rightarrow> int act" where
  "PTTL key db = ttl key db True"

definition Persist :: "string \<Rightarrow> int \<Rightarrow> bool act" where
  "Persist key db =
     seq (deleteExpired key db) (\<lambda>_.
     seq (attempt (query (\<lambda>T. map_option snd (map_of (keysT T) (key, db))))) (\<lambda>r.
     case r of
       Inr (Some (Some _)) \<Rightarrow>
         seq (exec (update_expiry (key, db) None)) (\<lambda>_. ret True)
     | _ \<Rightarrow> ret False))"

definition Type :: "string \<Rightarrow> int \<Rightarrow> string act" where
  "Type key db =
     seq (deleteExpired key db) (\<lambda>_.
     seq (keyType key db) (\<lambda>ty.
     ret (if ty = '''' then ''none'' else ty)))"

definition SweepExpired :: "unit act" where
  "SweepExpired =
     seq nowMs (\<lambda>t. seq (exec (delete_keys (\<lambda>kd ty ex. \<not> alive t ex))) (\<lambda>_. ret ()))"

definition DBSize :: "int \<Rightarrow> int act" where
  "DBSize db =
     seq nowMs (\<lambda>t.
     query (\<lambda>T. int (length [(kd, ty, ex) \<leftarrow> keysT T. snd kd = db \<and> alive t ex])))"

definition FlushDB :: "int \<Rightarrow> unit act" where
  "FlushDB db = seq (exec (delete_keys (\<lambda>kd ty ex. snd kd = db))) (\<lambda>_. ret ())"

definition FlushAll :: "unit act" where
  "FlushAll = seq (exec (delete_keys (\<lambda>kd ty ex. True))) (\<lambda>_. ret ())"

text \<open>\<^verbatim>\<open>INSERT INTO \<dots> SELECT\<close> of the rows \<open>new\<close> into a data table \<open>t\<close>, all under the key \<open>kd\<close>.\<close>

definition copy_into :: "tables \<Rightarrow> key_id \<Rightarrow> ('p \<times> 'v) list \<Rightarrow> ('p \<times> 'v) list
    \<Rightarrow> error + ('p \<times> 'v) list" where
  "copy_into T kd new t =
     (if new = [] then Inr t
      else if \<not> has_key T kd then Inl (ErrConstraint ''FOREIGN KEY'')
      else if \<exists>r \<in> set new. fst r \<in> fst ` set t then Inl (ErrConstraint ''PRIMARY KEY'')
      else Inr (t @ new))"

definition rekey :: "key_id \<Rightarrow> key_id \<Rightarrow> ((key_id \<times> 'c) \<times> 'v) list \<Rightarrow> ((key_id \<times> 'c) \<times> 'v) list" where
  "rekey src dst t = map (\<lambda>((kd, c), v). ((dst, c), v)) [r \<leftarrow> t. fst (fst r) = src]"

definition copy_strings :: "key_id \<Rightarrow> key_id \<Rightarrow> stmt" where
  "copy_strings src dst T =
     (case copy_into T dst (map (\<lambda>(kd, v). (dst, v)) [r \<leftarrow> stringsT T. fst r = src]) (stringsT T) of
        Inl e \<Rightarrow> Inl e | Inr t \<Rightarrow> Inr (length t - length (stringsT T), T\<lparr>stringsT := t\<rparr>))"

definition copy_lists :: "key_id \<Rightarrow> key_id \<Rightarrow> stmt" where
  "copy_lists src dst T =
     (case copy_into T dst (rekey src dst (listsT T)) (listsT T) of
        Inl e \<Rightarrow> Inl e | Inr t \<Rightarrow> Inr (length t - length (listsT T), T\<lparr>listsT := t\<rparr>))"

definition copy_hashes :: "key_id \<Rightarrow> key_id \<Rightarrow> stmt" where
  "copy_hashes src dst T =
     (case copy_into T dst (rekey src dst (hashesT T)) (hashesT T) of
        Inl e \<Rightarrow> Inl e | Inr t \<Rightarrow> Inr (length t - length (hashesT T), T\<lparr>hashesT := t\<rparr>))"

definition copy_sets :: "key_id \<Rightarrow> key_id \<Rightarrow> stmt" where
  "copy_sets src dst T =
     (case copy_into T dst (rekey src dst (setsT T)) (setsT T) of
        Inl e \<Rightarrow> Inl e | Inr t \<Rightarrow> Inr (length t - length (setsT T), T\<lparr>setsT := t\<rparr>))"

definition copy_zsets :: "key_id \<Rightarrow> key_id \<Rightarrow> stmt" where
  "copy_zsets src dst T =
     (case copy_into T dst (rekey src dst (zsetsT T)) (zsetsT T) of
        Inl e \<Rightarrow> Inl e | Inr t \<Rightarrow> Inr (length t - length (zsetsT T), T\<lparr>zsetsT := t\<rparr>))"

text \<open>The \<^verbatim>\<open>switch typ\<close> of \<^verbatim>\<open>Rename\<close>.\<close>

definition copy_data :: "string \<Rightarrow> key_id \<Rightarrow> key_id \<Rightarrow> unit act" where
  "copy_data ty src dst =
     (if ty = ''string'' then seq (exec (copy_strings src dst)) (\<lambda>_. ret ())
      else if ty = ''list'' then seq (exec (copy_lists src dst)) (\<lambda>_. ret ())
      else if ty = ''hash'' then seq (exec (copy_hashes src dst)) (\<lambda>_. ret ())
      else if ty = ''set'' then seq (exec (copy_sets src dst)) (\<lambda>_. ret ())
      else if ty = ''zset'' then seq (exec (copy_zsets src dst)) (\<lambda>_. ret ())
      else ret ())"

text \<open>The body of the transaction of \<^verbatim>\<open>Rename\<close>; the error of its first statement is ignored.\<close>

definition rename_body :: "key_id \<Rightarrow> key_id \<Rightarrow> string \<Rightarrow> int option \<Rightarrow> unit tx_end act" where
  "rename_body src dst ty expiresAt =
     seq (attempt (exec (delete_key dst))) (\<lambda>_.
     seq (exec (insert_key dst ty expiresAt)) (\<lambda>_.
     seq (copy_data ty src dst) (\<lambda>_.
     seq (exec (delete_key src)) (\<lambda>_.
     ret (Commit ())))))"

definition Rename :: "string \<Rightarrow> string \<Rightarrow> int \<Rightarrow> unit act" where
  "Rename src dst db =
     seq (deleteExpired src db) (\<lambda>_.
     seq (query (\<lambda>T. map_of (keysT T) (src, db))) (\<lambda>row.
     case row of
       None \<Rightarrow> fail ErrNoKey
     | Some (ty, expiresAt) \<Rightarrow>
         transact (rename_body (src, db) (dst, db) ty expiresAt)))"

text \<open>The live key names of a database.\<close>

definition alive_names :: "int \<Rightarrow> int \<Rightarrow> tables \<Rightarrow> string list" where
  "alive_names db t T = map (fst \<circ> fst) [(kd, ty, ex) \<leftarrow> keysT T. snd kd = db \<and> alive t ex]"

definition RandomKey :: "int \<Rightarrow> string act" where
  "RandomKey db =
     seq nowMs (\<lambda>t.
     seq (query_rows (alive_names db t)) (\<lambda>ks.
     ret (case ks of [] \<Rightarrow> '''' | k # _ \<Rightarrow> k)))"

text \<open>The loop of \<^verbatim>\<open>Keys\<close>; \<^const>\<open>None\<close> is the matcher's panic.\<close>

fun keys_loop :: "string \<Rightarrow> string list \<Rightarrow> string list \<Rightarrow> string list option" where
  "keys_loop pat [] res = Some res"
| "keys_loop pat (k # ks) res =
     (case matchGlob pat k of
        None \<Rightarrow> None
      | Some b \<Rightarrow> keys_loop pat ks (if b then res @ [k] else res))"

definition Keys :: "string \<Rightarrow> int \<Rightarrow> string list option act" where
  "Keys pat db =
     seq nowMs (\<lambda>t.
     seq (query_rows (alive_names db t)) (\<lambda>ks.
     ret (keys_loop pat ks [])))"

lemmas store_core_defs = keyType_def deleteExpired_def assertType_def upsertKey_def Get_def
  scan_or_def Set_def Del_def Exists_def ExpireAt_def Expire_def PExpire_def ttl_def TTL_def
  PTTL_def Persist_def Type_def SweepExpired_def DBSize_def FlushDB_def FlushAll_def Rename_def
  RandomKey_def Keys_def nowMs_def

end
