(* ===== verification/Store_Strings.thy ===== *)
theory Store_Strings
  imports Store_Core
begin

text \<open>
  The remaining string operations of the store, \<^verbatim>\<open>src/internal/store/strings.go\<close>.
\<close>

definition IncrBy :: "string \<Rightarrow> int \<Rightarrow> int \<Rightarrow> int act" where
  "IncrBy key db delta =
     seq (deleteExpired key db) (\<lambda>_.
     seq (assertType key db ''string'') (\<lambda>_.
     transact (
       seq (scan_or None (query (\<lambda>T. map_of (stringsT T) (key, db)))) (\<lambda>raw.
       case raw of
         Some s \<Rightarrow>
           (case ParseInt s of
              None \<Rightarrow> fail (ErrText ''ERR value is not an integer or out of range'')
            | Some cur \<Rightarrow>
                (let nxt = wrap64 (cur + delta) in
                 seq (exec (update_string (key, db) (FormatInt nxt))) (\<lambda>_.
                 ret (Commit nxt))))
       | None \<Rightarrow>
           (let nxt = wrap64 (0 + delta) in
            seq (exec (upsert_key_type (key, db) ''string'')) (\<lambda>_.
            seq (exec (insert_string (key, db) (FormatInt nxt))) (\<lambda>_.
            ret (Commit nxt))))))))"

definition Append :: "string \<Rightarrow> int \<Rightarrow> string \<Rightarrow> int act" where
  "Append key db suffix =
     seq (deleteExpired key db) (\<lambda>_.
     seq (assertType key db ''string'') (\<lambda>_.
     transact (
       seq (query (\<lambda>T. map_of (stringsT T) (key, db))) (\<lambda>row.
       case row of
         Some cur \<Rightarrow>
           (let newVal = cur @ suffix in
            seq (exec (update_string (key, db) newVal)) (\<lambda>_.
            ret (Commit (int (length newVal)))))
       | None \<Rightarrow>
           (let newVal = '''' @ suffix in
            seq (attempt (exec (upsert_key_type (key, db) ''string''))) (\<lambda>_.
            seq (exec (insert_string (key, db) newVal)) (\<lambda>_.
            ret (Commit (int (length newVal))))))))))"

definition StrLen :: "string \<Rightarrow> int \<Rightarrow> int act" where
  "StrLen key db =
     seq (deleteExpired key db) (\<lambda>_.
     seq (assertType key db ''string'') (\<lambda>_.
     seq (query (\<lambda>T. map_of (stringsT T) (key, db))) (\<lambda>row.
     ret (case row of None \<Rightarrow> 0 | Some v \<Rightarrow> int (length v)))))"

lemmas store_string_defs = IncrBy_def Append_def StrLen_def

end
