(* ===== verification/Store_Lists.thy ===== *)
theory Store_Lists
  imports Store_Core
begin

text \<open>
  The list operations of the store, \<^verbatim>\<open>src/internal/store/lists.go\<close>. A list is stored as rows with an
  index; every update reads all values in index order and rewrites them with indices from 0.
\<close>

text \<open>\<^verbatim>\<open>SELECT value FROM lists WHERE key=? AND db=? ORDER BY idx ASC\<close>\<close>

definition list_values :: "tables \<Rightarrow> key_id \<Rightarrow> string list" where
  "list_values T kd =
     map snd (sort_key (\<lambda>r. snd (fst r)) [r \<leftarrow> listsT T. fst (fst r) = kd])"

definition lEnsure :: "string \<Rightarrow> int \<Rightarrow> unit act" where
  "lEnsure key db =
     seq (deleteExpired key db) (\<lambda>_.
     seq (assertType key db ''list'') (\<lambda>_.
     seq (exec (insert_key_or_nothing (key, db) ''list'')) (\<lambda>_. ret ())))"

definition lAssert :: "string \<Rightarrow> int \<Rightarrow> unit act" where
  "lAssert key db = assertType key db ''list''"

definition lAll :: "string \<Rightarrow> int \<Rightarrow> string list act" where
  "lAll key db = query (\<lambda>T. list_values T (key, db))"

definition lRewrite :: "string \<Rightarrow> int \<Rightarrow> string list \<Rightarrow> unit act" where
  "lRewrite key db values =
     transact (
       seq (exec (delete_list_rows (key, db))) (\<lambda>_.
       seq (each (\<lambda>(i, v) _.
              seq (exec (insert_list_row (key, db) (int i) v)) (\<lambda>_. ret ()))
            (List.enumerate 0 values) ()) (\<lambda>_.
       seq (if length values = 0
            then seq (attempt (exec (delete_key (key, db)))) (\<lambda>_. ret ())
            else ret ()) (\<lambda>_.
       ret (Commit ())))))"

definition LPush :: "string \<Rightarrow> int \<Rightarrow> string list \<Rightarrow> int act" where
  "LPush key db values =
     seq (lEnsure key db) (\<lambda>_.
     seq (lAll key db) (\<lambda>existing.
     let newList = rev values @ existing in
     seq (lRewrite key db newList) (\<lambda>_.
     ret (int (length newList)))))"

definition RPush :: "string \<Rightarrow> int \<Rightarrow> string list \<Rightarrow> int act" where
  "RPush key db values =
     seq (lEnsure key db) (\<lambda>_.
     seq (lAll key db) (\<lambda>existing.
     let newList = existing @ values in
     seq (lRewrite key db newList) (\<lambda>_.
     ret (int (length newList)))))"

definition LPop :: "string \<Rightarrow> int \<Rightarrow> (string \<times> bool) act" where
  "LPop key db =
     seq (deleteExpired key db) (\<lambda>_.
     seq (lAssert key db) (\<lambda>_.
     seq (lAll key db) (\<lambda>items.
     case items of
       [] \<Rightarrow> ret ('''', False)
     | v # rest \<Rightarrow> seq (lRewrite key db rest) (\<lambda>_. ret (v, True)))))"

definition RPop :: "string \<Rightarrow> int \<Rightarrow> (string \<times> bool) act" where
  "RPop key db =
     seq (deleteExpired key db) (\<lambda>_.
     seq (lAssert key db) (\<lambda>_.
     seq (lAll key db) (\<lambda>items.
     if items = [] then ret ('''', False)
     else seq (lRewrite key db (butlast items)) (\<lambda>_. ret (last items, True)))))"

definition LLen :: "string \<Rightarrow> int \<Rightarrow> int act" where
  "LLen key db =
     seq (deleteExpired key db) (\<lambda>_.
     seq (lAssert key db) (\<lambda>_.
     query (\<lambda>T. int (length [r \<leftarrow> listsT T. fst (fst r) = (key, db)]))))"

text \<open>The index arithmetic of \<^verbatim>\<open>LRange\<close>: \<open>n + start\<close> and \<open>n + stop\<close> are only formed for negative
  \<open>start\<close> and \<open>stop\<close>, so they stay within int64.\<close>

definition range_slice :: "string list \<Rightarrow> int \<Rightarrow> int \<Rightarrow> string list" where
  "range_slice all start stop =
     (let n = int (length all);
          start1 = (if start < 0 then n + start else start);
          stop1 = (if stop < 0 then n + stop else stop);
          start2 = (if start1 < 0 then 0 else start1);
          stop2 = (if stop1 \<ge> n then n - 1 else stop1)
      in if start2 > stop2 \<or> start2 \<ge> n then []
         else drop (nat start2) (take (nat (stop2 + 1)) all))"

definition LRange :: "string \<Rightarrow> int \<Rightarrow> int \<Rightarrow> int \<Rightarrow> string list act" where
  "LRange key db start stop =
     seq (deleteExpired key db) (\<lambda>_.
     seq (lAssert key db) (\<lambda>_.
     seq (lAll key db) (\<lambda>all.
     ret (range_slice all start stop))))"

definition LIndex :: "string \<Rightarrow> int \<Rightarrow> int \<Rightarrow> (string \<times> bool) act" where
  "LIndex key db index =
     seq (deleteExpired key db) (\<lambda>_.
     seq (lAssert key db) (\<lambda>_.
     seq (lAll key db) (\<lambda>all.
     let n = int (length all); i = (if index < 0 then n + index else index) in
     if i < 0 \<or> i \<ge> n then ret ('''', False) else ret (all ! nat i, True))))"

definition LSet :: "string \<Rightarrow> int \<Rightarrow> int \<Rightarrow> string \<Rightarrow> unit act" where
  "LSet key db index v =
     seq (deleteExpired key db) (\<lambda>_.
     seq (lAssert key db) (\<lambda>_.
     seq (lAll key db) (\<lambda>all.
     let n = int (length all); i = (if index < 0 then n + index else index) in
     if i < 0 \<or> i \<ge> n then fail (ErrText ''ERR index out of range'')
     else lRewrite key db (all[nat i := v]))))"

text \<open>The loop that looks for the pivot: the first index that holds it, \<open>- 1\<close> if there is none.\<close>

fun pivot_loop :: "string list \<Rightarrow> string \<Rightarrow> int \<Rightarrow> int" where
  "pivot_loop [] pivot i = - 1"
| "pivot_loop (v # vs) pivot i = (if v = pivot then i else pivot_loop vs pivot (i + 1))"

definition LInsert :: "string \<Rightarrow> int \<Rightarrow> bool \<Rightarrow> string \<Rightarrow> string \<Rightarrow> int act" where
  "LInsert key db before pivot v =
     seq (deleteExpired key db) (\<lambda>_.
     seq (lAssert key db) (\<lambda>_.
     seq (lAll key db) (\<lambda>all.
     let pivotPos = pivot_loop all pivot 0 in
     if pivotPos = - 1 then ret (- 1)
     else
       (let insertAt = nat (if before then pivotPos else pivotPos + 1);
            newList = take insertAt all @ [v] @ drop insertAt all in
        seq (lRewrite key db newList) (\<lambda>_. ret (int (length newList)))))))"

text \<open>The removal loop: keeps \<open>v\<close> unless it is the value and the limit is not reached.\<close>

fun rem_loop :: "string list \<Rightarrow> string \<Rightarrow> int \<Rightarrow> int \<Rightarrow> string list \<Rightarrow> string list \<times> int" where
  "rem_loop [] x limit removed res = (res, removed)"
| "rem_loop (v # vs) x limit removed res =
     (if v = x \<and> (limit = 0 \<or> removed < limit)
      then rem_loop vs x limit (removed + 1) res
      else rem_loop vs x limit removed (res @ [v]))"

definition LRem :: "string \<Rightarrow> int \<Rightarrow> int \<Rightarrow> string \<Rightarrow> int act" where
  "LRem key db cnt x =
     seq (deleteExpired key db) (\<lambda>_.
     seq (lAssert key db) (\<lambda>_.
     seq (lAll key db) (\<lambda>all.
     let fromTail = cnt < 0;
         limit = (if fromTail then wrap64 (- cnt) else cnt) in
     (case rem_loop (if fromTail then rev all else all) x limit 0 [] of
        (res, removed) \<Rightarrow>
          seq (lRewrite key db (if fromTail then rev res else res)) (\<lambda>_. ret removed)))))"

lemmas store_list_defs = lEnsure_def lAssert_def lAll_def lRewrite_def LPush_def RPush_def
  LPop_def RPop_def LLen_def LRange_def LIndex_def LSet_def LInsert_def LRem_def

end
