(* ===== verification/Store_Hashes.thy ===== *)
theory Store_Hashes
  imports Store_Core
begin

text \<open>
  The hash operations of the store, \<^verbatim>\<open>src/internal/store/hashes.go\<close>. A Go \<^verbatim>\<open>map[string]string\<close> is an
  association list with distinct keys; ranging over it goes through \<open>range_map\<close>.
\<close>

definition hAssert :: "string \<Rightarrow> int \<Rightarrow> unit act" where
  "hAssert key db = assertType key db ''hash''"

definition hEnsure :: "string \<Rightarrow> int \<Rightarrow> unit act" where
  "hEnsure key db =
     seq (deleteExpired key db) (\<lambda>_.
     seq (hAssert key db) (\<lambda>_.
     seq (exec (insert_key_or_nothing (key, db) ''hash'')) (\<lambda>_. ret ())))"

text \<open>The rows \<^verbatim>\<open>SELECT field, value FROM hashes WHERE key=? AND db=?\<close>\<close>

definition hash_rows :: "tables \<Rightarrow> key_id \<Rightarrow> (string \<times> string) list" where
  "hash_rows T kd = map (\<lambda>((i, f), v). (f, v)) [r \<leftarrow> hashesT T. fst (fst r) = kd]"

definition count_field :: "tables \<Rightarrow> key_id \<Rightarrow> string \<Rightarrow> nat" where
  "count_field T kd f = length [r \<leftarrow> hashesT T. fst r = (kd, f)]"

definition HSet :: "string \<Rightarrow> int \<Rightarrow> (string \<times> string) list \<Rightarrow> int act" where
  "HSet key db pairs =
     seq (hEnsure key db) (\<lambda>_.
     transact (
       seq (range_map pairs) (\<lambda>entries.
       seq (each (\<lambda>(field, val) added.
              seq (scan_or 0 (query (\<lambda>T. count_field T (key, db) field))) (\<lambda>exists.
              let added = (if exists = 0 then added + 1 else added) in
              seq (exec (upsert_field (key, db) field val)) (\<lambda>_. ret added)))
            entries 0) (\<lambda>added.
       ret (Commit added)))))"

definition HGet :: "string \<Rightarrow> int \<Rightarrow> string \<Rightarrow> (string \<times> bool) act" where
  "HGet key db field =
     seq (deleteExpired key db) (\<lambda>_.
     seq (hAssert key db) (\<lambda>_.
     seq (query (\<lambda>T. map_of (hashesT T) ((key, db), field))) (\<lambda>row.
     ret (case row of None \<Rightarrow> ('''', False) | Some v \<Rightarrow> (v, True)))))"

definition HDel :: "string \<Rightarrow> int \<Rightarrow> string list \<Rightarrow> int act" where
  "HDel key db fs =
     seq (deleteExpired key db) (\<lambda>_.
     seq (hAssert key db) (\<lambda>_.
     each (\<lambda>f removed.
       seq (exec (delete_field (key, db) f)) (\<lambda>n. ret (removed + int n))) fs 0))"

definition HExists :: "string \<Rightarrow> int \<Rightarrow> string \<Rightarrow> bool act" where
  "HExists key db field = seq (HGet key db field) (\<lambda>(_, found). ret found)"

definition HGetAll :: "string \<Rightarrow> int \<Rightarrow> (string \<times> string) list act" where
  "HGetAll key db =
     seq (deleteExpired key db) (\<lambda>_.
     seq (hAssert key db) (\<lambda>_.
     seq (query_rows (\<lambda>T. hash_rows T (key, db))) (\<lambda>rows.
     ret (go_map_of rows))))"

definition HKeys :: "string \<Rightarrow> int \<Rightarrow> string list act" where
  "HKeys key db =
     seq (deleteExpired key db) (\<lambda>_.
     seq (hAssert key db) (\<lambda>_.
     query_rows (\<lambda>T. map fst (hash_rows T (key, db)))))"

definition HVals :: "string \<Rightarrow> int \<Rightarrow> string list act" where
  "HVals key db =
     seq (deleteExpired key db) (\<lambda>_.
     seq (hAssert key db) (\<lambda>_.
     query_rows (\<lambda>T. map snd (hash_rows T (key, db)))))"

definition HLen :: "string \<Rightarrow> int \<Rightarrow> int act" where
  "HLen key db =
     seq (deleteExpired key db) (\<lambda>_.
     seq (hAssert key db) (\<lambda>_.
     query (\<lambda>T. int (length (hash_rows T (key, db))))))"

text \<open>A \<^verbatim>\<open>nil\<close> interface value is \<^const>\<open>None\<close>.\<close>

definition HMGet :: "string \<Rightarrow> int \<Rightarrow> string list \<Rightarrow> string option list act" where
  "HMGet key db fs =
     each (\<lambda>f result.
       seq (HGet key db f) (\<lambda>(val, found).
       ret (result @ [if found then Some val else None]))) fs []"

lemmas store_hash_defs = hAssert_def hEnsure_def HSet_def HGet_def HDel_def HExists_def
  HGetAll_def HKeys_def HVals_def HLen_def HMGet_def

end
