(* ===== verification/Store_Sets.thy ===== *)
theory Store_Sets
  imports Store_Core
begin

text \<open>
  The set operations of the store, \<^verbatim>\<open>src/internal/store/sets.go\<close>. A Go \<^verbatim>\<open>map[string]struct{}\<close> is a
  list of distinct keys.
\<close>

definition sEnsure :: "string \<Rightarrow> int \<Rightarrow> unit act" where
  "sEnsure key db =
     seq (deleteExpired key db) (\<lambda>_.
     seq (assertType key db ''set'') (\<lambda>_.
     seq (exec (insert_key_or_nothing (key, db) ''set'')) (\<lambda>_. ret ())))"

definition sAssert :: "string \<Rightarrow> int \<Rightarrow> unit act" where
  "sAssert key db = assertType key db ''set''"

text \<open>The rows \<^verbatim>\<open>SELECT member FROM sets WHERE key=? AND db=?\<close>\<close>

definition set_rows :: "tables \<Rightarrow> key_id \<Rightarrow> string list" where
  "set_rows T kd = map (\<lambda>r. snd (fst r)) [r \<leftarrow> setsT T. fst (fst r) = kd]"

definition SAdd :: "string \<Rightarrow> int \<Rightarrow> string list \<Rightarrow> int act" where
  "SAdd key db members =
     seq (sEnsure key db) (\<lambda>_.
     each (\<lambda>m added.
       seq (exec (insert_member_or_nothing (key, db) m)) (\<lambda>n. ret (added + int n))) members 0)"

definition SRem :: "string \<Rightarrow> int \<Rightarrow> string list \<Rightarrow> int act" where
  "SRem key db members =
     seq (deleteExpired key db) (\<lambda>_.
     seq (sAssert key db) (\<lambda>_.
     each (\<lambda>m removed.
       seq (exec (delete_member (key, db) m)) (\<lambda>n. ret (removed + int n))) members 0))"

definition SMembers :: "string \<Rightarrow> int \<Rightarrow> string list act" where
  "SMembers key db =
     seq (deleteExpired key db) (\<lambda>_.
     seq (sAssert key db) (\<lambda>_.
     query_rows (\<lambda>T. set_rows T (key, db))))"

definition SIsMember :: "string \<Rightarrow> int \<Rightarrow> string \<Rightarrow> bool act" where
  "SIsMember key db member =
     seq (deleteExpired key db) (\<lambda>_.
     seq (sAssert key db) (\<lambda>_.
     seq (query (\<lambda>T. length [r \<leftarrow> setsT T. fst r = ((key, db), member)])) (\<lambda>n.
     ret (n > 0))))"

definition SCard :: "string \<Rightarrow> int \<Rightarrow> int act" where
  "SCard key db =
     seq (deleteExpired key db) (\<lambda>_.
     seq (sAssert key db) (\<lambda>_.
     query (\<lambda>T. int (length (set_rows T (key, db))))))"

definition sMembers :: "string \<Rightarrow> int \<Rightarrow> string list act" where
  "sMembers key db =
     seq (query_rows (\<lambda>T. set_rows T (key, db))) (\<lambda>rows. ret (fold List.insert rows []))"

definition SUnion :: "string list \<Rightarrow> int \<Rightarrow> string list act" where
  "SUnion ks db =
     seq (each (\<lambda>k union.
            seq (deleteExpired k db) (\<lambda>_.
            seq (sAssert k db) (\<lambda>_.
            seq (sMembers k db) (\<lambda>m.
            ret (fold List.insert m union))))) ks []) (\<lambda>union.
     range_map union)"

text \<open>\<^verbatim>\<open>SInter\<close> and \<^verbatim>\<open>SDiff\<close> read the first key without looking at its expiry or type, and the others
  without looking at their type.\<close>

definition SInter :: "string list \<Rightarrow> int \<Rightarrow> string list act" where
  "SInter ks db =
     (case ks of
        [] \<Rightarrow> ret []
      | k0 # rest \<Rightarrow>
          seq (sMembers k0 db) (\<lambda>base.
          seq (each (\<lambda>k base.
                 seq (deleteExpired k db) (\<lambda>_.
                 seq (sMembers k db) (\<lambda>other.
                 ret [m \<leftarrow> base. m \<in> set other]))) rest base) (\<lambda>base.
          range_map base)))"

definition SDiff :: "string list \<Rightarrow> int \<Rightarrow> string list act" where
  "SDiff ks db =
     (case ks of
        [] \<Rightarrow> ret []
      | k0 # rest \<Rightarrow>
          seq (sMembers k0 db) (\<lambda>base.
          seq (each (\<lambda>k base.
                 seq (deleteExpired k db) (\<lambda>_.
                 seq (sMembers k db) (\<lambda>other.
                 ret [m \<leftarrow> base. m \<notin> set other]))) rest base) (\<lambda>base.
          range_map base)))"

lemmas store_set_defs = sEnsure_def sAssert_def SAdd_def SRem_def SMembers_def SIsMember_def
  SCard_def sMembers_def SUnion_def SInter_def SDiff_def

end
