(* ===== verification/Store_Zsets.thy ===== *)
theory Store_Zsets
  imports Store_Core
begin

text \<open>
  The sorted-set operations of the store, \<^verbatim>\<open>src/internal/store/zsets.go\<close>. Scores are \<^typ>\<open>float64\<close>
  values; how the engine binds and compares them is in \<open>bind_score\<close>, \<open>sc_less\<close> and \<open>sc_le\<close>.
\<close>

definition zEnsure :: "string \<Rightarrow> int \<Rightarrow> unit act" where
  "zEnsure key db =
     seq (deleteExpired key db) (\<lambda>_.
     seq (assertType key db ''zset'') (\<lambda>_.
     seq (exec (insert_key_or_nothing (key, db) ''zset'')) (\<lambda>_. ret ())))"

definition zAssert :: "string \<Rightarrow> int \<Rightarrow> unit act" where
  "zAssert key db = assertType key db ''zset''"

record ZAddOptions =
  zNX :: bool
  zXX :: bool

text \<open>The rows \<^verbatim>\<open>SELECT member, score FROM zsets WHERE key=? AND db=?\<close>\<close>

definition zset_rows :: "tables \<Rightarrow> key_id \<Rightarrow> (string \<times> float64) list" where
  "zset_rows T kd = map (\<lambda>((i, m), sc). (m, sc)) [r \<leftarrow> zsetsT T. fst (fst r) = kd]"

definition count_score :: "tables \<Rightarrow> key_id \<Rightarrow> string \<Rightarrow> nat" where
  "count_score T kd m = length [r \<leftarrow> zsetsT T. fst r = (kd, m)]"

definition ZAdd :: "string \<Rightarrow> int \<Rightarrow> (string \<times> float64) list \<Rightarrow> ZAddOptions \<Rightarrow> int act" where
  "ZAdd key db members opts =
     seq (zEnsure key db) (\<lambda>_.
     seq (engine dialect) (\<lambda>d.
     seq (range_map members) (\<lambda>entries.
     each (\<lambda>(member, score) added.
       seq (scan_or 0 (query (\<lambda>T. count_score T (key, db) member))) (\<lambda>exists.
       if zNX opts \<and> exists > 0 then ret added
       else if zXX opts \<and> exists = 0 then ret added
       else if exists = 0 then
         seq (exec (insert_score (key, db) member (bind_score d score))) (\<lambda>_. ret (added + 1))
       else
         seq (exec (update_score (key, db) member (bind_score d score))) (\<lambda>_. ret added)))
     entries 0)))"

definition ZRem :: "string \<Rightarrow> int \<Rightarrow> string list \<Rightarrow> int act" where
  "ZRem key db members =
     seq (deleteExpired key db) (\<lambda>_.
     seq (zAssert key db) (\<lambda>_.
     each (\<lambda>m removed.
       seq (exec (delete_score (key, db) m)) (\<lambda>n. ret (removed + int n))) members 0))"

definition ZScore :: "string \<Rightarrow> int \<Rightarrow> string \<Rightarrow> (float64 \<times> bool) act" where
  "ZScore key db member =
     seq (deleteExpired key db) (\<lambda>_.
     seq (zAssert key db) (\<lambda>_.
     seq (query (\<lambda>T. map_of (zsetsT T) ((key, db), member))) (\<lambda>row.
     ret (case row of None \<Rightarrow> (Finite False 0, False) | Some sc \<Rightarrow> (sc, True)))))"

text \<open>\<^verbatim>\<open>COUNT(*) \<dots> WHERE score < (SELECT score \<dots>)\<close>: a missing member makes the comparison NULL.\<close>

definition rank_count :: "dialect \<Rightarrow> tables \<Rightarrow> key_id \<Rightarrow> string \<Rightarrow> nat" where
  "rank_count d T kd member =
     (case map_of (zsetsT T) (kd, member) of
        None \<Rightarrow> 0
      | Some s \<Rightarrow> length [r \<leftarrow> zset_rows T kd. sc_less d (snd r) s])"

definition ZRank :: "string \<Rightarrow> int \<Rightarrow> string \<Rightarrow> (int \<times> bool) act" where
  "ZRank key db member =
     seq (deleteExpired key db) (\<lambda>_.
     seq (zAssert key db) (\<lambda>_.
     seq (engine dialect) (\<lambda>d.
     seq (attempt (query (\<lambda>T. rank_count d T (key, db) member))) (\<lambda>r.
     case r of
       Inl _ \<Rightarrow> ret (0, False)
     | Inr rank \<Rightarrow>
         seq (scan_or 0 (query (\<lambda>T. count_score T (key, db) member))) (\<lambda>exists.
         if exists = 0 then ret (0, False) else ret (int rank, True))))))"

text \<open>\<^verbatim>\<open>ORDER BY score ASC, member ASC\<close>\<close>

definition row_le :: "environ \<Rightarrow> string \<times> float64 \<Rightarrow> string \<times> float64 \<Rightarrow> bool" where
  "row_le e r r' \<longleftrightarrow> sc_less (dialect e) (snd r) (snd r') \<or>
     \<not> sc_less (dialect e) (snd r') (snd r) \<and> collate e (fst r) (fst r')"

fun insert_by :: "('a \<Rightarrow> 'a \<Rightarrow> bool) \<Rightarrow> 'a \<Rightarrow> 'a list \<Rightarrow> 'a list" where
  "insert_by le x [] = [x]"
| "insert_by le x (y # ys) = (if le x y then x # y # ys else y # insert_by le x ys)"

definition order_by :: "('a \<Rightarrow> 'a \<Rightarrow> bool) \<Rightarrow> 'a list \<Rightarrow> 'a list" where
  "order_by le xs = foldr (insert_by le) xs []"

definition ZRange :: "string \<Rightarrow> int \<Rightarrow> int \<Rightarrow> int \<Rightarrow> string list act" where
  "ZRange key db start stop =
     seq (deleteExpired key db) (\<lambda>_.
     seq (zAssert key db) (\<lambda>_.
     seq (scan_or 0 (query (\<lambda>T. int (length (zset_rows T (key, db)))))) (\<lambda>cnt.
     let start = (if start < 0 then cnt + start else start);
         stop = (if stop < 0 then cnt + stop else stop);
         start = (if start < 0 then 0 else start);
         stop = (if stop \<ge> cnt then cnt - 1 else stop)
     in if start > stop then ret []
        else
          seq (engine row_le) (\<lambda>le.
          query (\<lambda>T. take (nat (stop - start + 1))
            (drop (nat start) (map fst (order_by le (zset_rows T (key, db))))))))))"

definition parseScore :: "(string \<Rightarrow> string) \<Rightarrow> string \<Rightarrow> error + float64 \<times> bool" where
  "parseScore uni s0 =
     (let excl = (s0 \<noteq> [] \<and> hd s0 = CHR ''('');
          s = (if excl then tl s0 else s0);
          l = ToLower uni s
      in if l = ''-inf'' then Inr (Infinity True, excl)
         else if l = ''+inf'' \<or> l = ''inf'' then Inr (Infinity False, excl)
         else case ParseFloat s of
             Inl e \<Rightarrow> Inl (ErrNum ''ParseFloat'' s e)
           | Inr v \<Rightarrow> Inr (v, excl))"

definition in_bounds :: "dialect \<Rightarrow> float64 \<times> bool \<Rightarrow> float64 \<times> bool \<Rightarrow> float64 \<Rightarrow> bool" where
  "in_bounds d lo hi sc \<longleftrightarrow>
     (if snd lo then sc_less d (fst lo) sc else sc_le d (fst lo) sc) \<and>
     (if snd hi then sc_less d sc (fst hi) else sc_le d sc (fst hi))"

definition ZRangeByScore :: "(string \<Rightarrow> string) \<Rightarrow> string \<Rightarrow> int \<Rightarrow> string \<Rightarrow> string \<Rightarrow> string list act" where
  "ZRangeByScore uni key db minStr maxStr =
     seq (deleteExpired key db) (\<lambda>_.
     seq (zAssert key db) (\<lambda>_.
     case parseScore uni minStr of
       Inl e \<Rightarrow> fail e
     | Inr lo \<Rightarrow>
         (case parseScore uni maxStr of
            Inl e \<Rightarrow> fail e
          | Inr hi \<Rightarrow>
              seq (engine dialect) (\<lambda>d.
              seq (engine row_le) (\<lambda>le.
              query (\<lambda>T. map fst (order_by le
                [r \<leftarrow> zset_rows T (key, db). in_bounds d lo hi (snd r)])))))))"

definition ZCard :: "string \<Rightarrow> int \<Rightarrow> int act" where
  "ZCard key db =
     seq (deleteExpired key db) (\<lambda>_.
     seq (zAssert key db) (\<lambda>_.
     query (\<lambda>T. int (length (zset_rows T (key, db))))))"

definition ZCount :: "(string \<Rightarrow> string) \<Rightarrow> string \<Rightarrow> int \<Rightarrow> string \<Rightarrow> string \<Rightarrow> int act" where
  "ZCount uni key db minStr maxStr =
     seq (ZRangeByScore uni key db minStr maxStr) (\<lambda>members. ret (int (length members)))"

definition ZIncrBy :: "string \<Rightarrow> int \<Rightarrow> float64 \<Rightarrow> string \<Rightarrow> float64 act" where
  "ZIncrBy key db delta member =
     seq (zEnsure key db) (\<lambda>_.
     seq (engine dialect) (\<lambda>d.
     seq (query (\<lambda>T. map_of (zsetsT T) ((key, db), member))) (\<lambda>row.
     case row of
       None \<Rightarrow>
         seq (exec (insert_score (key, db) member (bind_score d delta))) (\<lambda>_. ret delta)
     | Some cur \<Rightarrow>
         (let newScore = f_add cur delta in
          seq (exec (update_score (key, db) member (bind_score d newScore))) (\<lambda>_.
          ret newScore)))))"

lemmas store_zset_defs = zEnsure_def zAssert_def ZAdd_def ZRem_def ZScore_def ZRank_def ZRange_def
  ZRangeByScore_def ZCard_def ZCount_def ZIncrBy_def

end
