(* ===== verification/Store_Laws.thy ===== *)
theory Store_Laws
  imports Store_Strings Store_Lists Store_Hashes Store_Sets Store_Zsets
begin

text \<open>
  What every store operation keeps, whatever the environment does: the schema's constraints, and
  the rows of the keys the operation is not about.

  \<^item> \<open>on_key kd st\<close> lists the statements that write rows of the key \<open>kd\<close> only.
  \<^item> Locale \<open>purging_relation\<close>: a relation between tables, indexed by the set of keys that may
    change, that deletions respect; then the reading operations, which write nothing but purge
    expired keys, respect it. Locale \<open>keyed_relation\<close> extends it to the writing statements and
    operations. It is interpreted with the schema's constraints (whose index is irrelevant) and
    with \<open>frame\<close>.
  \<^item> \<open>store_call K w w'\<close>: a call of the store's interface that is about the keys \<open>K\<close> takes the world
    \<open>w\<close> to \<open>w'\<close>.
\<close>

section \<open>Statements on one key\<close>

inductive on_key :: "key_id \<Rightarrow> stmt \<Rightarrow> bool" for kd where
  on_upsert_row: "on_key kd (upsert_key_row kd ty ex)"
| on_upsert_type: "on_key kd (upsert_key_type kd ty)"
| on_key_or_nothing: "on_key kd (insert_key_or_nothing kd ty)"
| on_insert_key: "on_key kd (insert_key kd ty ex)"
| on_expiry: "on_key kd (update_expiry kd ex)"
| on_insert_string: "on_key kd (insert_string kd v)"
| on_upsert_string: "on_key kd (upsert_string kd v)"
| on_update_string: "on_key kd (update_string kd v)"
| on_insert_list_row: "on_key kd (insert_list_row kd i v)"
| on_delete_list_rows: "on_key kd (delete_list_rows kd)"
| on_upsert_field: "on_key kd (upsert_field kd f v)"
| on_delete_field: "on_key kd (delete_field kd f)"
| on_insert_member: "on_key kd (insert_member_or_nothing kd m)"
| on_delete_member: "on_key kd (delete_member kd m)"
| on_insert_score: "on_key kd (insert_score kd m sc)"
| on_update_score: "on_key kd (update_score kd m sc)"
| on_delete_score: "on_key kd (delete_score kd m)"
| on_copy_strings: "on_key kd (copy_strings src kd)"
| on_copy_lists: "on_key kd (copy_lists src kd)"
| on_copy_hashes: "on_key kd (copy_hashes src kd)"
| on_copy_sets: "on_key kd (copy_sets src kd)"
| on_copy_zsets: "on_key kd (copy_zsets src kd)"

lemmas on_keyI [simp, intro] = on_key.intros

section \<open>The copy statements of Rename\<close>

lemma set_rekey: "r \<in> set (rekey src dst t) \<Longrightarrow> fst (fst r) = dst"
  by (auto simp: rekey_def)

lemma ids_rekey: "(fst \<circ> fst) ` set (rekey src dst t) \<subseteq> {dst}"
  by (auto simp: rekey_def)

lemma distinct_rekey: "distinct (map fst t) \<Longrightarrow> distinct (map fst (rekey src dst t))"
proof -
  assume "distinct (map fst t)"
  then have "distinct (map fst [r \<leftarrow> t. fst (fst r) = src])" by (rule distinct_map_filter)
  then have "distinct (map (\<lambda>r. snd (fst r)) [r \<leftarrow> t. fst (fst r) = src])"
    by (auto simp: distinct_map inj_on_def prod_eq_iff)
  then show ?thesis
    by (auto simp: rekey_def distinct_map inj_on_def split: prod.splits)
qed

lemma copy_into_Inr:
  assumes "copy_into T kd new t = Inr t'"
  shows "t' = t @ new" "new = [] \<or> has_key T kd" "\<forall>r \<in> set new. fst r \<notin> fst ` set t"
  using assms by (auto simp: copy_into_def split: if_splits)

lemma disjoint_image: "\<forall>r \<in> A. f r \<notin> B \<Longrightarrow> B \<inter> f ` A = {}"
  by auto

lemma copy_into_schema:
  assumes run: "copy_into T dst new t = Inr t'" and d: "distinct (map fst t)" "distinct (map fst new)"
    and g: "g ` set new \<subseteq> {dst}" and fk: "g ` set t \<subseteq> fst ` set (keysT T)"
  shows "distinct (map fst t') \<and> g ` set t' \<subseteq> fst ` set (keysT T)"
proof
  have "fst ` set t \<inter> fst ` set new = {}" 
    by (rule disjoint_image) (rule copy_into_Inr(3) [OF run])
  then show "distinct (map fst t')"
    using copy_into_Inr(1) [OF run] d by simp
  have "g ` set new \<subseteq> fst ` set (keysT T)"
    using copy_into_Inr(2) [OF run]
  proof
    assume "has_key T dst"
    then have "{dst} \<subseteq> fst ` set (keysT T)" by (simp add: has_key_def)
    with g show ?thesis by (rule order_trans)
  qed simp
  then show "g ` set t' \<subseteq> fst ` set (keysT T)"
    using copy_into_Inr(1) [OF run] fk by (simp add: image_Un)
qed

lemma distinct_restring:
  "distinct (map fst t) \<Longrightarrow>
     distinct (map fst (map (\<lambda>(kd, v). (dst, v)) [r \<leftarrow> t. fst r = src]))"
proof (induction t)
  case (Cons r t)
  have "[r \<leftarrow> t. fst r = src] = []" if "fst r = src"
    using Cons.prems that by (auto simp: filter_empty_conv image_iff)
  with Cons show ?case by (auto split: prod.splits)
qed simp

lemma copy_string_schema:
  assumes "copy_into T dst (map (\<lambda>(kd, v). (dst, v)) [r \<leftarrow> t. fst r = src]) t = Inr t'"
    "distinct (map fst t)" "fst ` set t \<subseteq> fst ` set (keysT T)"
  shows "distinct (map fst t') \<and> fst ` set t' \<subseteq> fst ` set (keysT T)"
  by (rule copy_into_schema [OF assms(1,2) distinct_restring]) (use assms in auto)

lemma copy_rekey_schema:
  assumes "copy_into T dst (rekey src dst t) t = Inr t'"
    "distinct (map fst t)" "(fst \<circ> fst) ` set t \<subseteq> fst ` set (keysT T)"
  shows "distinct (map fst t') \<and> (fst \<circ> fst) ` set t' \<subseteq> fst ` set (keysT T)"
  by (rule copy_into_schema [OF assms(1,2) distinct_rekey [OF assms(2)] ids_rekey assms(3)])

lemma copy_step:
  assumes "\<And>T. st T = (case c T of Inl e \<Rightarrow> Inl e | Inr t \<Rightarrow> Inr (n T t, put T t))"
    and "\<And>T t. c T = Inr t \<Longrightarrow> R T (put T t)"
  shows "stmt_keeps R st"
  unfolding stmt_keeps_def assms(1) using assms(2) by (auto split: sum.splits)

lemma schema_put:
  assumes "schema_ok T"
  shows "distinct (map fst (stringsT T)) \<and> fst ` set (stringsT T) \<subseteq> fst ` set (keysT T)"
    and "distinct (map fst s) \<and> fst ` set s \<subseteq> fst ` set (keysT T) \<Longrightarrow> schema_ok (T\<lparr>stringsT := s\<rparr>)"
    and "distinct (map fst (listsT T)) \<and> (fst \<circ> fst) ` set (listsT T) \<subseteq> fst ` set (keysT T)"
    and "distinct (map fst l) \<and> (fst \<circ> fst) ` set l \<subseteq> fst ` set (keysT T) \<Longrightarrow> schema_ok (T\<lparr>listsT := l\<rparr>)"
    and "distinct (map fst (hashesT T)) \<and> (fst \<circ> fst) ` set (hashesT T) \<subseteq> fst ` set (keysT T)"
    and "distinct (map fst h) \<and> (fst \<circ> fst) ` set h \<subseteq> fst ` set (keysT T) \<Longrightarrow> schema_ok (T\<lparr>hashesT := h\<rparr>)"
    and "distinct (map fst (setsT T)) \<and> (fst \<circ> fst) ` set (setsT T) \<subseteq> fst ` set (keysT T)"
    and "distinct (map fst m) \<and> (fst \<circ> fst) ` set m \<subseteq> fst ` set (keysT T) \<Longrightarrow> schema_ok (T\<lparr>setsT := m\<rparr>)"
    and "distinct (map fst (zsetsT T)) \<and> (fst \<circ> fst) ` set (zsetsT T) \<subseteq> fst ` set (keysT T)"
    and "distinct (map fst z) \<and> (fst \<circ> fst) ` set z \<subseteq> fst ` set (keysT T) \<Longrightarrow> schema_ok (T\<lparr>zsetsT := z\<rparr>)"
  using assms by (simp_all add: schema_ok_def pk_ok_def fk_ok_def Let_def)

lemma schema_copy_step:
  "copy_into T dst (map (\<lambda>(kd, v). (dst, v)) [r \<leftarrow> stringsT T. fst r = src]) (stringsT T) = Inr s \<Longrightarrow>
     schema_step T (T\<lparr>stringsT := s\<rparr>)"
  "copy_into T dst (rekey src dst (listsT T)) (listsT T) = Inr l \<Longrightarrow> schema_step T (T\<lparr>listsT := l\<rparr>)"
  "copy_into T dst (rekey src dst (hashesT T)) (hashesT T) = Inr h \<Longrightarrow> schema_step T (T\<lparr>hashesT := h\<rparr>)"
  "copy_into T dst (rekey src dst (setsT T)) (setsT T) = Inr m \<Longrightarrow> schema_step T (T\<lparr>setsT := m\<rparr>)"
  "copy_into T dst (rekey src dst (zsetsT T)) (zsetsT T) = Inr z \<Longrightarrow> schema_step T (T\<lparr>zsetsT := z\<rparr>)"
  unfolding schema_step_def
  by (intro impI; rule schema_put, assumption; rule copy_string_schema copy_rekey_schema,
      assumption; simp only: schema_put)+

lemma schema_copy:
  "stmt_keeps schema_step (copy_strings src dst)"
  "stmt_keeps schema_step (copy_lists src dst)"
  "stmt_keeps schema_step (copy_hashes src dst)"
  "stmt_keeps schema_step (copy_sets src dst)"
  "stmt_keeps schema_step (copy_zsets src dst)"
  by (rule copy_step, rule copy_strings_def copy_lists_def copy_hashes_def copy_sets_def
      copy_zsets_def, erule schema_copy_step)+

lemma copy_string_filter:
  assumes "copy_into T dst (map (\<lambda>(kd, v). (dst, v)) [r \<leftarrow> t. fst r = src]) t = Inr t'" "kd \<noteq> dst"
  shows "[r \<leftarrow> t'. fst r = kd] = [r \<leftarrow> t. fst r = kd]"
  using copy_into_Inr(1) [OF assms(1)] assms(2) by (auto simp: filter_empty_conv)

lemma copy_rekey_filter:
  assumes "copy_into T dst (rekey src dst t) t = Inr t'" "kd \<noteq> dst"
  shows "[r \<leftarrow> t'. fst (fst r) = kd] = [r \<leftarrow> t. fst (fst r) = kd]"
  using copy_into_Inr(1) [OF assms(1)] assms(2) by (auto simp: filter_empty_conv dest: set_rekey)

lemma frame_copy:
  "stmt_keeps (frame {dst}) (copy_strings src dst)"
  "stmt_keeps (frame {dst}) (copy_lists src dst)"
  "stmt_keeps (frame {dst}) (copy_hashes src dst)"
  "stmt_keeps (frame {dst}) (copy_sets src dst)"
  "stmt_keeps (frame {dst}) (copy_zsets src dst)"
  unfolding stmt_keeps_def frame_def copy_strings_def copy_lists_def copy_hashes_def copy_sets_def
    copy_zsets_def slice_def
  by (auto split: sum.splits intro: copy_string_filter copy_rekey_filter)

section \<open>Relations that every operation respects\<close>

locale purging_relation =
  fixes R :: "key_id set \<Rightarrow> tables \<Rightarrow> tables \<Rightarrow> bool"
  assumes refl: "R K T T"
    and trans: "R K T T' \<Longrightarrow> R K T' T'' \<Longrightarrow> R K T T''"
    and deletes: "(\<And>kd ty ex. P kd ty ex \<Longrightarrow> kd \<in> K) \<Longrightarrow> stmt_keeps (R K) (delete_keys P)"

sublocale purging_relation \<subseteq> table_relation "R K" for K
  by unfold_locales (rule refl, erule (1) trans)

context purging_relation
begin

lemma keeps_deletes [intro]:
  "(\<And>kd ty ex. P kd ty ex \<Longrightarrow> kd \<in> K) \<Longrightarrow> keeps (R K) (exec (delete_keys P))"
  by (intro keeps_exec deletes)

lemma keeps_delete_key [intro]: "kd \<in> K \<Longrightarrow> keeps (R K) (exec (delete_key kd))"
  unfolding delete_key_def by (intro keeps_exec deletes) simp

lemma keeps_nowMs [simp, intro]: "keeps (R K) nowMs"
  unfolding nowMs_def by (intro keeps_rules)

lemma keeps_scan_or [intro]: "keeps (R K) m \<Longrightarrow> keeps (R K) (scan_or z m)"
  unfolding scan_or_def by (intro keeps_rules)

lemma keeps_deleteExpired [intro]: "(key, db) \<in> K \<Longrightarrow> keeps (R K) (deleteExpired key db)"
  unfolding deleteExpired_def by (intro keeps_rules keeps_nowMs keeps_exec deletes) auto

lemma keeps_assertType [simp, intro]: "keeps (R K) (assertType key db want)"
  unfolding assertType_def keyType_def by (intro keeps_rules keeps_nowMs)

lemmas op_rules = keeps_deletes keeps_delete_key keeps_nowMs keeps_scan_or keeps_deleteExpired
  keeps_assertType keeps_rules

lemma keeps_Get [simp, intro]: "keeps (R ({(key, db)})) (Get key db)"
  unfolding Get_def by (intro op_rules; auto)

lemma keeps_Del [simp, intro]: "keeps (R ((\<lambda>k. (k, db)) ` set ks)) (Del ks db)"
  unfolding Del_def by (intro op_rules; auto)

lemma keeps_Exists [simp, intro]: "keeps (R ((\<lambda>k. (k, db)) ` set ks)) (Exists ks db)"
  unfolding Exists_def by (intro op_rules; auto)

lemma keeps_TTL [simp, intro]: "keeps (R ({(key, db)})) (TTL key db)"
  unfolding TTL_def ttl_def Let_def by (intro op_rules; auto)

lemma keeps_PTTL [simp, intro]: "keeps (R ({(key, db)})) (PTTL key db)"
  unfolding PTTL_def ttl_def Let_def by (intro op_rules; auto)

lemma keeps_Type [simp, intro]: "keeps (R ({(key, db)})) (Type key db)"
  unfolding Type_def keyType_def by (intro op_rules; auto)

lemma keeps_SweepExpired [simp, intro]: "keeps (R (UNIV)) (SweepExpired)"
  unfolding SweepExpired_def by (intro op_rules; auto)

lemma keeps_DBSize [simp, intro]: "keeps (R ({})) (DBSize db)"
  unfolding DBSize_def by (intro op_rules; auto)

lemma keeps_FlushDB [simp, intro]: "keeps (R ({kd. snd kd = db})) (FlushDB db)"
  unfolding FlushDB_def by (intro op_rules; auto)

lemma keeps_FlushAll [simp, intro]: "keeps (R (UNIV)) (FlushAll)"
  unfolding FlushAll_def by (intro op_rules; auto)

lemma keeps_RandomKey [simp, intro]: "keeps (R ({})) (RandomKey db)"
  unfolding RandomKey_def by (intro op_rules; auto)

lemma keeps_Keys [simp, intro]: "keeps (R ({})) (Keys pat db)"
  unfolding Keys_def by (intro op_rules; auto)

lemma keeps_StrLen [simp, intro]: "keeps (R ({(key, db)})) (StrLen key db)"
  unfolding StrLen_def by (intro op_rules; auto)

lemma keeps_LLen [simp, intro]: "keeps (R ({(key, db)})) (LLen key db)"
  unfolding LLen_def lAssert_def lAll_def Let_def by (intro op_rules; auto)

lemma keeps_LRange [simp, intro]: "keeps (R ({(key, db)})) (LRange key db start stop)"
  unfolding LRange_def lAssert_def lAll_def Let_def by (intro op_rules; auto)

lemma keeps_LIndex [simp, intro]: "keeps (R ({(key, db)})) (LIndex key db i)"
  unfolding LIndex_def lAssert_def lAll_def Let_def by (intro op_rules; auto)

lemma keeps_HGet [simp, intro]: "keeps (R ({(key, db)})) (HGet key db f)"
  unfolding HGet_def hAssert_def Let_def by (intro op_rules; auto)

lemma keeps_HExists [simp, intro]: "keeps (R ({(key, db)})) (HExists key db f)"
  unfolding HExists_def hAssert_def Let_def by (intro op_rules; auto)

lemma keeps_HGetAll [simp, intro]: "keeps (R ({(key, db)})) (HGetAll key db)"
  unfolding HGetAll_def hAssert_def Let_def by (intro op_rules; auto)

lemma keeps_HKeys [simp, intro]: "keeps (R ({(key, db)})) (HKeys key db)"
  unfolding HKeys_def hAssert_def Let_def by (intro op_rules; auto)

lemma keeps_HVals [simp, intro]: "keeps (R ({(key, db)})) (HVals key db)"
  unfolding HVals_def hAssert_def Let_def by (intro op_rules; auto)

lemma keeps_HLen [simp, intro]: "keeps (R ({(key, db)})) (HLen key db)"
  unfolding HLen_def hAssert_def Let_def by (intro op_rules; auto)

lemma keeps_HMGet [simp, intro]: "keeps (R ({(key, db)})) (HMGet key db fs)"
  unfolding HMGet_def hAssert_def Let_def by (intro op_rules; auto)

lemma keeps_SMembers [simp, intro]: "keeps (R ({(key, db)})) (SMembers key db)"
  unfolding SMembers_def sAssert_def by (intro op_rules; auto)

lemma keeps_SIsMember [simp, intro]: "keeps (R ({(key, db)})) (SIsMember key db m)"
  unfolding SIsMember_def sAssert_def by (intro op_rules; auto)

lemma keeps_SCard [simp, intro]: "keeps (R ({(key, db)})) (SCard key db)"
  unfolding SCard_def sAssert_def by (intro op_rules; auto)

lemma keeps_SUnion [simp, intro]: "keeps (R ((\<lambda>k. (k, db)) ` set ks)) (SUnion ks db)"
  unfolding SUnion_def sAssert_def sMembers_def by (intro op_rules; auto)

lemma keeps_SInter [simp, intro]: "keeps (R ((\<lambda>k. (k, db)) ` set ks)) (SInter ks db)"
  unfolding SInter_def sAssert_def sMembers_def by (intro op_rules; auto)

lemma keeps_SDiff [simp, intro]: "keeps (R ((\<lambda>k. (k, db)) ` set ks)) (SDiff ks db)"
  unfolding SDiff_def sAssert_def sMembers_def by (intro op_rules; auto)

lemma keeps_ZScore [simp, intro]: "keeps (R ({(key, db)})) (ZScore key db m)"
  unfolding ZScore_def zAssert_def Let_def by (intro op_rules; auto)

lemma keeps_ZRank [simp, intro]: "keeps (R ({(key, db)})) (ZRank key db m)"
  unfolding ZRank_def zAssert_def Let_def by (intro op_rules; auto)

lemma keeps_ZRange [simp, intro]: "keeps (R ({(key, db)})) (ZRange key db start stop)"
  unfolding ZRange_def zAssert_def Let_def by (intro op_rules; auto)

lemma keeps_ZRangeByScore [simp, intro]: "keeps (R ({(key, db)})) (ZRangeByScore uni key db lo hi)"
  unfolding ZRangeByScore_def zAssert_def Let_def by (intro op_rules; auto)

lemma keeps_ZCard [simp, intro]: "keeps (R ({(key, db)})) (ZCard key db)"
  unfolding ZCard_def zAssert_def Let_def by (intro op_rules; auto)

lemma keeps_ZCount [simp, intro]: "keeps (R ({(key, db)})) (ZCount uni key db lo hi)"
  unfolding ZCount_def zAssert_def Let_def by (intro op_rules; auto)

lemmas read_keeps = keeps_Get keeps_Del keeps_Exists keeps_TTL keeps_PTTL keeps_Type
  keeps_SweepExpired keeps_DBSize keeps_FlushDB keeps_FlushAll keeps_RandomKey keeps_Keys
  keeps_StrLen keeps_LLen keeps_LRange keeps_LIndex keeps_HGet keeps_HExists keeps_HGetAll
  keeps_HKeys keeps_HVals keeps_HLen keeps_HMGet keeps_SMembers keeps_SIsMember keeps_SCard
  keeps_SUnion keeps_SInter keeps_SDiff keeps_ZScore keeps_ZRank keeps_ZRange
  keeps_ZRangeByScore keeps_ZCard keeps_ZCount

end

locale keyed_relation = purging_relation +
  assumes writes: "on_key kd st \<Longrightarrow> kd \<in> K \<Longrightarrow> stmt_keeps (R K) st"
begin

lemma keeps_write [intro]: "on_key kd st \<Longrightarrow> kd \<in> K \<Longrightarrow> keeps (R K) (exec st)"
  by (intro keeps_exec writes)

lemmas write_rules = on_keyI [THEN keeps_write] op_rules

lemma keeps_lEnsure [intro]: "(key, db) \<in> K \<Longrightarrow> keeps (R K) (lEnsure key db)"
  unfolding lEnsure_def by (intro write_rules; auto)

lemma keeps_lRewrite [intro]: "(key, db) \<in> K \<Longrightarrow> keeps (R K) (lRewrite key db vs)"
  unfolding lRewrite_def by (intro write_rules; auto)

lemma keeps_hEnsure [intro]: "(key, db) \<in> K \<Longrightarrow> keeps (R K) (hEnsure key db)"
  unfolding hEnsure_def hAssert_def by (intro write_rules; auto)

lemma keeps_sEnsure [intro]: "(key, db) \<in> K \<Longrightarrow> keeps (R K) (sEnsure key db)"
  unfolding sEnsure_def by (intro write_rules; auto)

lemma keeps_zEnsure [intro]: "(key, db) \<in> K \<Longrightarrow> keeps (R K) (zEnsure key db)"
  unfolding zEnsure_def by (intro write_rules; auto)

lemmas ensure_rules = keeps_lEnsure keeps_lRewrite keeps_hEnsure keeps_sEnsure keeps_zEnsure
  write_rules

lemma keeps_Set [simp, intro]: "keeps (R ({(key, db)})) (Set key db v opts)"
  unfolding Set_def upsertKey_def by (intro write_rules; auto)

lemma keeps_ExpireAt [simp, intro]: "keeps (R ({(key, db)})) (ExpireAt key db ms)"
  unfolding ExpireAt_def by (intro write_rules; auto)

lemma keeps_Expire [simp, intro]: "keeps (R ({(key, db)})) (Expire key db n)"
  unfolding Expire_def ExpireAt_def by (intro write_rules; auto)

lemma keeps_PExpire [simp, intro]: "keeps (R ({(key, db)})) (PExpire key db n)"
  unfolding PExpire_def ExpireAt_def by (intro write_rules; auto)

lemma keeps_Persist [simp, intro]: "keeps (R ({(key, db)})) (Persist key db)"
  unfolding Persist_def by (intro write_rules; auto)

lemma keeps_Rename [simp, intro]: "keeps (R ({(src, db), (dst, db)})) (Rename src dst db)"
  unfolding Rename_def rename_body_def copy_data_def by (intro write_rules; auto)

lemma keeps_IncrBy [simp, intro]: "keeps (R ({(key, db)})) (IncrBy key db delta)"
  unfolding IncrBy_def Let_def by (intro write_rules; auto)

lemma keeps_Append [simp, intro]: "keeps (R ({(key, db)})) (Append key db suffix)"
  unfolding Append_def Let_def by (intro write_rules; auto)

lemma keeps_LPush [simp, intro]: "keeps (R ({(key, db)})) (LPush key db vs)"
  unfolding LPush_def lAssert_def lAll_def Let_def by (intro ensure_rules; auto)

lemma keeps_RPush [simp, intro]: "keeps (R ({(key, db)})) (RPush key db vs)"
  unfolding RPush_def lAssert_def lAll_def Let_def by (intro ensure_rules; auto)

lemma keeps_LPop [simp, intro]: "keeps (R ({(key, db)})) (LPop key db)"
  unfolding LPop_def lAssert_def lAll_def Let_def by (intro ensure_rules; auto)

lemma keeps_RPop [simp, intro]: "keeps (R ({(key, db)})) (RPop key db)"
  unfolding RPop_def lAssert_def lAll_def Let_def by (intro ensure_rules; auto)

lemma keeps_LSet [simp, intro]: "keeps (R ({(key, db)})) (LSet key db i v)"
  unfolding LSet_def lAssert_def lAll_def Let_def by (intro ensure_rules; auto)

lemma keeps_LInsert [simp, intro]: "keeps (R ({(key, db)})) (LInsert key db before pivot v)"
  unfolding LInsert_def lAssert_def lAll_def Let_def by (intro ensure_rules; auto)

lemma keeps_LRem [simp, intro]: "keeps (R ({(key, db)})) (LRem key db cnt v)"
  unfolding LRem_def lAssert_def lAll_def Let_def by (intro ensure_rules; auto)

lemma keeps_HSet [simp, intro]: "keeps (R ({(key, db)})) (HSet key db ps)"
  unfolding HSet_def hAssert_def Let_def by (intro ensure_rules; auto)

lemma keeps_HDel [simp, intro]: "keeps (R ({(key, db)})) (HDel key db fs)"
  unfolding HDel_def hAssert_def Let_def by (intro ensure_rules; auto)

lemma keeps_SAdd [simp, intro]: "keeps (R ({(key, db)})) (SAdd key db ms)"
  unfolding SAdd_def sAssert_def by (intro ensure_rules; auto)

lemma keeps_SRem [simp, intro]: "keeps (R ({(key, db)})) (SRem key db ms)"
  unfolding SRem_def sAssert_def by (intro ensure_rules; auto)

lemma keeps_ZAdd [simp, intro]: "keeps (R ({(key, db)})) (ZAdd key db ps opts)"
  unfolding ZAdd_def zAssert_def Let_def by (intro ensure_rules; auto)

lemma keeps_ZRem [simp, intro]: "keeps (R ({(key, db)})) (ZRem key db ms)"
  unfolding ZRem_def zAssert_def Let_def by (intro ensure_rules; auto)

lemma keeps_ZIncrBy [simp, intro]: "keeps (R ({(key, db)})) (ZIncrBy key db delta m)"
  unfolding ZIncrBy_def zAssert_def Let_def by (intro ensure_rules; auto)

lemmas store_keeps = read_keeps keeps_Set keeps_ExpireAt keeps_Expire keeps_PExpire keeps_Persist
  keeps_Rename keeps_IncrBy keeps_Append keeps_LPush keeps_RPush keeps_LPop keeps_RPop
  keeps_LSet keeps_LInsert keeps_LRem keeps_HSet keeps_HDel keeps_SAdd keeps_SRem keeps_ZAdd
  keeps_ZRem keeps_ZIncrBy

end

interpretation constraints: keyed_relation "\<lambda>K. schema_step"
proof
  fix kd st assume "on_key kd st" then show "stmt_keeps schema_step st"
    by cases (simp_all add: schema_stmts schema_copy)
qed (simp_all add: schema_delete_keys schema_step_def)

interpretation others: keyed_relation frame
proof
  fix kd st K assume "on_key kd st" and K: "kd \<in> K"
  then have "stmt_keeps (frame {kd}) st"
    by cases (simp_all add: frame_one_key frame_copy)
  then show "stmt_keeps (frame K) st" by (rule frame_stmt_mono) (simp add: K)
qed (auto intro: frame_delete_keys frame.R_trans simp: frame.R_refl)

section \<open>Calls of the store\<close>

inductive store_call :: "key_id set \<Rightarrow> world \<Rightarrow> world \<Rightarrow> bool" where
  call_Get: "store_call {(key, db)} w (snd (Get key db w))"
| call_Set: "store_call {(key, db)} w (snd (Set key db v opts w))"
| call_Del: "store_call ((\<lambda>k. (k, db)) ` set ks) w (snd (Del ks db w))"
| call_Exists: "store_call ((\<lambda>k. (k, db)) ` set ks) w (snd (Exists ks db w))"
| call_ExpireAt: "store_call {(key, db)} w (snd (ExpireAt key db ms w))"
| call_Expire: "store_call {(key, db)} w (snd (Expire key db n w))"
| call_PExpire: "store_call {(key, db)} w (snd (PExpire key db n w))"
| call_TTL: "store_call {(key, db)} w (snd (TTL key db w))"
| call_PTTL: "store_call {(key, db)} w (snd (PTTL key db w))"
| call_Persist: "store_call {(key, db)} w (snd (Persist key db w))"
| call_Type: "store_call {(key, db)} w (snd (Type key db w))"
| call_SweepExpired: "store_call UNIV w (snd (SweepExpired w))"
| call_DBSize: "store_call {} w (snd (DBSize db w))"
| call_FlushDB: "store_call {kd. snd kd = db} w (snd (FlushDB db w))"
| call_FlushAll: "store_call UNIV w (snd (FlushAll w))"
| call_Rename: "store_call {(src, db), (dst, db)} w (snd (Rename src dst db w))"
| call_RandomKey: "store_call {} w (snd (RandomKey db w))"
| call_Keys: "store_call {} w (snd (Keys pat db w))"
| call_IncrBy: "store_call {(key, db)} w (snd (IncrBy key db delta w))"
| call_Append: "store_call {(key, db)} w (snd (Append key db suffix w))"
| call_StrLen: "store_call {(key, db)} w (snd (StrLen key db w))"
| call_LPush: "store_call {(key, db)} w (snd (LPush key db vs w))"
| call_RPush: "store_call {(key, db)} w (snd (RPush key db vs w))"
| call_LPop: "store_call {(key, db)} w (snd (LPop key db w))"
| call_RPop: "store_call {(key, db)} w (snd (RPop key db w))"
| call_LLen: "store_call {(key, db)} w (snd (LLen key db w))"
| call_LRange: "store_call {(key, db)} w (snd (LRange key db start stop w))"
| call_LIndex: "store_call {(key, db)} w (snd (LIndex key db i w))"
| call_LSet: "store_call {(key, db)} w (snd (LSet key db i v w))"
| call_LInsert: "store_call {(key, db)} w (snd (LInsert key db before pivot v w))"
| call_LRem: "store_call {(key, db)} w (snd (LRem key db cnt v w))"
| call_HSet: "store_call {(key, db)} w (snd (HSet key db ps w))"
| call_HGet: "store_call {(key, db)} w (snd (HGet key db f w))"
| call_HDel: "store_call {(key, db)} w (snd (HDel key db fs w))"
| call_HExists: "store_call {(key, db)} w (snd (HExists key db f w))"
| call_HGetAll: "store_call {(key, db)} w (snd (HGetAll key db w))"
| call_HKeys: "store_call {(key, db)} w (snd (HKeys key db w))"
| call_HVals: "store_call {(key, db)} w (snd (HVals key db w))"
| call_HLen: "store_call {(key, db)} w (snd (HLen key db w))"
| call_HMGet: "store_call {(key, db)} w (snd (HMGet key db fs w))"
| call_SAdd: "store_call {(key, db)} w (snd (SAdd key db ms w))"
| call_SRem: "store_call {(key, db)} w (snd (SRem key db ms w))"
| call_SMembers: "store_call {(key, db)} w (snd (SMembers key db w))"
| call_SIsMember: "store_call {(key, db)} w (snd (SIsMember key db m w))"
| call_SCard: "store_call {(key, db)} w (snd (SCard key db w))"
| call_SUnion: "store_call ((\<lambda>k. (k, db)) ` set ks) w (snd (SUnion ks db w))"
| call_SInter: "store_call ((\<lambda>k. (k, db)) ` set ks) w (snd (SInter ks db w))"
| call_SDiff: "store_call ((\<lambda>k. (k, db)) ` set ks) w (snd (SDiff ks db w))"
| call_ZAdd: "store_call {(key, db)} w (snd (ZAdd key db ps opts w))"
| call_ZRem: "store_call {(key, db)} w (snd (ZRem key db ms w))"
| call_ZScore: "store_call {(key, db)} w (snd (ZScore key db m w))"
| call_ZRank: "store_call {(key, db)} w (snd (ZRank key db m w))"
| call_ZRange: "store_call {(key, db)} w (snd (ZRange key db start stop w))"
| call_ZRangeByScore: "store_call {(key, db)} w (snd (ZRangeByScore uni key db lo hi w))"
| call_ZCard: "store_call {(key, db)} w (snd (ZCard key db w))"
| call_ZCount: "store_call {(key, db)} w (snd (ZCount uni key db lo hi w))"
| call_ZIncrBy: "store_call {(key, db)} w (snd (ZIncrBy key db delta m w))"

lemma call_schema: "store_call K w w' \<Longrightarrow> schema_step (tabs w) (tabs w')"
  by (induction rule: store_call.induct)
    (rule constraints.store_keeps [unfolded keeps_def, rule_format])+

lemma call_frame: "store_call K w w' \<Longrightarrow> frame K (tabs w) (tabs w')"
  by (induction rule: store_call.induct)
    (rule others.store_keeps [unfolded keeps_def, rule_format])+

end
