(* ===== verification/Store_Types.thy ===== *)
theory Store_Types
  imports Store_Laws
begin

text \<open>
  The type discipline of the store: the data of a key lies in the table its type names.

  \<^item> \<open>rows_ok T kd\<close>: the key has one of the five types, has a string row iff it is a string, and has
    no rows in the tables of other types; \<open>store_ok\<close> adds the schema's constraints.
  \<^item> \<open>typed_step want kd\<close> relates tables in which \<open>kd\<close> is absent or of type \<open>want\<close>; it is a
    \<open>table_relation\<close>, and holds of what the operations do after \<open>assertType\<close> let them through.
  \<^item> \<open>steady t w\<close>: the clock stays within the millisecond \<open>t\<close> during a call; statements may fail.
    In a steady world every call keeps \<open>store_ok\<close>.
\<close>

section \<open>The invariant\<close>

definition rows_ok :: "tables \<Rightarrow> key_id \<Rightarrow> bool" where
  "rows_ok T kd \<longleftrightarrow>
     (case map_of (keysT T) kd of
        None \<Rightarrow> True
      | Some (ty, ex) \<Rightarrow>
          ty \<in> {''string'', ''list'', ''hash'', ''set'', ''zset''} \<and>
          (ty = ''string'' \<longleftrightarrow> [r \<leftarrow> stringsT T. fst r = kd] \<noteq> []) \<and>
          (ty \<noteq> ''list'' \<longrightarrow> [r \<leftarrow> listsT T. fst (fst r) = kd] = []) \<and>
          (ty \<noteq> ''hash'' \<longrightarrow> [r \<leftarrow> hashesT T. fst (fst r) = kd] = []) \<and>
          (ty \<noteq> ''set'' \<longrightarrow> [r \<leftarrow> setsT T. fst (fst r) = kd] = []) \<and>
          (ty \<noteq> ''zset'' \<longrightarrow> [r \<leftarrow> zsetsT T. fst (fst r) = kd] = []))"

definition store_ok :: "tables \<Rightarrow> bool" where
  "store_ok T \<longleftrightarrow> schema_ok T \<and> (\<forall>kd. rows_ok T kd)"

lemma store_okD:
  "store_ok T \<Longrightarrow> schema_ok T" "store_ok T \<Longrightarrow> rows_ok T kd"
  by (simp_all only: store_ok_def)

definition of_type :: "string \<Rightarrow> key_id \<Rightarrow> tables \<Rightarrow> bool" where
  "of_type want kd T \<longleftrightarrow> (case map_of (keysT T) kd of None \<Rightarrow> True | Some (ty, ex) \<Rightarrow> ty = want)"

lemma map_of_filter_key: "map_of [r \<leftarrow> t. fst r = kd] kd = map_of t kd"
  by (induction t) auto

lemma map_of_slice: "map_of (keysT (slice kd T)) kd = map_of (keysT T) kd"
  by (simp add: slice_def map_of_filter_key)

lemma rows_ok_slice: "slice kd T' = slice kd T \<Longrightarrow> rows_ok T' kd = rows_ok T kd"
proof -
  assume e: "slice kd T' = slice kd T"
  have k: "map_of (keysT T') kd = map_of (keysT T) kd"
    using arg_cong [OF e, of "\<lambda>S. map_of (keysT S) kd"] by (simp add: map_of_slice)
  have d: "[r \<leftarrow> stringsT T'. fst r = kd] = [r \<leftarrow> stringsT T. fst r = kd]"
    "[r \<leftarrow> listsT T'. fst (fst r) = kd] = [r \<leftarrow> listsT T. fst (fst r) = kd]"
    "[r \<leftarrow> hashesT T'. fst (fst r) = kd] = [r \<leftarrow> hashesT T. fst (fst r) = kd]"
    "[r \<leftarrow> setsT T'. fst (fst r) = kd] = [r \<leftarrow> setsT T. fst (fst r) = kd]"
    "[r \<leftarrow> zsetsT T'. fst (fst r) = kd] = [r \<leftarrow> zsetsT T. fst (fst r) = kd]"
    using e by (simp_all add: slice_def)
  show ?thesis unfolding rows_ok_def k d ..
qed

lemma rows_ok_frame: "frame K T T' \<Longrightarrow> kd \<notin> K \<Longrightarrow> rows_ok T' kd = rows_ok T kd"
  unfolding frame_def by (drule spec, drule (1) mp, rule rows_ok_slice)

lemma no_rows:
  assumes "schema_ok T" "map_of (keysT T) kd = None"
  shows "[r \<leftarrow> stringsT T. fst r = kd] = []" "[r \<leftarrow> listsT T. fst (fst r) = kd] = []"
    "[r \<leftarrow> hashesT T. fst (fst r) = kd] = []" "[r \<leftarrow> setsT T. fst (fst r) = kd] = []"
    "[r \<leftarrow> zsetsT T. fst (fst r) = kd] = []"
  using assms by (auto simp: schema_ok_def fk_ok_def Let_def map_of_eq_None_iff filter_empty_conv)

lemma no_rows_has_key:
  assumes "schema_ok T" "\<not> has_key T kd"
  shows "map_of (keysT T) kd = None"
  using assms by (simp add: has_key_def map_of_eq_None_iff)

section \<open>Steps that keep it\<close>

definition ok_step :: "tables \<Rightarrow> tables \<Rightarrow> bool" where
  "ok_step T T' \<longleftrightarrow> (store_ok T \<longrightarrow> store_ok T')"

definition typed_step :: "string \<Rightarrow> key_id \<Rightarrow> tables \<Rightarrow> tables \<Rightarrow> bool" where
  "typed_step want kd T T' \<longleftrightarrow>
     (store_ok T \<and> of_type want kd T \<longrightarrow> store_ok T' \<and> of_type want kd T')"

interpretation typed: table_relation "typed_step want kd" for want kd
  by unfold_locales (auto simp: typed_step_def)

lemma map_of_drop_keys: "map_of (keysT (drop_keys G T)) kd = (if kd \<in> G then None else map_of (keysT T) kd)"
proof -
  have "map_of [r \<leftarrow> t. fst r \<notin> G] kd = (if kd \<in> G then None else map_of t kd)"
    for t :: "(key_id \<times> string \<times> int option) list" by (induction t) auto
  then show ?thesis by (simp add: drop_keys_def)
qed

lemma rows_ok_drop_keys: "rows_ok T kd \<Longrightarrow> rows_ok (drop_keys G T) kd"
proof (cases "kd \<in> G")
  case True
  then show ?thesis by (simp add: rows_ok_def map_of_drop_keys)
next
  case False
  then show "rows_ok T kd \<Longrightarrow> ?thesis"
    using rows_ok_slice [OF slice_drop_keys] by blast
qed

lemma ok_delete_keys: "stmt_keeps ok_step (delete_keys P)"
  by (auto simp: stmt_keeps_def ok_step_def delete_keys_def store_ok_def Let_def
      intro: schema_ok_drop_keys rows_ok_drop_keys)

interpretation valid: purging_relation "\<lambda>K. ok_step"
  by unfold_locales (simp_all add: ok_delete_keys, simp_all add: ok_step_def)

lemma ok_stepI:
  assumes "stmt_keeps schema_step st" "stmt_keeps (frame {kd}) st"
    and "\<And>T n T'. st T = Inr (n, T') \<Longrightarrow> schema_ok T \<Longrightarrow> rows_ok T kd \<Longrightarrow> rows_ok T' kd"
  shows "stmt_keeps ok_step st"
  unfolding stmt_keeps_def ok_step_def store_ok_def
proof (intro allI impI conjI)
  fix T n T' kd'
  assume r: "st T = Inr (n, T')" and ok: "schema_ok T \<and> (\<forall>kd. rows_ok T kd)"
  show "schema_ok T'" using assms(1) r ok by (auto simp: stmt_keeps_def schema_step_def)
  show "rows_ok T' kd'"
  proof (cases "kd' = kd")
    case False
    then show ?thesis
      using assms(2) r ok rows_ok_frame [of "{kd}" T T' kd'] unfolding stmt_keeps_def by blast
  qed (use assms(3) r ok in blast)
qed

lemma typedI:
  assumes "stmt_keeps schema_step st" "stmt_keeps (frame {kd}) st"
    and k: "\<And>T n T'. st T = Inr (n, T') \<Longrightarrow> schema_ok T \<Longrightarrow> rows_ok T kd \<Longrightarrow> of_type want kd T \<Longrightarrow>
      rows_ok T' kd \<and> of_type want kd T'"
  shows "stmt_keeps (typed_step want kd) st"
  unfolding stmt_keeps_def typed_step_def store_ok_def
proof (intro allI impI)
  fix T n T'
  assume r: "st T = Inr (n, T')"
    and ok: "(schema_ok T \<and> (\<forall>kd. rows_ok T kd)) \<and> of_type want kd T"
  have "schema_ok T'" using assms(1) r ok by (auto simp: stmt_keeps_def schema_step_def)
  moreover have "rows_ok T' kd'" for kd'
  proof (cases "kd' = kd")
    case False
    then show ?thesis
      using assms(2) r ok rows_ok_frame [of "{kd}" T T' kd'] unfolding stmt_keeps_def by blast
  qed (use k r ok in blast)
  ultimately show "(schema_ok T' \<and> (\<forall>kd. rows_ok T' kd)) \<and> of_type want kd T'"
    using k [OF r] ok by blast
qed

lemma ok_update_expiry: "stmt_keeps ok_step (update_expiry kd ex)"
  by (rule ok_stepI [OF schema_update_expiry frame_one_key(5)])
    (auto simp: update_expiry_def rows_ok_def split: option.splits)

text \<open>The statements of the list, hash, set and sorted-set operations.\<close>

lemma rows_of_new_key:
  assumes "schema_ok T" "\<not> has_key T kd" "want \<in> {''list'', ''hash'', ''set'', ''zset''}"
  shows "rows_ok (T\<lparr>keysT := keysT T @ [(kd, want, ex)]\<rparr>) kd"
  using no_rows [OF assms(1) no_rows_has_key [OF assms(1,2)]] assms(3)
    no_rows_has_key [OF assms(1,2)]
  by (auto simp: rows_ok_def map_add_def)

lemma typed_new_key:
  assumes "want \<in> {''list'', ''hash'', ''set'', ''zset''}"
  shows "stmt_keeps (typed_step want kd) (insert_key_or_nothing kd want)"
proof (rule typedI [OF schema_insert_key_or_nothing frame_one_key(3)])
  fix T n T'
  assume "insert_key_or_nothing kd want T = Inr (n, T')" "schema_ok T" "rows_ok T kd" "of_type want kd T"
  then show "rows_ok T' kd \<and> of_type want kd T'"
    using rows_of_new_key [OF _ _ assms, of T kd None] no_rows_has_key [of T kd]
    by (auto simp: insert_key_or_nothing_def of_type_def map_add_def split: if_splits)
qed

lemma typed_delete_key: "stmt_keeps (typed_step want kd) (delete_key kd)"
proof (rule typedI)
  show "stmt_keeps schema_step (delete_key kd)"
    unfolding delete_key_def by (rule schema_delete_keys)
  show "stmt_keeps (frame {kd}) (delete_key kd)"
    unfolding delete_key_def by (rule frame_delete_keys) simp
  fix T n T'
  assume "delete_key kd T = Inr (n, T')" "rows_ok T kd" "of_type want kd T"
  then show "rows_ok T' kd \<and> of_type want kd T'"
    by (auto simp: delete_key_def delete_keys_def Let_def of_type_def map_of_drop_keys
        rows_ok_drop_keys split: option.splits if_splits)
qed

lemma typed_list:
  "stmt_keeps (typed_step ''list'' kd) (insert_list_row kd i v)"
  "stmt_keeps (typed_step ''list'' kd) (delete_list_rows kd)"
  by (rule typedI [OF schema_insert_list_row frame_one_key(9)] typedI [OF schema_delete_list_rows frame_one_key(10)],
      auto simp: insert_list_row_def delete_list_rows_def rows_ok_def of_type_def
      split: if_splits option.splits)+

lemma typed_hash:
  "stmt_keeps (typed_step ''hash'' kd) (upsert_field kd f v)"
  "stmt_keeps (typed_step ''hash'' kd) (delete_field kd f)"
  by (rule typedI [OF schema_upsert_field frame_one_key(11)] typedI [OF schema_delete_field frame_one_key(12)],
      auto simp: upsert_field_def delete_field_def rows_ok_def of_type_def
      split: if_splits option.splits)+

lemma typed_set:
  "stmt_keeps (typed_step ''set'' kd) (insert_member_or_nothing kd m)"
  "stmt_keeps (typed_step ''set'' kd) (delete_member kd m)"
  by (rule typedI [OF schema_insert_member frame_one_key(13)] typedI [OF schema_delete_member frame_one_key(14)],
      auto simp: insert_member_or_nothing_def delete_member_def rows_ok_def of_type_def
      split: if_splits option.splits)+

lemma typed_zset:
  "stmt_keeps (typed_step ''zset'' kd) (insert_score kd m sc)"
  "stmt_keeps (typed_step ''zset'' kd) (update_score kd m sc)"
  "stmt_keeps (typed_step ''zset'' kd) (delete_score kd m)"
  by (rule typedI [OF schema_insert_score frame_one_key(15)] typedI [OF schema_update_score frame_one_key(16)]
      typedI [OF schema_delete_score frame_one_key(17)],
      auto simp: insert_score_def update_score_def delete_score_def rows_ok_def of_type_def
      split: if_splits option.splits)+

section \<open>Steady worlds\<close>

definition steady :: "int \<Rightarrow> world \<Rightarrow> bool" where
  "steady t w \<longleftrightarrow> (\<forall>n. clock (env w) n div 1000000 = t)"

lemma steady_simps [simp]:
  "steady t (bump w) = steady t w" "steady t (w\<lparr>tabs := T\<rparr>) = steady t w"
  by (simp_all add: steady_def)

lemma calm_steady: "calm t w \<Longrightarrow> steady t w"
  by (simp add: calm_def steady_def)

lemma steady_nowMs: "steady t w \<Longrightarrow> nowMs w = (Inr t, bump w)"
  by (simp add: nowMs_def seq_def nowNs_def ret_def steady_def)

text \<open>The expired keys of \<open>T\<close> at time \<open>t\<close>, and \<open>T\<close> without the key \<open>kd\<close> if it is one of them.\<close>

definition dead :: "int \<Rightarrow> tables \<Rightarrow> key_id set" where
  "dead t T = {kd. \<exists>ty ex. (kd, ty, ex) \<in> set (keysT T) \<and> \<not> alive t ex}"

definition purge :: "key_id \<Rightarrow> int \<Rightarrow> tables \<Rightarrow> tables" where
  "purge kd t T = drop_keys (dead t T \<inter> {kd}) T"

lemma dead_map_of:
  "schema_ok T \<Longrightarrow> kd \<in> dead t T \<longleftrightarrow> (\<exists>ty ex. map_of (keysT T) kd = Some (ty, ex) \<and> \<not> alive t ex)"
  by (auto simp: dead_def schema_ok_def pk_ok_def map_of_eq_Some_iff)

lemma delete_dead:
  "delete_keys (\<lambda>kd ty ex. Q kd \<and> \<not> alive t ex) T =
     Inr (length [(kd, ty, ex) \<leftarrow> keysT T. Q kd \<and> \<not> alive t ex], drop_keys (dead t T \<inter> Collect Q) T)"
proof -
  have "set (map fst [(kd, ty, ex) \<leftarrow> keysT T. Q kd \<and> \<not> alive t ex]) = dead t T \<inter> Collect Q"
    by (force simp: dead_def)
  then show ?thesis by (simp add: delete_keys_def Let_def)
qed

lemma store_ok_drop_keys: "store_ok T \<Longrightarrow> store_ok (drop_keys G T)"
  by (auto simp: store_ok_def intro: schema_ok_drop_keys rows_ok_drop_keys)

lemma store_ok_purge: "store_ok T \<Longrightarrow> store_ok (purge kd t T)"
  by (simp add: purge_def store_ok_drop_keys)

lemma map_of_purge:
  "map_of (keysT (purge kd t T)) kd' =
     (if kd' = kd \<and> kd \<in> dead t T then None else map_of (keysT T) kd')"
  by (auto simp: purge_def map_of_drop_keys)

lemma deleteExpired_steady:
  assumes "steady t w"
  shows "deleteExpired key db w =
    (case faults (env w) (Suc (tick w)) of
       Some msg \<Rightarrow> (Inl (ErrSql msg), bump (bump w))
     | None \<Rightarrow> (Inr (), (bump (bump w))\<lparr>tabs := purge (key, db) t (tabs w)\<rparr>))"
  using delete_dead [of "\<lambda>kd. kd = (key, db)" t "tabs w"]
  by (simp add: deleteExpired_def seq_def steady_nowMs [OF assms] exec_def ret_def bump_def
      purge_def split: option.split)

lemma keyType_steady:
  assumes "steady t w"
  shows "keyType key db w =
    (case faults (env w) (Suc (tick w)) of
       Some msg \<Rightarrow> (Inl (ErrSql msg), bump (bump w))
     | None \<Rightarrow> (Inr (case map_of (keysT (tabs w)) (key, db) of
           None \<Rightarrow> '''' | Some (ty, ex) \<Rightarrow> if alive t ex then ty else ''''), bump (bump w)))"
  by (simp add: keyType_def seq_def steady_nowMs [OF assms] query_def ret_def bump_def
      split: option.split)

lemma rows_ok_type: "rows_ok T kd \<Longrightarrow> map_of (keysT T) kd = Some (ty, ex) \<Longrightarrow> ty \<noteq> ''''"
  by (auto simp: rows_ok_def)

lemma assertType_steady:
  assumes "steady t w" and run: "assertType key db want w = (Inr u, w')"
    and ok: "store_ok (tabs w)" "(key, db) \<notin> dead t (tabs w)"
  shows "tabs w' = tabs w \<and> of_type want (key, db) (tabs w)"
proof (cases "map_of (keysT (tabs w)) (key, db)")
  case None
  then show ?thesis using run
    by (auto simp: assertType_def seq_def keyType_steady [OF assms(1)] ret_def fail_def of_type_def
        split: option.splits if_splits)
next
  case (Some row)
  obtain ty ex where row: "row = (ty, ex)" by (cases row)
  have "alive t ex" using ok dead_map_of [OF store_okD(1)] Some row by blast
  moreover have "ty \<noteq> ''''" using rows_ok_type [OF store_okD(2)] ok(1) Some row by blast
  ultimately show ?thesis using run Some row
    by (auto simp: assertType_def seq_def keyType_steady [OF assms(1)] ret_def fail_def of_type_def
        split: option.splits if_splits)
qed

lemma purge_not_dead: "schema_ok T \<Longrightarrow> kd \<notin> dead t (purge kd t T)"
  by (simp add: dead_map_of schema_ok_drop_keys purge_def map_of_drop_keys)

text \<open>The prologue of the typed operations: what runs after it only sees keys of the wanted type.\<close>

lemma guard_ok:
  assumes "steady t w" "store_ok (tabs w)" and rest: "keeps (typed_step want (key, db)) rest"
  shows "store_ok (tabs (snd (seq (deleteExpired key db)
    (\<lambda>_. seq (assertType key db want) (\<lambda>_. rest)) w)))"
proof (cases "faults (env w) (Suc (tick w))")
  case (Some msg)
  with assms show ?thesis by (simp add: seq_def deleteExpired_steady)
next
  case None
  define w1 where "w1 = (bump (bump w))\<lparr>tabs := purge (key, db) t (tabs w)\<rparr>"
  have d: "deleteExpired key db w = (Inr (), w1)"
    using None by (simp add: deleteExpired_steady [OF assms(1)] w1_def)
  have ok: "store_ok (tabs w1)" "(key, db) \<notin> dead t (tabs w1)" "steady t w1"
    using assms by (simp_all add: w1_def store_ok_purge purge_not_dead store_okD(1))
  obtain r w2 where a: "assertType key db want w1 = (r, w2)" by (meson surj_pair)
  show ?thesis
  proof (cases r)
    case (Inl e)
    have "store_ok (tabs w2)"
      using valid.keeps_assertType [THEN keepsD, OF a] ok(1) by (simp add: ok_step_def)
    with Inl show ?thesis by (simp add: seq_def d a)
  next
    case (Inr u)
    from assertType_steady [OF ok(3) a [unfolded Inr] ok(1,2)]
    have "store_ok (tabs w2) \<and> of_type want (key, db) (tabs w2)" using ok(1) by simp
    then have "store_ok (tabs (snd (rest w2)))"
      using rest unfolding keeps_def typed_step_def by blast
    with Inr show ?thesis by (simp add: seq_def d a)
  qed
qed

section \<open>Every call keeps the invariant\<close>

subsection \<open>Operations on lists, hashes, sets and sorted sets\<close>

lemmas typed_execs =
  typed_new_key [THEN typed.keeps_exec] typed_delete_key [THEN typed.keeps_exec]
  typed_list [THEN typed.keeps_exec] typed_hash [THEN typed.keeps_exec]
  typed_set [THEN typed.keeps_exec] typed_zset [THEN typed.keeps_exec]

lemma typed_scan_or: "keeps (typed_step want kd) m \<Longrightarrow> keeps (typed_step want kd) (scan_or z m)"
  unfolding scan_or_def by (intro typed.keeps_rules)

lemma typed_lRewrite: "keeps (typed_step ''list'' (key, db)) (lRewrite key db vs)"
  unfolding lRewrite_def by (intro typed.keeps_rules typed_execs)

lemmas typed_rules = typed_lRewrite typed_scan_or typed_execs typed.keeps_rules

lemmas guards = lEnsure_def lAssert_def hEnsure_def hAssert_def sEnsure_def sAssert_def zEnsure_def
  zAssert_def seq_assoc Let_def

lemma ok_lists:
  assumes "steady t w" "store_ok (tabs w)"
  shows "store_ok (tabs (snd (LPush key db vs w)))"
    and "store_ok (tabs (snd (RPush key db vs w)))"
    and "store_ok (tabs (snd (LPop key db w)))"
    and "store_ok (tabs (snd (RPop key db w)))"
    and "store_ok (tabs (snd (LSet key db i v w)))"
    and "store_ok (tabs (snd (LInsert key db before pivot v w)))"
    and "store_ok (tabs (snd (LRem key db cnt v w)))"
  unfolding LPush_def RPush_def LPop_def RPop_def LSet_def LInsert_def LRem_def guards lAll_def
  by ((rule guard_ok [OF assms], intro typed_rules; simp))+

lemma ok_hashes:
  assumes "steady t w" "store_ok (tabs w)"
  shows "store_ok (tabs (snd (HSet key db ps w)))"
    and "store_ok (tabs (snd (HDel key db fs w)))"
  unfolding HSet_def HDel_def guards by ((rule guard_ok [OF assms], intro typed_rules; simp))+

lemma ok_sets:
  assumes "steady t w" "store_ok (tabs w)"
  shows "store_ok (tabs (snd (SAdd key db ms w)))"
    and "store_ok (tabs (snd (SRem key db ms w)))"
  unfolding SAdd_def SRem_def guards by ((rule guard_ok [OF assms], intro typed_rules; simp))+

lemma ok_zsets:
  assumes "steady t w" "store_ok (tabs w)"
  shows "store_ok (tabs (snd (ZAdd key db zs zopts w)))"
    and "store_ok (tabs (snd (ZRem key db ms w)))"
    and "store_ok (tabs (snd (ZIncrBy key db delta m w)))"
  unfolding ZAdd_def ZRem_def ZIncrBy_def guards
  by ((rule guard_ok [OF assms], intro typed_rules; simp))+

lemma ok_expiry:
  assumes "store_ok (tabs w)"
  shows "store_ok (tabs (snd (ExpireAt key db ms w)))"
    and "store_ok (tabs (snd (Expire key db n w)))"
    and "store_ok (tabs (snd (PExpire key db n w)))"
    and "store_ok (tabs (snd (Persist key db w)))"
proof -
  note rules = valid.keeps_deleteExpired [OF UNIV_I] valid.keeps_exec [OF ok_update_expiry]
    valid.keeps_nowMs valid.keeps_rules
  have "keeps ok_step (ExpireAt key db ms)" "keeps ok_step (Expire key db n)"
    "keeps ok_step (PExpire key db n)" "keeps ok_step (Persist key db)" for ms
    unfolding ExpireAt_def Expire_def PExpire_def Persist_def
    by (intro rules)+
  then show "store_ok (tabs (snd (ExpireAt key db ms w)))"
    "store_ok (tabs (snd (Expire key db n w)))"
    "store_ok (tabs (snd (PExpire key db n w)))"
    "store_ok (tabs (snd (Persist key db w)))"
    using assms unfolding keeps_def ok_step_def by blast+
qed

subsection \<open>Strings\<close>

lemma typed_stepI:
  assumes "schema_step T T'" "frame {kd} T T'"
    and k: "schema_ok T \<Longrightarrow> rows_ok T kd \<Longrightarrow> of_type want kd T \<Longrightarrow> rows_ok T' kd \<and> of_type want kd T'"
  shows "typed_step want kd T T'"
  unfolding typed_step_def
proof
  assume ok: "store_ok T \<and> of_type want kd T"
  then have r: "rows_ok T' kd \<and> of_type want kd T'" using k store_okD by blast
  have "rows_ok T' kd'" for kd'
    using r rows_ok_frame [OF assms(2), of kd'] ok store_okD(2) by (cases "kd' = kd") auto
  moreover have "schema_ok T'" using assms(1) ok store_okD(1) by (simp add: schema_step_def)
  ultimately show "store_ok T' \<and> of_type want kd T'" using r by (simp add: store_ok_def)
qed

lemma other_rows:
  assumes "schema_ok T" "rows_ok T kd" "of_type ''string'' kd T"
  shows "[r \<leftarrow> listsT T. fst (fst r) = kd] = []" "[r \<leftarrow> hashesT T. fst (fst r) = kd] = []"
    "[r \<leftarrow> setsT T. fst (fst r) = kd] = []" "[r \<leftarrow> zsetsT T. fst (fst r) = kd] = []"
  using assms no_rows [OF assms(1), of kd]
  by (auto simp: rows_ok_def of_type_def split: option.splits)

text \<open>A transaction body on one string key: what it commits has a string row for the key, and the
  other data tables are as they were.\<close>

definition same_data :: "tables \<Rightarrow> tables \<Rightarrow> bool" where
  "same_data T T' \<longleftrightarrow> listsT T' = listsT T \<and> hashesT T' = hashesT T \<and> setsT T' = setsT T \<and>
     zsetsT T' = zsetsT T"

definition string_stored :: "key_id \<Rightarrow> tables \<Rightarrow> tables \<Rightarrow> bool" where
  "string_stored kd T T' \<longleftrightarrow> (\<exists>ex. map_of (keysT T') kd = Some (''string'', ex)) \<and>
     [r \<leftarrow> stringsT T'. fst r = kd] \<noteq> [] \<and> same_data T T'"

lemma typed_string_tx:
  assumes kept: "keeps schema_step body" "keeps (frame {kd}) body"
    and com: "\<And>w a w'. body w = (Inr (Commit a), w') \<Longrightarrow>
      schema_ok (tabs w) \<Longrightarrow> of_type ''string'' kd (tabs w) \<Longrightarrow>
      string_stored kd (tabs w) (tabs w')"
  shows "keeps (typed_step ''string'' kd) (transact body)"
proof (rule typed.keeps_transact_commit)
  fix w a w'
  assume b: "body w = (Inr (Commit a), w')"
  show "typed_step ''string'' kd (tabs w) (tabs w')"
  proof (rule typed_stepI [OF keepsD [OF kept(1) b] keepsD [OF kept(2) b]])
    assume "schema_ok (tabs w)" "rows_ok (tabs w) kd" "of_type ''string'' kd (tabs w)"
    note other_rows [OF this] com [OF b this(1,3)]
    then show "rows_ok (tabs w') kd \<and> of_type ''string'' kd (tabs w')"
      by (auto simp: rows_ok_def of_type_def string_stored_def same_data_def)
  qed
qed

lemma scan_query_InrE [elim!]:
  assumes "scan_or z (query q) w = (Inr a, w')"
  obtains "a = z \<or> a = q (tabs w)" "tabs w' = tabs w"
  using assms
  by (auto simp: scan_or_def attempt_def query_def seq_def ret_def split: option.splits)

lemma nowMs_InrE [elim!]:
  assumes "nowMs w = (Inr a, w')"
  obtains "tabs w' = tabs w"
  using assms by (auto simp: nowMs_def nowNs_def seq_def ret_def)

lemma attempt_exec_InrE:
  assumes "attempt (exec st) w = (Inr r, w')"
  obtains "tabs w' = tabs w" | n where "st (tabs w) = Inr (n, tabs w')"
  using assms by (auto simp: attempt_def exec_def split: option.splits sum.splits)

lemma row_of_map_of: "[r \<leftarrow> t. fst r = kd] \<noteq> [] \<longleftrightarrow> map_of t kd \<noteq> None"
  by (auto simp: filter_empty_conv map_of_eq_None_iff)

lemma string_row_key:
  assumes "schema_ok T" "of_type ''string'' kd T" "map_of (stringsT T) kd = Some v"
  shows "\<exists>ex. map_of (keysT T) kd = Some (''string'', ex)"
proof -
  have "map_of (keysT T) kd \<noteq> None"
    using no_rows(1) [OF assms(1), of kd] assms(3) row_of_map_of [of kd "stringsT T"] by (metis option.distinct(1))
  then show ?thesis using assms(2) by (auto simp: of_type_def split: option.splits)
qed

lemma upsert_key_row_string:
  "upsert_key_row kd ''string'' ex T = Inr (n, T') \<Longrightarrow> of_type ''string'' kd T' \<and> same_data T T'"
  by (auto simp: upsert_key_row_def of_type_def same_data_def update_conv')

lemma upsert_key_type_string:
  "upsert_key_type kd ''string'' T = Inr (n, T') \<Longrightarrow> of_type ''string'' kd T' \<and> same_data T T'"
  by (auto simp: upsert_key_type_def of_type_def same_data_def update_conv' Let_def)

lemma has_key_string:
  "has_key T kd \<Longrightarrow> of_type ''string'' kd T \<Longrightarrow> \<exists>ex. map_of (keysT T) kd = Some (''string'', ex)"
  by (cases "map_of (keysT T) kd") (auto simp: of_type_def has_key_def map_of_eq_None_iff)

lemma upsert_string_stored:
  "upsert_string kd v T = Inr (n, T') \<Longrightarrow> of_type ''string'' kd T \<Longrightarrow> string_stored kd T T'"
  by (auto simp: upsert_string_def string_stored_def same_data_def row_of_map_of update_conv'
      split: if_splits dest: has_key_string)

lemma insert_string_stored:
  "insert_string kd v T = Inr (n, T') \<Longrightarrow> of_type ''string'' kd T \<Longrightarrow> string_stored kd T T'"
  by (auto simp: insert_string_def string_stored_def same_data_def
      split: if_splits dest: has_key_string)

lemma update_string_stored:
  "update_string kd v T = Inr (n, T') \<Longrightarrow> schema_ok T \<Longrightarrow> of_type ''string'' kd T \<Longrightarrow>
     map_of (stringsT T) kd = Some s \<Longrightarrow> string_stored kd T T'"
  by (auto simp: update_string_def string_stored_def same_data_def row_of_map_of
      dest: string_row_key)

lemma string_stored_trans: "same_data T T1 \<Longrightarrow> string_stored kd T1 T' \<Longrightarrow> string_stored kd T T'"
  by (simp add: string_stored_def same_data_def)

lemma key_row_then_string:
  "upsert_key_row kd ''string'' ex T = Inr (n, T1) \<Longrightarrow> upsert_string kd v T1 = Inr (m, T') \<Longrightarrow>
     string_stored kd T T'"
  by (drule upsert_key_row_string, drule upsert_string_stored) (auto intro: string_stored_trans)

lemma key_type_then_string:
  "upsert_key_type kd ''string'' T = Inr (n, T1) \<Longrightarrow> insert_string kd v T1 = Inr (m, T') \<Longrightarrow>
     string_stored kd T T'"
  by (drule upsert_key_type_string, drule insert_string_stored) (auto intro: string_stored_trans)

lemmas schema_rules = constraints.keeps_nowMs constraints.keeps_scan_or
  schema_stmts [THEN schema.keeps_exec] schema.keeps_rules

lemma ok_Set:
  assumes "steady t w" "store_ok (tabs w)"
  shows "store_ok (tabs (snd (Set key db v opts w)))"
  unfolding Set_def upsertKey_def
  by (rule guard_ok [OF assms], rule typed_string_tx,
      (intro schema_rules), (intro others.write_rules; simp))
    (auto split: option.splits if_splits; erule (1) key_row_then_string)

lemma ok_IncrBy:
  assumes "steady t w" "store_ok (tabs w)"
  shows "store_ok (tabs (snd (IncrBy key db delta w)))"
  unfolding IncrBy_def Let_def
  by (rule guard_ok [OF assms], rule typed_string_tx,
      (intro schema_rules), (intro others.write_rules; simp))
    (auto simp: fail_def split: option.splits if_splits;
      (erule (1) key_type_then_string | erule (3) update_string_stored))

lemma ok_Append:
  assumes "steady t w" "store_ok (tabs w)"
  shows "store_ok (tabs (snd (Append key db suffix w)))"
  unfolding Append_def Let_def
  by (rule guard_ok [OF assms], rule typed_string_tx,
      (intro schema_rules), (intro others.write_rules; simp))
    (auto elim!: attempt_exec_InrE split: option.splits if_splits;
      (erule (3) update_string_stored | erule (1) insert_string_stored
        | erule (1) key_type_then_string [rotated]))

subsection \<open>Rename\<close>

text \<open>The rows of the destination after the copy: those of the source.\<close>

definition fresh_key :: "key_id \<Rightarrow> string \<Rightarrow> tables \<Rightarrow> bool" where
  "fresh_key kd ty T \<longleftrightarrow> (\<exists>ex. map_of (keysT T) kd = Some (ty, ex)) \<and>
     [r \<leftarrow> stringsT T. fst r = kd] = [] \<and> [r \<leftarrow> listsT T. fst (fst r) = kd] = [] \<and>
     [r \<leftarrow> hashesT T. fst (fst r) = kd] = [] \<and> [r \<leftarrow> setsT T. fst (fst r) = kd] = [] \<and>
     [r \<leftarrow> zsetsT T. fst (fst r) = kd] = []"

lemma insert_key_fresh:
  assumes "schema_ok T" "insert_key kd ty ex T = Inr (n, T')"
  shows "fresh_key kd ty T'"
proof -
  have k: "map_of (keysT T) kd = None" and T': "T' = T\<lparr>keysT := keysT T @ [(kd, ty, ex)]\<rparr>"
    using assms no_rows_has_key [OF assms(1)] by (auto simp: insert_key_def split: if_splits)
  show ?thesis using no_rows [OF assms(1) k] k by (simp add: T' fresh_key_def map_add_def)
qed

lemma copy_run:
  "(case c of Inl e \<Rightarrow> Inl e | Inr t \<Rightarrow> Inr (f t, g t)) = Inr (n, T') \<Longrightarrow> \<exists>t. c = Inr t \<and> T' = g t"
  by (cases c) auto

lemma filter_moved: "[r \<leftarrow> map (\<lambda>(kd, v). (dst, v)) F. fst r = dst] = map (\<lambda>(kd, v). (dst, v)) F"
  by (induction F) auto

lemma copied_rows:
  assumes "fresh_key dst ty T"
  shows "ty = ''string'' \<Longrightarrow> copy_strings src dst T = Inr (n, T') \<Longrightarrow>
      [r \<leftarrow> stringsT T. fst r = src] \<noteq> [] \<Longrightarrow> rows_ok T' dst"
    and "ty = ''list'' \<Longrightarrow> copy_lists src dst T = Inr (n, T') \<Longrightarrow> rows_ok T' dst"
    and "ty = ''hash'' \<Longrightarrow> copy_hashes src dst T = Inr (n, T') \<Longrightarrow> rows_ok T' dst"
    and "ty = ''set'' \<Longrightarrow> copy_sets src dst T = Inr (n, T') \<Longrightarrow> rows_ok T' dst"
    and "ty = ''zset'' \<Longrightarrow> copy_zsets src dst T = Inr (n, T') \<Longrightarrow> rows_ok T' dst"
  using assms
  by (auto simp: copy_strings_def copy_lists_def copy_hashes_def copy_sets_def copy_zsets_def
      rows_ok_def fresh_key_def filter_moved simp del: filter_map dest!: copy_run copy_into_Inr(1))

lemma copy_data_rows:
  assumes "copy_data ty src dst w = (Inr u, w')" "fresh_key dst ty (tabs w)"
    and "ty \<in> {''string'', ''list'', ''hash'', ''set'', ''zset''}"
    and "ty = ''string'' \<Longrightarrow> [r \<leftarrow> stringsT (tabs w). fst r = src] \<noteq> []"
  shows "rows_ok (tabs w') dst"
  using assms(3)
proof (elim insertE)
  assume ty: "ty = ''string''"
  with assms(1) obtain n where "copy_strings src dst (tabs w) = Inr (n, tabs w')"
    by (auto simp: copy_data_def)
  from copied_rows(1) [OF assms(2) ty this assms(4) [OF ty]] show ?thesis .
next
  assume ty: "ty = ''list''"
  with assms(1) obtain n where "copy_lists src dst (tabs w) = Inr (n, tabs w')"
    by (auto simp: copy_data_def)
  from copied_rows(2) [OF assms(2) ty this] show ?thesis .
next
  assume ty: "ty = ''hash''"
  with assms(1) obtain n where "copy_hashes src dst (tabs w) = Inr (n, tabs w')"
    by (auto simp: copy_data_def)
  from copied_rows(3) [OF assms(2) ty this] show ?thesis .
next
  assume ty: "ty = ''set''"
  with assms(1) obtain n where "copy_sets src dst (tabs w) = Inr (n, tabs w')"
    by (auto simp: copy_data_def)
  from copied_rows(4) [OF assms(2) ty this] show ?thesis .
next
  assume ty: "ty = ''zset''"
  with assms(1) obtain n where "copy_zsets src dst (tabs w) = Inr (n, tabs w')"
    by (auto simp: copy_data_def)
  from copied_rows(5) [OF assms(2) ty this] show ?thesis .
qed simp

lemma delete_key_run:
  "delete_key kd T = Inr (length [r \<leftarrow> keysT T. fst r = kd], drop_keys (fst ` set (keysT T) \<inter> {kd}) T)"
proof -
  have "set (map fst [(i, ty, ex) \<leftarrow> keysT T. i = kd]) = fst ` set (keysT T) \<inter> {kd}" by force
  moreover have "[(i, ty, ex) \<leftarrow> keysT T. i = kd] = [r \<leftarrow> keysT T. fst r = kd]"
    by (simp add: case_prod_beta')
  ultimately show ?thesis by (simp add: delete_key_def delete_keys_def Let_def)
qed

lemma delete_key_Inr:
  assumes "delete_key kd T = Inr (n, T')"
  shows "\<exists>G. T' = drop_keys G T" "map_of (keysT T') kd = None" "frame {kd} T T'"
proof -
  have T': "T' = drop_keys (fst ` set (keysT T) \<inter> {kd}) T"
    using assms by (simp add: delete_key_run)
  show "\<exists>G. T' = drop_keys G T" using T' ..
  show "map_of (keysT T') kd = None"
    using map_of_eq_None_iff [of "keysT T" kd]
    by (cases "kd \<in> fst ` set (keysT T)") (simp_all add: T' map_of_drop_keys)
  have "stmt_keeps (frame {kd}) (delete_key kd)"
    unfolding delete_key_def by (rule frame_delete_keys) simp
  then show "frame {kd} T T'" using assms by (auto simp: stmt_keeps_def)
qed

lemma rows_ok_None: "map_of (keysT T) kd = None \<Longrightarrow> rows_ok T kd"
  by (simp add: rows_ok_def)

lemma rename_dst_rows:
  assumes ok: "store_ok (tabs w)" and row: "map_of (keysT (tabs w)) src = Some (ty, ex)"
    and "src \<noteq> dst" and del: "attempt (exec (delete_key dst)) w = (Inr r, w1)"
    and ins: "insert_key dst ty ex' (tabs w1) = Inr (n, tabs w2)"
    and copy: "copy_data ty src dst w2 = (Inr u, w3)"
  shows "rows_ok (tabs w3) dst"
proof -
  have ok1: "store_ok (tabs w1)" and f1: "frame {dst} (tabs w) (tabs w1)"
    using del ok delete_key_Inr [of dst "tabs w"]
    by (auto elim!: attempt_exec_InrE simp: frame.R_refl store_ok_drop_keys)
  have "frame {dst} (tabs w1) (tabs w2)"
    using frame_one_key(4) ins by (auto simp: stmt_keeps_def)
  with f1 have "frame {dst} (tabs w) (tabs w2)" by (rule frame.R_trans)
  then have "slice src (tabs w2) = slice src (tabs w)"
    using \<open>src \<noteq> dst\<close> unfolding frame_def by blast
  then have "[r \<leftarrow> stringsT (tabs w2). fst r = src] = [r \<leftarrow> stringsT (tabs w). fst r = src]"
    by (simp add: slice_def)
  then have str: "ty = ''string'' \<Longrightarrow> [r \<leftarrow> stringsT (tabs w2). fst r = src] \<noteq> []"
    and kinds: "ty \<in> {''string'', ''list'', ''hash'', ''set'', ''zset''}"
    using store_okD(2) [OF ok, of src] row by (auto simp: rows_ok_def)
  show ?thesis
    by (rule copy_data_rows [OF copy insert_key_fresh [OF store_okD(1) [OF ok1] ins] kinds str])
qed

lemma rename_commit:
  assumes ok: "store_ok (tabs v)" and row: "map_of (keysT (tabs v)) src = Some (ty, ex)"
    and run: "rename_body src dst ty ex v = (Inr (Commit a), v')"
  shows "store_ok (tabs v')"
proof -
  from run obtain r v1 n v2 u v3 m where
    del: "attempt (exec (delete_key dst)) v = (Inr r, v1)" and
    ins: "insert_key dst ty ex (tabs v1) = Inr (n, tabs v2)" and
    copy: "copy_data ty src dst v2 = (Inr u, v3)" and
    last: "delete_key src (tabs v3) = Inr (m, tabs v')"
    unfolding rename_body_def by (elim seq_InrE exec_InrE ret_InrE) (hypsubst, rule that; assumption)
  have schema: "keeps schema_step (rename_body src dst ty ex)"
    unfolding rename_body_def copy_data_def delete_key_def
    by (intro schema_copy [THEN schema.keeps_exec] schema_rules)
  have frame: "keeps (frame {src, dst}) (rename_body src dst ty ex)"
    unfolding rename_body_def copy_data_def by (intro others.write_rules; simp)
  have "rows_ok (tabs v') src" using delete_key_Inr(2) [OF last] by (rule rows_ok_None)
  moreover have "rows_ok (tabs v') dst" if "src \<noteq> dst"
  proof -
    have "rows_ok (tabs v3) dst" using rename_dst_rows [OF ok row that del ins copy] .
    then show ?thesis using delete_key_Inr(1) [OF last] by (auto simp: rows_ok_drop_keys)
  qed
  moreover have "rows_ok (tabs v') kd" if "kd \<notin> {src, dst}" for kd
    using rows_ok_frame [OF keepsD [OF frame run] that] store_okD(2) [OF ok] by simp
  ultimately have "rows_ok (tabs v') kd" for kd
    by (cases "kd = src"; cases "kd = dst") simp_all
  moreover have "schema_ok (tabs v')"
    using keepsD [OF schema run] store_okD(1) [OF ok] by (simp add: schema_step_def)
  ultimately show ?thesis by (simp add: store_ok_def)
qed

lemma rename_transact:
  assumes ok: "store_ok (tabs v)" and row: "map_of (keysT (tabs v)) src = Some (ty, ex)"
  shows "store_ok (tabs (snd (transact (rename_body src dst ty ex) v)))"
  using transact_commit [of "rename_body src dst ty ex" v]
proof (elim disjE exE conjE)
  fix w1 a w2
  assume "tabs w1 = tabs v" and run: "rename_body src dst ty ex w1 = (Inr (Commit a), w2)"
    and t: "tabs (snd (transact (rename_body src dst ty ex) v)) = tabs w2"
  then have "store_ok (tabs w2)" using rename_commit [OF _ _ run] ok row by simp
  with t show ?thesis by simp
qed (simp add: ok)

lemma ok_Rename:
  assumes ok: "store_ok (tabs w)"
  shows "store_ok (tabs (snd (Rename src dst db w)))"
proof -
  obtain r w1 where d: "deleteExpired src db w = (r, w1)" by (meson surj_pair)
  have ok1: "store_ok (tabs w1)"
    using keepsD [OF valid.keeps_deleteExpired [OF UNIV_I] d] ok by (simp add: ok_step_def)
  show ?thesis
    using ok1 by (cases r) (auto simp: Rename_def d seq_def query_def fail_def rename_transact
        split: option.split)
qed

lemmas ok_reads = valid.read_keeps [unfolded keeps_def ok_step_def, rule_format]

lemmas ok_writes = ok_lists ok_hashes ok_sets ok_zsets ok_Set ok_IncrBy ok_Append

lemma call_ok:
  assumes "store_call K w w'" "steady t w" "store_ok (tabs w)"
  shows "store_ok (tabs w')"
  using assms
  by (induction rule: store_call.induct)
    (erule ok_reads | erule ok_expiry | erule ok_Rename | erule (1) ok_writes)+

end
