(* ===== verification/Store_Safety.thy ===== *)
theory Store_Safety
  imports Store_Types
begin

text \<open>
  Safety of the store under every environment: the states that sequences of calls reach from the
  empty database satisfy the schema's constraints, calls leave other keys alone, and, as long as
  the clock does not pass a millisecond inside a call, the rows of every key fit its type (\<^verbatim>\<open>Interleaving\<close>
  shows that the proviso is needed).
\<close>

section \<open>Reachable states\<close>

text \<open>Between calls the environment is free to change: \<open>other\<close> replaces it by any other.\<close>

inductive reachable :: "world \<Rightarrow> bool" where
  init: "tabs w = empty_tables \<Longrightarrow> reachable w"
| call: "reachable w \<Longrightarrow> store_call K w w' \<Longrightarrow> reachable w'"
| other: "reachable w \<Longrightarrow> tabs w' = tabs w \<Longrightarrow> reachable w'"

inductive steadily_reachable :: "world \<Rightarrow> bool" where
  sinit: "tabs w = empty_tables \<Longrightarrow> steadily_reachable w"
| scall: "steadily_reachable w \<Longrightarrow> steady t w \<Longrightarrow> store_call K w w' \<Longrightarrow> steadily_reachable w'"
| sother: "steadily_reachable w \<Longrightarrow> tabs w' = tabs w \<Longrightarrow> steadily_reachable w'"

definition quiet :: "int \<Rightarrow> world" where
  "quiet ns = \<lparr>tabs = empty_tables,
     env = \<lparr>clock = (\<lambda>_. ns), faults = (\<lambda>_. None), orders = (\<lambda>_. []), dialect = SQLite,
       collate = (\<lambda>a b. a \<le> b)\<rparr>, tick = 0\<rparr>"

lemma empty_ok: "store_ok empty_tables"
  by (auto simp: store_ok_def schema_ok_def pk_ok_def fk_ok_def rows_ok_def empty_tables_def)

lemma quiet_steady: "steady (ns div 1000000) (quiet ns)"
  by (simp add: steady_def quiet_def)

lemma reachable_schema: "reachable w \<Longrightarrow> schema_ok (tabs w)"
proof (induction rule: reachable.induct)
  case (init w)
  then show ?case using store_okD(1) [OF empty_ok] by simp
next
  case (call w K w')
  then show ?case using call_schema [of K w w'] by (simp add: schema_step_def)
qed simp

section \<open>Theorems\<close>

text \<open>Isolation: a call that is about the keys \<open>K\<close> leaves the rows of every other key, and so every
  key of every other database, as they are, in every environment.\<close>

theorem calls_isolated:
  assumes "store_call K w w'" "kd \<notin> K"
  shows "slice kd (tabs w') = slice kd (tabs w)"
  using call_frame [OF assms(1)] assms(2) unfolding frame_def by blast

theorem calls_isolated_witness:
  "slice (''k'', 1) (tabs (snd (Del [''k'', ''j''] 0 (quiet 7)))) = slice (''k'', 1) (tabs (quiet 7))"
  by (rule calls_isolated, rule call_Del) simp

text \<open>C5. As long as the clock stays within one millisecond during each call, every reachable state keeps
  the type discipline: each key has one of the five types, a string key has its string row, and no
  key has rows in the table of another type. Statements and commits may fail at any point.\<close>

theorem steadily_reachable_ok:
  assumes "steadily_reachable w"
  shows "store_ok (tabs w)"
  using assms
proof (induction rule: steadily_reachable.induct)
  case (sinit w)
  then show ?case using empty_ok by simp
next
  case (scall w t K w')
  then show ?case using call_ok by blast
qed simp

theorem steadily_reachable_ok_witness:
  "store_ok (tabs (snd (SAdd ''s'' 0 [''m''] (quiet 5))))"
  by (rule steadily_reachable_ok, rule steadily_reachable.scall
      [OF steadily_reachable.sinit quiet_steady [of 5]])
    (simp add: quiet_def, rule call_SAdd)

end
