(* ===== verification/Keyspace.thy ===== *)
theory Keyspace
  imports Store_Types
begin

text \<open>
  The abstract specification of the store: a keyspace maps the keys to their expiry and value.

  \<^item> \<open>view t T\<close> is the keyspace that the tables \<open>T\<close> stand for at time \<open>t\<close>: expired keys are absent,
    whether or not their rows have been deleted yet.
  \<^item> \<open>refines t m s\<close>: in a calm world at time \<open>t\<close>, the action \<open>m\<close> gives the result that the
    specification \<open>s\<close> gives on the keyspace, and leaves tables that stand for the keyspace of \<open>s\<close>.
  \<^item> \<open>refines_some\<close> is its relational form, for results that depend on more than the keyspace.
  \<^item> \<open>guard_run\<close> and \<open>refines_guard\<close> treat the prologue (delete if expired, check the type) of the
    typed operations once and for all, \<open>each_run\<close> the loops.
\<close>

section \<open>Keyspaces\<close>

datatype rvalue = RString string | RList "string list" | RHash "string \<rightharpoonup> string"
  | RSet "string set" | RZset "string \<rightharpoonup> float64"

type_synonym keyspace = "key_id \<rightharpoonup> int option \<times> rvalue"

fun kind :: "rvalue \<Rightarrow> string" where
  "kind (RString _) = ''string''"
| "kind (RList _) = ''list''"
| "kind (RHash _) = ''hash''"
| "kind (RSet _) = ''set''"
| "kind (RZset _) = ''zset''"

definition content :: "string \<Rightarrow> tables \<Rightarrow> key_id \<Rightarrow> rvalue" where
  "content ty T kd =
     (if ty = ''string'' then RString (case map_of (stringsT T) kd of None \<Rightarrow> '''' | Some v \<Rightarrow> v)
      else if ty = ''list'' then RList (list_values T kd)
      else if ty = ''hash'' then RHash (\<lambda>f. map_of (hashesT T) (kd, f))
      else if ty = ''set'' then RSet {m. (kd, m) \<in> fst ` set (setsT T)}
      else RZset (\<lambda>m. map_of (zsetsT T) (kd, m)))"

definition view :: "int \<Rightarrow> tables \<Rightarrow> keyspace" where
  "view t T kd =
     (case map_of (keysT T) kd of
        None \<Rightarrow> None
      | Some (ty, ex) \<Rightarrow> if alive t ex then Some (ex, content ty T kd) else None)"

definition refines :: "int \<Rightarrow> 'a act \<Rightarrow> (keyspace \<Rightarrow> (error + 'a) \<times> keyspace) \<Rightarrow> bool" where
  "refines t m s \<longleftrightarrow> (\<forall>w. calm t w \<longrightarrow> store_ok (tabs w) \<longrightarrow>
     (fst (m w), view t (tabs (snd (m w)))) = s (view t (tabs w)))"

text \<open>The relational form, for operations whose result depends on what a keyspace does not show: the
  order of rows, or expired rows that are still in the tables.\<close>

definition refines_some :: "int \<Rightarrow> 'a act \<Rightarrow> (keyspace \<Rightarrow> error + 'a \<Rightarrow> keyspace \<Rightarrow> bool) \<Rightarrow> bool" where
  "refines_some t m R \<longleftrightarrow> (\<forall>w. calm t w \<longrightarrow> store_ok (tabs w) \<longrightarrow>
     R (view t (tabs w)) (fst (m w)) (view t (tabs (snd (m w)))))"

text \<open>The same, where the result also depends on the engine, through the environment.\<close>

definition refines_env :: "int \<Rightarrow> 'a act \<Rightarrow> (environ \<Rightarrow> keyspace \<Rightarrow> error + 'a \<Rightarrow> keyspace \<Rightarrow> bool) \<Rightarrow> bool" where
  "refines_env t m R \<longleftrightarrow> (\<forall>w. calm t w \<longrightarrow> store_ok (tabs w) \<longrightarrow>
     R (env w) (view t (tabs w)) (fst (m w)) (view t (tabs (snd (m w)))))"

text \<open>Binding a value: a value whose expiry is not after \<open>t\<close> is not there.\<close>

definition bind :: "int \<Rightarrow> key_id \<Rightarrow> int option \<Rightarrow> rvalue \<Rightarrow> keyspace \<Rightarrow> keyspace" where
  "bind t kd ex v ks = ks(kd := (if alive t ex then Some (ex, v) else None))"

definition typed_spec :: "string \<Rightarrow> key_id \<Rightarrow> (keyspace \<Rightarrow> (error + 'a) \<times> keyspace) \<Rightarrow>
    keyspace \<Rightarrow> (error + 'a) \<times> keyspace" where
  "typed_spec want kd s ks =
     (case ks kd of
        None \<Rightarrow> s ks
      | Some (ex, v) \<Rightarrow> if kind v = want then s ks else (Inl ErrWrongType, ks))"

definition typed_rel :: "string \<Rightarrow> key_id \<Rightarrow> (keyspace \<Rightarrow> error + 'a \<Rightarrow> keyspace \<Rightarrow> bool) \<Rightarrow>
    keyspace \<Rightarrow> error + 'a \<Rightarrow> keyspace \<Rightarrow> bool" where
  "typed_rel want kd R ks r ks' \<longleftrightarrow>
     (case ks kd of
        None \<Rightarrow> R ks r ks'
      | Some (ex, v) \<Rightarrow> if kind v = want then R ks r ks' else r = Inl ErrWrongType \<and> ks' = ks)"

text \<open>Storing a value under a key that keeps its expiry if it has one.\<close>

definition put :: "key_id \<Rightarrow> rvalue \<Rightarrow> keyspace \<Rightarrow> keyspace" where
  "put kd v ks = ks(kd \<mapsto> (case ks kd of None \<Rightarrow> None | Some (ex, _) \<Rightarrow> ex, v))"

section \<open>Views and tables\<close>

lemma kind_content: "ty \<in> {''string'', ''list'', ''hash'', ''set'', ''zset''} \<Longrightarrow> kind (content ty T kd) = ty"
  by (auto simp: content_def)

lemma content_keysT [simp]: "content ty (T\<lparr>keysT := K\<rparr>) kd = content ty T kd"
  by (simp add: content_def list_values_def)

lemma view_None: "map_of (keysT T) kd = None \<Longrightarrow> view t T kd = None"
  by (simp add: view_def)

lemma filter_fst_lookup: "map_of t k = map_of [r \<leftarrow> t. P (fst r)] k" if "P k"
  using that by (induction t) auto

lemma content_slice: "slice kd T' = slice kd T \<Longrightarrow> content ty T' kd = content ty T kd"
proof -
  assume e: "slice kd T' = slice kd T"
  have s: "map_of (stringsT T') kd = map_of (stringsT T) kd"
    using e filter_fst_lookup [of "\<lambda>k. k = kd" kd "stringsT T"]
      filter_fst_lookup [of "\<lambda>k. k = kd" kd "stringsT T'"] by (simp add: slice_def)
  have l: "list_values T' kd = list_values T kd"
    using e by (simp add: slice_def list_values_def)
  have h: "map_of (hashesT T') (kd, f) = map_of (hashesT T) (kd, f)" for f
    using e filter_fst_lookup [of "\<lambda>k. fst k = kd" "(kd, f)" "hashesT T"]
      filter_fst_lookup [of "\<lambda>k. fst k = kd" "(kd, f)" "hashesT T'"] by (simp add: slice_def)
  have z: "map_of (zsetsT T') (kd, m) = map_of (zsetsT T) (kd, m)" for m
    using e filter_fst_lookup [of "\<lambda>k. fst k = kd" "(kd, m)" "zsetsT T"]
      filter_fst_lookup [of "\<lambda>k. fst k = kd" "(kd, m)" "zsetsT T'"] by (simp add: slice_def)
  have m: "map_of (setsT T') (kd, m) = map_of (setsT T) (kd, m)" for m
    using e filter_fst_lookup [of "\<lambda>k. fst k = kd" "(kd, m)" "setsT T"]
      filter_fst_lookup [of "\<lambda>k. fst k = kd" "(kd, m)" "setsT T'"] by (simp add: slice_def)
  then have "(kd, m) \<in> fst ` set (setsT T') \<longleftrightarrow> (kd, m) \<in> fst ` set (setsT T)" for m
    by (metis map_of_eq_None_iff)
  then show ?thesis by (simp add: content_def s l h z)
qed

lemma view_slice: "slice kd T' = slice kd T \<Longrightarrow> view t T' kd = view t T kd"
  using map_of_slice [of kd T'] map_of_slice [of kd T] content_slice [of kd T' T]
  by (simp add: view_def split: option.split prod.split)

lemma frameD: "frame K T T' \<Longrightarrow> kd \<notin> K \<Longrightarrow> slice kd T' = slice kd T"
  unfolding frame_def by (drule spec, erule (1) mp)

lemma view_frame: "frame {kd} T T' \<Longrightarrow> view t T' = (view t T)(kd := view t T' kd)"
proof (rule ext)
  fix x assume f: "frame {kd} T T'"
  show "view t T' x = ((view t T)(kd := view t T' kd)) x"
    using view_slice [OF frameD [OF f, of x]] by (cases "x = kd") auto
qed

lemma view_dead: "schema_ok T \<Longrightarrow> kd \<in> dead t T \<Longrightarrow> view t T kd = None"
  by (auto simp: dead_map_of view_def)

lemma view_drop_keys:
  "view t (drop_keys G T) = (\<lambda>kd. if kd \<in> G then None else view t T kd)"
proof (rule ext)
  fix kd
  show "view t (drop_keys G T) kd = (if kd \<in> G then None else view t T kd)"
    using view_slice [OF slice_drop_keys, of kd G t T]
    by (cases "kd \<in> G") (simp_all add: view_None map_of_drop_keys)
qed

lemma view_purge: "schema_ok T \<Longrightarrow> view t (purge kd t T) = view t T"
  by (rule ext) (auto simp: purge_def view_drop_keys view_dead)

section \<open>Running typed operations\<close>

lemma calm_nowMs [sql_simps]: "calm t w \<Longrightarrow> nowMs w = (Inr t, bump w)"
  by (simp add: steady_nowMs calm_steady)

lemma calm_scan [sql_simps]: "calm t w \<Longrightarrow> scan_or z (query q) w = (Inr (q (tabs w)), bump w)"
  by (simp add: scan_or_def attempt_def seq_def ret_def calm_query)

lemma calm_seq:
  "calm t w \<Longrightarrow> seq nowMs f w = f t (bump w)"
  "calm t w \<Longrightarrow> seq (query q) g w = g (q (tabs w)) (bump w)"
  "calm t w \<Longrightarrow> seq (query_rows q') k w = k (arrange (orders (env w) (tick w)) (q' (tabs w))) (bump w)"
  "calm t w \<Longrightarrow> seq (scan_or z (query q)) g w = g (q (tabs w)) (bump w)"
  "calm t w \<Longrightarrow> st (tabs w) = Inr (n, T) \<Longrightarrow> seq (exec st) h w = h n ((bump w)\<lparr>tabs := T\<rparr>)"
  "calm t w \<Longrightarrow> st (tabs w) = Inr (n, T) \<Longrightarrow>
     seq (attempt (exec st)) h' w = h' (Inr n) ((bump w)\<lparr>tabs := T\<rparr>)"
  by (simp_all add: seq_def attempt_def calm_nowMs calm_query calm_query_rows calm_scan calm_exec_Inr)

lemma calm_deleteExpired [sql_simps]:
  "calm t w \<Longrightarrow> deleteExpired key db w =
     (Inr (), (bump (bump w))\<lparr>tabs := purge (key, db) t (tabs w)\<rparr>)"
  using deleteExpired_steady [OF calm_steady] by (simp add: calm_def)

lemma calm_keyType [sql_simps]:
  "calm t w \<Longrightarrow> keyType key db w =
     (Inr (case map_of (keysT (tabs w)) (key, db) of
        None \<Rightarrow> '''' | Some (ty, ex) \<Rightarrow> if alive t ex then ty else ''''), bump (bump w))"
  using keyType_steady [OF calm_steady] by (simp add: calm_def)

lemma tabs_same [simp]: "w\<lparr>tabs := tabs w\<rparr> = w" "(bump w)\<lparr>tabs := tabs w\<rparr> = bump w"
  by (simp_all add: bump_def)

lemma bump_tabs [simp]: "bump (w\<lparr>tabs := T\<rparr>) = (bump w)\<lparr>tabs := T\<rparr>"
  by (simp add: bump_def)

lemma calm_begin: "calm t w \<Longrightarrow> exec (\<lambda>T. Inr (0, T)) w = (Inr 0, bump w)"
  using calm_exec_Inr [of t w "\<lambda>T. Inr (0, T)" 0 "tabs w"] by simp

lemma calm_commit:
  "calm t w \<Longrightarrow> body (bump w) = (Inr (Commit a), w2) \<Longrightarrow> calm t w2 \<Longrightarrow>
     transact body w = (Inr a, bump w2)"
  by (simp add: transact_def calm_begin)

lemma calm_abandon:
  "calm t w \<Longrightarrow> body (bump w) = (Inr (Abandon a), w2) \<Longrightarrow>
     transact body w = (Inr a, w2\<lparr>tabs := tabs w\<rparr>)"
  by (simp add: transact_def calm_begin)

lemma calm_abort:
  "calm t w \<Longrightarrow> body (bump w) = (Inl e, w2) \<Longrightarrow> transact body w = (Inl e, w2\<lparr>tabs := tabs w\<rparr>)"
  by (simp add: transact_def calm_begin)

text \<open>The invariant rule for loops: \<open>I rest a w\<close> holds before the elements \<open>rest\<close> are processed.\<close>

lemma each_run:
  assumes step: "\<And>x rest a w. I (x # rest) a w \<Longrightarrow> \<exists>a' w'. f x a w = (Inr a', w') \<and> I rest a' w'"
    and init: "I xs a w"
  shows "\<exists>a' w'. each f xs a w = (Inr a', w') \<and> I [] a' w'"
  using init
proof (induction xs arbitrary: a w)
  case (Cons x rest)
  obtain a1 w1 where "f x a w = (Inr a1, w1)" "I rest a1 w1" using step [OF Cons.prems] by blast
  with Cons.IH show ?case by (simp add: seq_def)
qed (simp add: ret_def)

text \<open>Loops that run one statement for each name and add up the affected rows; \<open>D\<close> are the names done.\<close>

lemma each_counted:
  assumes step: "\<And>x D m w. I D m w \<Longrightarrow> \<exists>n w'. exec (st x) w = (Inr n, w') \<and> I (insert x D) (m + int n) w'"
    and init: "I {} 0 w"
  shows "\<exists>m w'. each (\<lambda>x m. seq (exec (st x)) (\<lambda>n. ret (m + int n))) xs 0 w = (Inr m, w') \<and> I (set xs) m w'"
proof -
  let ?f = "\<lambda>x m. seq (exec (st x)) (\<lambda>n. ret (m + int n))"
  let ?J = "\<lambda>rest m w. \<exists>D. set xs = D \<union> set rest \<and> I D m w"
  have "\<exists>m w'. each ?f xs 0 w = (Inr m, w') \<and> ?J [] m w'"
  proof (rule each_run [where I = ?J])
    fix x rest m w
    assume "?J (x # rest) m w"
    then obtain D where D: "set xs = D \<union> set (x # rest)" "I D m w" by blast
    obtain n w' where "exec (st x) w = (Inr n, w')" "I (insert x D) (m + int n) w'"
      using step [OF D(2), of x] by (elim exE conjE)
    moreover have "set xs = insert x D \<union> set rest" using D(1) by auto
    ultimately have "?f x m w = (Inr (m + int n), w') \<and> ?J rest (m + int n) w'"
      by (intro conjI exI [of _ "insert x D"]) (simp_all add: seq_def ret_def)
    then show "\<exists>m' w'. ?f x m w = (Inr m', w') \<and> ?J rest m' w'" by (intro exI)
  qed (use init in \<open>intro exI [of _ "{}"], simp\<close>)
  then show ?thesis by auto
qed

text \<open>After the prologue the key is absent or alive and of the wanted type, and so is its view.\<close>

definition checked :: "int \<Rightarrow> string \<Rightarrow> key_id \<Rightarrow> world \<Rightarrow> bool" where
  "checked t want kd w \<longleftrightarrow> calm t w \<and> store_ok (tabs w) \<and>
     (case map_of (keysT (tabs w)) kd of None \<Rightarrow> True | Some (ty, ex) \<Rightarrow> ty = want \<and> alive t ex)"

lemma guard_run:
  fixes rest :: "'a act"
  assumes c: "calm t w" and ok: "store_ok (tabs w)"
  obtains
    (refused) ex v w1 where "view t (tabs w) (key, db) = Some (ex, v)" "kind v \<noteq> want"
      "seq (deleteExpired key db) (\<lambda>_. seq (assertType key db want) (\<lambda>_. rest)) w = (Inl ErrWrongType, w1)"
      "calm t w1" "store_ok (tabs w1)" "view t (tabs w1) = view t (tabs w)"
  | (passed) w1 where "checked t want (key, db) w1" "view t (tabs w1) = view t (tabs w)"
      "\<And>ex v. view t (tabs w) (key, db) = Some (ex, v) \<Longrightarrow> kind v = want"
      "seq (deleteExpired key db) (\<lambda>_. seq (assertType key db want) (\<lambda>_. rest)) w = rest w1"
      "env w1 = env w"
proof -
  define T where "T = purge (key, db) t (tabs w)"
  define w1 where "w1 = (bump (bump (bump (bump w))))\<lparr>tabs := T\<rparr>"
  have okT: "store_ok T" using ok by (simp add: T_def store_ok_purge)
  have c1: "calm t ((bump (bump w))\<lparr>tabs := T\<rparr>)" using c by simp
  have v: "view t T = view t (tabs w)" using ok by (simp add: T_def view_purge store_okD(1))
  have al: "alive t ex" if "map_of (keysT T) (key, db) = Some (ty, ex)" for ty ex
    using purge_not_dead [OF store_okD(1) [OF ok], of "(key, db)" t] dead_map_of [OF store_okD(1) [OF okT]] that
    unfolding T_def by blast
  have run: "seq (deleteExpired key db) (\<lambda>_. seq (assertType key db want) (\<lambda>_. rest)) w =
      (if \<exists>ty ex. map_of (keysT T) (key, db) = Some (ty, ex) \<and> ty \<noteq> want
      then (Inl ErrWrongType, w1) else rest w1)"
    unfolding assertType_def
    using okT rows_ok_type [OF store_okD(2) [OF okT]] al c
    by (auto simp: seq_def calm_deleteExpired [OF c] T_def [symmetric] w1_def
        calm_keyType [OF c1] fail_def ret_def split: option.splits)
  have w1: "calm t w1" "tabs w1 = T" "env w1 = env w" using c by (simp_all add: w1_def)
  show ?thesis
  proof (cases "map_of (keysT T) (key, db)")
    case None
    then show ?thesis
      using passed [of w1] run w1 okT v view_None [of T "(key, db)" t] by (simp add: checked_def)
  next
    case (Some row)
    obtain ty ex where row: "row = (ty, ex)" by (cases row)
    have k: "kind (content ty T (key, db)) = ty"
      using store_okD(2) [OF okT, of "(key, db)"] Some row by (auto simp: rows_ok_def intro!: kind_content)
    have vk: "view t (tabs w) (key, db) = Some (ex, content ty T (key, db))"
      using Some row al by (simp add: view_def flip: v)
    show ?thesis
      using refused [OF vk] passed [of w1] run w1 okT v vk k Some row al
      by (cases "ty = want") (simp_all add: checked_def)
  qed
qed

lemma refines_env_guard:
  assumes "\<And>w. checked t want (key, db) w \<Longrightarrow>
    R (env w) (view t (tabs w)) (fst (rest w)) (view t (tabs (snd (rest w))))"
  shows "refines_env t (seq (deleteExpired key db) (\<lambda>_. seq (assertType key db want) (\<lambda>_. rest)))
    (\<lambda>e. typed_rel want (key, db) (R e))"
  unfolding refines_env_def
proof (intro allI impI)
  fix w assume "calm t w" "store_ok (tabs w)"
  then show "typed_rel want (key, db) (R (env w)) (view t (tabs w))
      (fst (seq (deleteExpired key db) (\<lambda>_. seq (assertType key db want) (\<lambda>_. rest)) w))
      (view t (tabs (snd (seq (deleteExpired key db) (\<lambda>_. seq (assertType key db want) (\<lambda>_. rest)) w))))"
  proof (cases rule: guard_run [of t w key db want rest])
    case (passed w1)
    then show ?thesis using assms [OF passed(1)] by (auto simp: typed_rel_def split: option.split)
  qed (simp add: typed_rel_def)
qed

lemma refines_some_guard:
  assumes "\<And>w. checked t want (key, db) w \<Longrightarrow>
    R (view t (tabs w)) (fst (rest w)) (view t (tabs (snd (rest w))))"
  shows "refines_some t (seq (deleteExpired key db) (\<lambda>_. seq (assertType key db want) (\<lambda>_. rest)))
    (typed_rel want (key, db) R)"
  using refines_env_guard [of t want key db "\<lambda>e. R" rest] assms by (simp add: refines_env_def refines_some_def)

lemma refines_guard:
  assumes "\<And>w. checked t want (key, db) w \<Longrightarrow>
    (fst (rest w), view t (tabs (snd (rest w)))) = s (view t (tabs w))"
  shows "refines t (seq (deleteExpired key db) (\<lambda>_. seq (assertType key db want) (\<lambda>_. rest)))
    (typed_spec want (key, db) s)"
proof -
  have "typed_rel want (key, db) (\<lambda>ks r ks'. (r, ks') = s ks) ks r ks' \<longleftrightarrow> (r, ks') = typed_spec want (key, db) s ks"
    for ks r ks' by (simp add: typed_rel_def typed_spec_def split: option.split)
  then show ?thesis
    using refines_some_guard [of t want key db "\<lambda>ks r ks'. (r, ks') = s ks" rest] assms
    by (simp add: refines_some_def refines_def)
qed

lemma checkedD:
  assumes "checked t want kd w"
  shows "calm t w" "store_ok (tabs w)" "schema_ok (tabs w)" "rows_ok (tabs w) kd"
    "of_type want kd (tabs w)"
  using assms store_okD by (auto simp: checked_def of_type_def split: option.splits)

lemma checked_view:
  assumes "checked t want kd w"
  shows "view t (tabs w) kd = (case map_of (keysT (tabs w)) kd of
      None \<Rightarrow> None | Some (ty, ex) \<Rightarrow> Some (ex, content want (tabs w) kd))"
  using assms by (auto simp: checked_def view_def split: option.splits)

text \<open>Operations that read the value of a key, in one query, or as rows in an arbitrary order.\<close>

definition read_spec :: "(keyspace \<Rightarrow> 'a) \<Rightarrow> keyspace \<Rightarrow> (error + 'a) \<times> keyspace" where
  "read_spec f ks = (Inr (f ks), ks)"

definition read_rel :: "(keyspace \<Rightarrow> 'a \<Rightarrow> bool) \<Rightarrow> keyspace \<Rightarrow> error + 'a \<Rightarrow> keyspace \<Rightarrow> bool" where
  "read_rel R ks r ks' \<longleftrightarrow> ks' = ks \<and> (\<exists>x. r = Inr x \<and> R ks x)"

lemma refines_read:
  assumes "\<And>w. checked t want (key, db) w \<Longrightarrow> q (tabs w) = f (view t (tabs w))"
  shows "refines t (seq (deleteExpired key db) (\<lambda>_. seq (assertType key db want) (\<lambda>_. query q)))
    (typed_spec want (key, db) (read_spec f))"
  by (rule refines_guard, frule checkedD(1)) (simp add: calm_query read_spec_def assms)

lemma refines_rows:
  assumes "\<And>w p. checked t want (key, db) w \<Longrightarrow> R (view t (tabs w)) (f (arrange p (q (tabs w))))"
  shows "refines_some t (seq (deleteExpired key db) (\<lambda>_. seq (assertType key db want) (\<lambda>_.
      seq (query_rows q) (\<lambda>rows. ret (f rows))))) (typed_rel want (key, db) (read_rel R))"
  by (rule refines_some_guard, frule checkedD(1)) (simp add: calm_seq ret_def read_rel_def assms)

lemma query_map: "seq (query q) (\<lambda>x. ret (g x)) = query (\<lambda>T. g (q T))"
  by (rule ext) (simp add: seq_def query_def ret_def split: option.split)

lemma query_rows_ret: "query_rows q = seq (query_rows q) (\<lambda>rows. ret (id rows))"
  by (simp add: seq_ret_right)

lemma frame_stmtD: "stmt_keeps (frame K) st \<Longrightarrow> st T = Inr (n, T') \<Longrightarrow> frame K T T'"
  by (simp add: stmt_keeps_def)

lemmas calm_simps = seq_def ret_def fail_def calm_query calm_query_rows calm_nowMs calm_scan
  calm_exec_Inr calm_commit calm_abandon calm_abort

lemma has_key_map_of: "has_key T kd \<longleftrightarrow> map_of (keysT T) kd \<noteq> None"
  by (auto simp: has_key_def map_of_eq_None_iff)

section \<open>Writing the rows of a key\<close>

lemma length_filter_key:
  "distinct (map fst K) \<Longrightarrow> length [r \<leftarrow> K. fst r = kd] = (if map_of K kd = None then 0 else 1)"
  by (induction K) (auto simp: map_of_eq_None_iff filter_empty_conv image_iff)

lemma map_of_filter_ne: "map_of [r \<leftarrow> K. fst r \<noteq> k] = (map_of K)(k := None)"
  by (induction K) auto

text \<open>Replacing the value of a key, if it is there.\<close>

definition alter :: "key_id \<Rightarrow> rvalue \<Rightarrow> keyspace \<Rightarrow> keyspace" where
  "alter kd v ks = (case ks kd of None \<Rightarrow> ks | Some (ex, _) \<Rightarrow> ks(kd \<mapsto> (ex, v)))"

lemma alter_put [simp]: "alter kd v (put kd v' ks) = put kd v ks"
  by (simp add: alter_def put_def)

lemma put_at [simp]: "put kd v ks kd = Some (case ks kd of None \<Rightarrow> None | Some (ex, _) \<Rightarrow> ex, v)"
  by (simp add: put_def)

lemma view_alter:
  assumes "checked t want kd w" "frame {kd} (tabs w) T'" "keysT T' = keysT (tabs w)"
  shows "view t T' = alter kd (content want T' kd) (view t (tabs w))"
proof -
  have "view t T' kd = (case view t (tabs w) kd of None \<Rightarrow> None | Some (ex, _) \<Rightarrow> Some (ex, content want T' kd))"
    using assms(1,3) by (auto simp: checked_def view_def split: option.splits)
  with view_frame [OF assms(2), of t] show ?thesis
    by (cases "view t (tabs w) kd") (auto simp: alter_def)
qed

lemma checked_absent:
  assumes "checked t want kd w" "map_of (keysT (tabs w)) kd = None"
  shows "[r \<leftarrow> listsT (tabs w). fst (fst r) = kd] = []" "[r \<leftarrow> hashesT (tabs w). fst (fst r) = kd] = []"
    "[r \<leftarrow> setsT (tabs w). fst (fst r) = kd] = []" "[r \<leftarrow> zsetsT (tabs w). fst (fst r) = kd] = []"
  using no_rows [OF checkedD(3) [OF assms(1)] assms(2)] by blast+

text \<open>Creating the key of a value if it is not there.\<close>

lemma ensure_run:
  assumes "checked t want kd w" "want \<in> {''list'', ''hash'', ''set'', ''zset''}"
  obtains n w1 where "exec (insert_key_or_nothing kd want) w = (Inr n, w1)" "checked t want kd w1"
    "has_key (tabs w1) kd" "view t (tabs w1) = put kd (content want (tabs w) kd) (view t (tabs w))"
    "content want (tabs w1) kd = content want (tabs w) kd" "env w1 = env w"
proof -
  obtain n T where st: "insert_key_or_nothing kd want (tabs w) = Inr (n, T)"
    by (cases "has_key (tabs w) kd") (auto simp: insert_key_or_nothing_def)
  let ?w1 = "(bump w)\<lparr>tabs := T\<rparr>"
  have run: "exec (insert_key_or_nothing kd want) w = (Inr n, ?w1)"
    using calm_exec_Inr [of t w "insert_key_or_nothing kd want"] checkedD(1) [OF assms(1)] st by simp
  have cont: "content want T kd = content want (tabs w) kd"
    using st by (cases "has_key (tabs w) kd") (auto simp: insert_key_or_nothing_def)
  have fr: "frame {kd} (tabs w) T" using frame_stmtD [OF frame_one_key(3) st] .
  have ok: "store_ok T"
    using typed_new_key [OF assms(2), of kd] st checkedD(2,5) [OF assms(1)]
    unfolding stmt_keeps_def typed_step_def by blast
  have "map_of (keysT T) kd = Some (want, case view t (tabs w) kd of None \<Rightarrow> None | Some (ex, _) \<Rightarrow> ex) \<and>
    alive t (case view t (tabs w) kd of None \<Rightarrow> None | Some (ex, _) \<Rightarrow> ex)"
  proof (cases "map_of (keysT (tabs w)) kd")
    case None
    then show ?thesis
      using st view_None [of "tabs w" kd t]
      by (auto simp: insert_key_or_nothing_def has_key_map_of map_add_def alive_def)
  next
    case (Some row)
    then show ?thesis
      using st assms(1) checked_view [OF assms(1)]
      by (cases row) (simp add: insert_key_or_nothing_def has_key_map_of checked_def)
  qed
  then have T: "map_of (keysT T) kd = Some (want, case view t (tabs w) kd of None \<Rightarrow> None | Some (ex, _) \<Rightarrow> ex)"
    and al: "alive t (case view t (tabs w) kd of None \<Rightarrow> None | Some (ex, _) \<Rightarrow> ex)" by simp_all
  have ch: "checked t want kd ?w1" using T al ok checkedD(1) [OF assms(1)] by (simp add: checked_def)
  have "view t T kd = Some (case view t (tabs w) kd of None \<Rightarrow> None | Some (ex, _) \<Rightarrow> ex, content want T kd)"
    using T al by (simp add: view_def)
  then have "view t T = put kd (content want (tabs w) kd) (view t (tabs w))"
    using view_frame [OF fr, of t] by (simp add: put_def cont)
  then show ?thesis
    using that [OF run ch] T cont by (simp add: has_key_map_of)
qed

end
