(* ===== verification/Refine_Strings.thy ===== *)
theory Refine_Strings
  imports Keyspace
begin

text \<open>
  The string operations refine the keyspace specification: \<open>Get\<close>, \<open>Set\<close> with its options,
  \<open>IncrBy\<close> with the wrap-around of Go's integers and the error for a value that is not a number,
  \<open>Append\<close> and \<open>StrLen\<close>.
\<close>

section \<open>Specifications\<close>

definition get_spec :: "key_id \<Rightarrow> keyspace \<Rightarrow> (error + string \<times> bool) \<times> keyspace" where
  "get_spec kd ks =
     (Inr (case ks kd of Some (_, RString v) \<Rightarrow> (v, True) | _ \<Rightarrow> ('''', False)), ks)"

definition set_spec :: "int \<Rightarrow> key_id \<Rightarrow> string \<Rightarrow> SetOptions \<Rightarrow> keyspace \<Rightarrow> (error + bool) \<times> keyspace" where
  "set_spec t kd v opts ks =
     (if NX opts \<and> ks kd \<noteq> None \<or> XX opts \<and> ks kd = None then (Inr False, ks)
      else (Inr True, bind t kd (ExpiresAt opts) (RString v) ks))"

definition incr_spec :: "int \<Rightarrow> key_id \<Rightarrow> int \<Rightarrow> keyspace \<Rightarrow> (error + int) \<times> keyspace" where
  "incr_spec t kd delta ks =
     (case ks kd of
        Some (ex, RString s) \<Rightarrow>
          (case ParseInt s of
             None \<Rightarrow> (Inl (ErrText ''ERR value is not an integer or out of range''), ks)
           | Some n \<Rightarrow> (Inr (wrap64 (n + delta)),
                       bind t kd ex (RString (FormatInt (wrap64 (n + delta)))) ks))
      | _ \<Rightarrow> (Inr (wrap64 delta), bind t kd None (RString (FormatInt (wrap64 delta))) ks))"

definition append_spec :: "int \<Rightarrow> key_id \<Rightarrow> string \<Rightarrow> keyspace \<Rightarrow> (error + int) \<times> keyspace" where
  "append_spec t kd suffix ks =
     (case ks kd of
        Some (ex, RString s) \<Rightarrow>
          (Inr (int (length s + length suffix)), bind t kd ex (RString (s @ suffix)) ks)
      | _ \<Rightarrow> (Inr (int (length suffix)), bind t kd None (RString suffix) ks))"

definition strlen_spec :: "key_id \<Rightarrow> keyspace \<Rightarrow> (error + int) \<times> keyspace" where
  "strlen_spec kd ks =
     (Inr (case ks kd of Some (_, RString v) \<Rightarrow> int (length v) | _ \<Rightarrow> 0), ks)"

section \<open>Lemmas\<close>

lemma checked_string:
  assumes "checked t ''string'' kd w"
  obtains (absent) "calm t w" "map_of (keysT (tabs w)) kd = None" "map_of (stringsT (tabs w)) kd = None"
      "view t (tabs w) kd = None"
    | (present) ex v where "calm t w" "map_of (keysT (tabs w)) kd = Some (''string'', ex)" "alive t ex"
      "map_of (stringsT (tabs w)) kd = Some v" "view t (tabs w) kd = Some (ex, RString v)"
proof (cases "map_of (keysT (tabs w)) kd")
  case None
  then have "map_of (stringsT (tabs w)) kd = None"
    using no_rows(1) [OF checkedD(3) [OF assms]] row_of_map_of [of kd "stringsT (tabs w)"] by auto
  with None show ?thesis using absent checkedD(1) [OF assms] view_None by simp
next
  case (Some row)
  obtain ty ex where row: "row = (ty, ex)" by (cases row)
  have ty: "ty = ''string''" "alive t ex"
    using assms Some row by (auto simp: checked_def)
  obtain v where "map_of (stringsT (tabs w)) kd = Some v"
    using checkedD(4) [OF assms] Some row ty row_of_map_of [of kd "stringsT (tabs w)"]
    by (auto simp: rows_ok_def)
  then show ?thesis
    using present checkedD(1) [OF assms] Some row ty checked_view [OF assms] by (simp add: content_def)
qed

lemma view_string_write:
  assumes "frame {kd} T T'" "map_of (keysT T') kd = Some (''string'', ex)" "map_of (stringsT T') kd = Some v"
  shows "view t T' = bind t kd ex (RString v) (view t T)"
proof -
  have "view t T' kd = (if alive t ex then Some (ex, RString v) else None)"
    using assms(2,3) by (simp add: view_def content_def)
  with view_frame [OF assms(1), of t] show ?thesis by (simp add: bind_def)
qed

lemma frame_string_put:
  "frame {kd} T (T\<lparr>keysT := AList.update kd r (keysT T), stringsT := AList.update kd v (stringsT T)\<rparr>)"
  "frame {kd} T (T\<lparr>keysT := AList.update kd r (keysT T), stringsT := stringsT T @ [(kd, v)]\<rparr>)"
  "frame {kd} T (T\<lparr>stringsT := update_rows kd f (stringsT T)\<rparr>)"
  by (auto simp: frame_def slice_def filter_other_key)

lemma view_put_string:
  "view t (T\<lparr>keysT := AList.update kd (''string'', ex) (keysT T), stringsT := AList.update kd v (stringsT T)\<rparr>)
     = bind t kd ex (RString v) (view t T)"
  by (rule view_string_write [OF frame_string_put(1)]) (simp_all add: update_conv')

lemma view_new_string:
  "map_of (stringsT T) kd = None \<Longrightarrow>
   view t (T\<lparr>keysT := AList.update kd (''string'', ex) (keysT T), stringsT := stringsT T @ [(kd, v)]\<rparr>)
     = bind t kd ex (RString v) (view t T)"
  by (rule view_string_write [OF frame_string_put(2)]) (simp_all add: update_conv' map_add_def)

lemma view_update_string:
  "map_of (keysT T) kd = Some (''string'', ex) \<Longrightarrow> map_of (stringsT T) kd = Some v0 \<Longrightarrow>
   view t (T\<lparr>stringsT := update_rows kd (\<lambda>_. v) (stringsT T)\<rparr>) = bind t kd ex (RString v) (view t T)"
  by (rule view_string_write [OF frame_string_put(3)]) simp_all

section \<open>Refinement\<close>

lemma refines_Get: "refines t (Get key db) (typed_spec ''string'' (key, db) (get_spec (key, db)))"
  unfolding Get_def
  by (rule refines_guard, erule checked_string) (simp_all add: get_spec_def calm_simps)

lemma refines_StrLen: "refines t (StrLen key db) (typed_spec ''string'' (key, db) (strlen_spec (key, db)))"
  unfolding StrLen_def
  by (rule refines_guard, erule checked_string) (simp_all add: strlen_spec_def calm_simps)

text \<open>Writing a string in a calm world.\<close>

lemma run_set_string:
  assumes "calm t w"
  shows "seq (upsertKey key db ''string'' ex) (\<lambda>_. seq (exec (upsert_string (key, db) v)) (\<lambda>_. ret r)) w =
    (Inr r, (bump (bump w))\<lparr>tabs := (tabs w)\<lparr>keysT := AList.update (key, db) (''string'', ex) (keysT (tabs w)),
       stringsT := AList.update (key, db) v (stringsT (tabs w))\<rparr>\<rparr>)"
  using assms
  by (cases ex) (simp_all add: upsertKey_def calm_simps upsert_key_row_def upsert_string_def
      has_key_map_of update_conv')

lemma run_new_string:
  assumes "calm t w" "map_of (keysT (tabs w)) (key, db) = None" "map_of (stringsT (tabs w)) (key, db) = None"
  shows "seq (exec (upsert_key_type (key, db) ''string'')) (\<lambda>_.
      seq (exec (insert_string (key, db) v)) (\<lambda>_. ret r)) w =
    (Inr r, (bump (bump w))\<lparr>tabs := (tabs w)\<lparr>keysT := AList.update (key, db) (''string'', None) (keysT (tabs w)),
       stringsT := stringsT (tabs w) @ [((key, db), v)]\<rparr>\<rparr>)"
    and "seq (attempt (exec (upsert_key_type (key, db) ''string''))) (\<lambda>_.
      seq (exec (insert_string (key, db) v)) (\<lambda>_. ret r)) w =
    (Inr r, (bump (bump w))\<lparr>tabs := (tabs w)\<lparr>keysT := AList.update (key, db) (''string'', None) (keysT (tabs w)),
       stringsT := stringsT (tabs w) @ [((key, db), v)]\<rparr>\<rparr>)"
  using assms
  by (simp_all add: calm_seq ret_def upsert_key_type_def insert_string_def has_key_map_of update_conv'
      map_of_eq_None_iff [of "stringsT _", symmetric])

lemma run_update_string:
  assumes "calm t w"
  shows "seq (exec (update_string (key, db) v)) (\<lambda>_. ret r) w =
    (Inr r, (bump w)\<lparr>tabs := (tabs w)\<lparr>stringsT := update_rows (key, db) (\<lambda>_. v) (stringsT (tabs w))\<rparr>\<rparr>)"
  using assms by (simp add: calm_simps update_string_def)

lemma count_alive_view:
  assumes "schema_ok T"
  shows "count_alive T kd t = 0 \<longleftrightarrow> view t T kd = None"
proof -
  have "distinct (map fst (keysT T))" using assms by (simp add: schema_ok_def pk_ok_def)
  then have "(kd, ty, ex) \<in> set (keysT T) \<longleftrightarrow> map_of (keysT T) kd = Some (ty, ex)" for ty ex
    by (simp add: map_of_eq_Some_iff)
  then show ?thesis
    by (auto simp: count_alive_def filter_empty_conv view_def split: option.splits if_splits)
qed

lemma refines_Set:
  "refines t (Set key db v opts) (typed_spec ''string'' (key, db) (set_spec t (key, db) v opts))"
  unfolding Set_def
proof (rule refines_guard, goal_cases)
  case (1 w)
  let ?T = "tabs w" and ?kd = "(key, db)"
  let ?T' = "?T\<lparr>keysT := AList.update ?kd (''string'', ExpiresAt opts) (keysT ?T),
      stringsT := AList.update ?kd v (stringsT ?T)\<rparr>"
  define body where "body = seq nowMs (\<lambda>t. seq (scan_or 0 (query (\<lambda>T. count_alive T (key, db) t)))
      (\<lambda>exists. if NX opts \<and> exists > 0 then ret (Abandon False)
        else if XX opts \<and> exists = 0 then ret (Abandon False)
        else seq (upsertKey key db ''string'' (ExpiresAt opts)) (\<lambda>_.
          seq (exec (upsert_string (key, db) v)) (\<lambda>_. ret (Commit True)))))"
  note c = checkedD(1) [OF 1] and n = count_alive_view [OF checkedD(3) [OF 1], of ?kd t]
  have run: "body (bump w) = (if NX opts \<and> view t ?T ?kd \<noteq> None \<or> XX opts \<and> view t ?T ?kd = None
      then (Inr (Abandon False), bump (bump (bump w)))
      else (Inr (Commit True), (bump (bump (bump (bump (bump w)))))\<lparr>tabs := ?T'\<rparr>))"
    using c by (simp add: body_def calm_seq run_set_string ret_def flip: n)
  have "(fst (transact body w), view t (tabs (snd (transact body w)))) =
      set_spec t ?kd v opts (view t ?T)"
  proof (cases "NX opts \<and> view t ?T ?kd \<noteq> None \<or> XX opts \<and> view t ?T ?kd = None")
    case True
    then have "body (bump w) = (Inr (Abandon False), bump (bump (bump w)))" by (simp only: run if_True)
    from calm_abandon [of t w body False, OF c this] True show ?thesis by (simp add: set_spec_def)
  next
    case False
    then have "body (bump w) = (Inr (Commit True), (bump (bump (bump (bump (bump w)))))\<lparr>tabs := ?T'\<rparr>)"
      by (simp only: run if_False)
    from calm_commit [of t w body True, OF c this] c False show ?thesis
      by (simp add: set_spec_def view_put_string)
  qed
  then show ?case unfolding body_def .
qed

lemma refines_IncrBy:
  "refines t (IncrBy key db delta) (typed_spec ''string'' (key, db) (incr_spec t (key, db) delta))"
  unfolding IncrBy_def Let_def
proof (rule refines_guard, erule checked_string, goal_cases)
  case (1 w)
  note c = 1(1)
  show ?case
    using 1 by (simp add: incr_spec_def calm_seq run_new_string calm_commit [OF c] view_new_string)
next
  case (2 w ex v)
  note c = 2(1)
  show ?case
    using 2 by (cases "ParseInt v") (simp_all add: incr_spec_def calm_seq run_update_string
        calm_commit [OF c] calm_abort [OF c] fail_def view_update_string)
qed

lemma refines_Append:
  "refines t (Append key db suffix) (typed_spec ''string'' (key, db) (append_spec t (key, db) suffix))"
  unfolding Append_def Let_def
proof (rule refines_guard, erule checked_string, goal_cases)
  case (1 w)
  note c = 1(1)
  show ?case
    using 1 by (simp add: append_spec_def calm_seq run_new_string calm_commit [OF c] view_new_string)
next
  case (2 w ex v)
  note c = 2(1)
  show ?case
    using 2 by (simp add: append_spec_def calm_seq run_update_string calm_commit [OF c] view_update_string)
qed

text \<open>C6. The string operations implement the keyspace specification: in a calm world at time \<open>t\<close>, with
  valid tables, each gives the specified result and leaves the specified keyspace. A key of another
  type gives the type error and changes nothing; \<open>Set\<close> respects NX and XX and replaces value and
  expiry; \<open>IncrBy\<close> adds modulo 2 to the power 64, keeps the expiry, and refuses a value that is not a
  64-bit decimal number; \<open>Append\<close> keeps the expiry.\<close>

theorem string_ops_refine:
  "refines t (Get key db) (typed_spec ''string'' (key, db) (get_spec (key, db))) \<and>
   refines t (Set key db v opts) (typed_spec ''string'' (key, db) (set_spec t (key, db) v opts)) \<and>
   refines t (IncrBy key db delta) (typed_spec ''string'' (key, db) (incr_spec t (key, db) delta)) \<and>
   refines t (Append key db suffix) (typed_spec ''string'' (key, db) (append_spec t (key, db) suffix)) \<and>
   refines t (StrLen key db) (typed_spec ''string'' (key, db) (strlen_spec (key, db)))"
  by (simp add: refines_Get refines_Set refines_IncrBy refines_Append refines_StrLen)

end
