(* ===== verification/Refine_Lists.thy ===== *)
theory Refine_Lists
  imports Keyspace
begin

text \<open>
  The list operations refine the keyspace specification: the rows that an update rewrites stand for
  exactly the new list, an emptied list disappears, and every operation is the list function it is
  meant to be.
\<close>

section \<open>Specifications\<close>

definition lget :: "keyspace \<Rightarrow> key_id \<Rightarrow> string list" where
  "lget ks kd = (case ks kd of Some (_, RList xs) \<Rightarrow> xs | _ \<Rightarrow> [])"

text \<open>Storing a list: the expiry stays, the empty list is no key.\<close>

definition lput :: "key_id \<Rightarrow> string list \<Rightarrow> keyspace \<Rightarrow> keyspace" where
  "lput kd xs ks =
     (if xs = [] then ks(kd := None)
      else ks(kd \<mapsto> (case ks kd of None \<Rightarrow> None | Some (ex, _) \<Rightarrow> ex, RList xs)))"

definition push_spec :: "key_id \<Rightarrow> (string list \<Rightarrow> string list) \<Rightarrow> keyspace \<Rightarrow> (error + int) \<times> keyspace" where
  "push_spec kd f ks = (Inr (int (length (f (lget ks kd)))), lput kd (f (lget ks kd)) ks)"

definition pop_spec :: "key_id \<Rightarrow> (string list \<Rightarrow> string) \<Rightarrow> (string list \<Rightarrow> string list) \<Rightarrow>
    keyspace \<Rightarrow> (error + string \<times> bool) \<times> keyspace" where
  "pop_spec kd get rest ks =
     (let xs = lget ks kd in
      if xs = [] then (Inr ('''', False), ks) else (Inr (get xs, True), lput kd (rest xs) ks))"

definition lread_spec :: "key_id \<Rightarrow> (string list \<Rightarrow> 'a) \<Rightarrow> keyspace \<Rightarrow> (error + 'a) \<times> keyspace" where
  "lread_spec kd f ks = (Inr (f (lget ks kd)), ks)"

text \<open>A Redis index: negative ones count from the end.\<close>

definition at_index :: "int \<Rightarrow> 'a list \<Rightarrow> nat option" where
  "at_index i xs =
     (let j = (if i < 0 then int (length xs) + i else i)
      in if 0 \<le> j \<and> j < int (length xs) then Some (nat j) else None)"

definition lindex_fun :: "int \<Rightarrow> string list \<Rightarrow> string \<times> bool" where
  "lindex_fun i xs = (case at_index i xs of None \<Rightarrow> ('''', False) | Some j \<Rightarrow> (xs ! j, True))"

definition lset_spec :: "key_id \<Rightarrow> int \<Rightarrow> string \<Rightarrow> keyspace \<Rightarrow> (error + unit) \<times> keyspace" where
  "lset_spec kd i v ks =
     (case at_index i (lget ks kd) of
        None \<Rightarrow> (Inl (ErrText ''ERR index out of range''), ks)
      | Some j \<Rightarrow> (Inr (), lput kd ((lget ks kd)[j := v]) ks))"

text \<open>Inserting next to the first occurrence of the pivot.\<close>

definition linsert_spec :: "key_id \<Rightarrow> bool \<Rightarrow> string \<Rightarrow> string \<Rightarrow> keyspace \<Rightarrow> (error + int) \<times> keyspace" where
  "linsert_spec kd before pivot v ks =
     (let xs = lget ks kd; pre = takeWhile (\<lambda>x. x \<noteq> pivot) xs; post = dropWhile (\<lambda>x. x \<noteq> pivot) xs in
      if post = [] then (Inr (- 1), ks)
      else let ys = (if before then pre @ v # post else pre @ pivot # v # tl post) in
        (Inr (int (length xs) + 1), lput kd ys ks))"

text \<open>Removing the first \<open>n\<close> occurrences of a value.\<close>

fun remove_n :: "nat \<Rightarrow> 'a \<Rightarrow> 'a list \<Rightarrow> 'a list" where
  "remove_n n x [] = []"
| "remove_n 0 x ys = ys"
| "remove_n (Suc n) x (y # ys) = (if y = x then remove_n n x ys else y # remove_n (Suc n) x ys)"

definition lrem_fun :: "int \<Rightarrow> string \<Rightarrow> string list \<Rightarrow> string list" where
  "lrem_fun cnt x xs =
     (if cnt = 0 then removeAll x xs
      else if cnt > 0 then remove_n (nat cnt) x xs
      else rev (remove_n (nat (- cnt)) x (rev xs)))"

definition lrem_spec :: "key_id \<Rightarrow> int \<Rightarrow> string \<Rightarrow> keyspace \<Rightarrow> (error + int) \<times> keyspace" where
  "lrem_spec kd cnt x ks =
     (let xs = lget ks kd; ys = lrem_fun cnt x xs in
      (Inr (int (length xs) - int (length ys)), lput kd ys ks))"

section \<open>Rewriting the rows\<close>

definition list_rows :: "key_id \<Rightarrow> nat \<Rightarrow> string list \<Rightarrow> ((key_id \<times> int) \<times> string) list" where
  "list_rows kd n vs = map (\<lambda>(i, v). ((kd, int i), v)) (List.enumerate n vs)"

lemma list_rows_Nil [simp]: "list_rows kd n [] = []"
  by (simp add: list_rows_def)

lemma list_rows_Cons: "list_rows kd n (v # vs) = ((kd, int n), v) # list_rows kd (Suc n) vs"
  by (simp add: list_rows_def)

lemma run_insert_rows:
  assumes "calm t w" "has_key (tabs w) kd"
    and "\<forall>r \<in> set (listsT (tabs w)). fst (fst r) = kd \<longrightarrow> snd (fst r) < int n"
  shows "\<exists>w'. each (\<lambda>(i, v) _. seq (exec (insert_list_row kd (int i) v)) (\<lambda>_. ret ())) (List.enumerate n vs) () w
      = (Inr (), w') \<and> calm t w' \<and> tabs w' = (tabs w)\<lparr>listsT := listsT (tabs w) @ list_rows kd n vs\<rparr>"
  using assms
proof (induction vs arbitrary: n w)
  case Nil
  then show ?case by (simp add: ret_def)
next
  case (Cons v vs)
  let ?T = "(tabs w)\<lparr>listsT := listsT (tabs w) @ [((kd, int n), v)]\<rparr>"
  have "(kd, int n) \<notin> fst ` set (listsT (tabs w))" using Cons.prems(3) by fastforce
  then have st: "insert_list_row kd (int n) v (tabs w) = Inr (1, ?T)"
    using Cons.prems(2) by (simp add: insert_list_row_def)
  have "has_key ?T kd" using Cons.prems(2) by (simp add: has_key_def)
  moreover have "\<forall>r \<in> set (listsT ?T). fst (fst r) = kd \<longrightarrow> snd (fst r) < int (Suc n)"
    using Cons.prems(3) by fastforce
  ultimately obtain w' where
    "each (\<lambda>(i, v) _. seq (exec (insert_list_row kd (int i) v)) (\<lambda>_. ret ())) (List.enumerate (Suc n) vs) ()
       ((bump w)\<lparr>tabs := ?T\<rparr>) = (Inr (), w')" "calm t w'"
    "tabs w' = ?T\<lparr>listsT := listsT ?T @ list_rows kd (Suc n) vs\<rparr>"
    using Cons.IH [of "(bump w)\<lparr>tabs := ?T\<rparr>" "Suc n"] Cons.prems(1) by auto
  then show ?case
    using Cons.prems(1) st by (simp add: seq_assoc calm_seq list_rows_Cons)
qed

lemma list_values_rows:
  assumes "[r \<leftarrow> listsT T. fst (fst r) = kd] = list_rows kd 0 vs"
  shows "list_values T kd = vs"
proof -
  have "sorted (map (\<lambda>r. snd (fst r)) (list_rows kd n vs))" for n
  proof (induction vs arbitrary: n)
    case (Cons v vs)
    have "\<forall>r \<in> set (list_rows kd (Suc n) vs). int n \<le> snd (fst r)"
      by (auto simp: list_rows_def in_set_enumerate_eq)
    with Cons show ?case by (simp add: list_rows_Cons)
  qed simp
  moreover have "map snd (list_rows kd n vs) = vs" for n
    by (simp add: list_rows_def comp_def case_prod_beta)
  ultimately show ?thesis unfolding list_values_def assms by (simp add: sort_key_id_if_sorted)
qed

text \<open>A rewrite in a calm world: it succeeds, and the rows stand for the new list.\<close>

lemma run_lRewrite:
  assumes c: "calm t w" and k: "vs \<noteq> [] \<Longrightarrow> has_key (tabs w) (key, db)"
  shows "\<exists>w'. lRewrite key db vs w = (Inr (), w') \<and> calm t w' \<and> frame {(key, db)} (tabs w) (tabs w') \<and>
    (if vs = [] then map_of (keysT (tabs w')) (key, db) = None
     else keysT (tabs w') = keysT (tabs w) \<and> list_values (tabs w') (key, db) = vs)"
proof -
  let ?kd = "(key, db)" and ?T = "tabs w"
  let ?T1 = "?T\<lparr>listsT := [r \<leftarrow> listsT ?T. fst (fst r) \<noteq> ?kd]\<rparr>"
  let ?w1 = "(bump (bump w))\<lparr>tabs := ?T1\<rparr>"
  define body where "body = seq (exec (delete_list_rows ?kd)) (\<lambda>_.
       seq (each (\<lambda>(i, v) _. seq (exec (insert_list_row ?kd (int i) v)) (\<lambda>_. ret ()))
            (List.enumerate 0 vs) ()) (\<lambda>_.
       seq (if length vs = 0 then seq (attempt (exec (delete_key ?kd))) (\<lambda>_. ret ()) else ret ()) (\<lambda>_.
       ret (Commit ()))))"
  have d: "delete_list_rows ?kd (tabs (bump w)) = Inr (length [r \<leftarrow> listsT ?T. fst (fst r) = ?kd], ?T1)"
    by (simp add: delete_list_rows_def)
  have first: "seq (exec (delete_list_rows ?kd)) h (bump w) =
      h (length [r \<leftarrow> listsT ?T. fst (fst r) = ?kd]) ?w1" for h :: "nat \<Rightarrow> unit tx_end act"
    by (rule calm_seq(5)) (use c d in simp_all)
  have "\<exists>w2. body (bump w) = (Inr (Commit ()), w2) \<and> calm t w2 \<and>
    (if vs = [] then map_of (keysT (tabs w2)) ?kd = None
     else keysT (tabs w2) = keysT ?T \<and> list_values (tabs w2) ?kd = vs)"
  proof (cases "vs = []")
    case True
    then show ?thesis
      using c delete_key_Inr(2) [OF delete_key_run [of ?kd ?T1]]
      by (simp add: body_def first seq_assoc calm_seq delete_key_run ret_def)
  next
    case False
    have "has_key ?T1 ?kd" using k False by (simp add: has_key_def)
    then obtain w2 where w2: "each (\<lambda>(i, v) _. seq (exec (insert_list_row ?kd (int i) v)) (\<lambda>_. ret ()))
        (List.enumerate 0 vs) () ?w1 = (Inr (), w2)" "calm t w2"
      "tabs w2 = ?T1\<lparr>listsT := listsT ?T1 @ list_rows ?kd 0 vs\<rparr>"
      using run_insert_rows [of t ?w1 ?kd 0 vs] c by auto
    have "[r \<leftarrow> listsT (tabs w2). fst (fst r) = ?kd] = list_rows ?kd 0 vs"
      by (auto simp: w2(3) list_rows_def filter_empty_conv intro!: filter_True)
    then show ?thesis
      using c False w2 list_values_rows [of ?kd "tabs w2" vs]
      by (simp add: body_def first seq_def [of "each _ _ _"] ret_def)
  qed
  then obtain w2 where b: "body (bump w) = (Inr (Commit ()), w2)" and w2: "calm t w2"
    "if vs = [] then map_of (keysT (tabs w2)) ?kd = None
     else keysT (tabs w2) = keysT ?T \<and> list_values (tabs w2) ?kd = vs" by blast
  have run: "lRewrite key db vs w = (Inr (), bump w2)"
    unfolding lRewrite_def using calm_commit [of t w body "()", OF c b w2(1)] by (simp add: body_def)
  have "frame {?kd} ?T (tabs (bump w2))"
    using keepsD [OF others.keeps_lRewrite [of key db "{?kd}"] run] by simp
  with run w2 show ?thesis by auto
qed

lemma view_lput:
  assumes "frame {kd} T T'" "if vs = [] then map_of (keysT T') kd = None
     else map_of (keysT T') kd = Some (''list'', ex) \<and> list_values T' kd = vs"
    and "alive t ex" "ex = (case view t T kd of None \<Rightarrow> None | Some (ex, _) \<Rightarrow> ex)"
  shows "view t T' = lput kd vs (view t T)"
proof -
  have "view t T' kd = (if vs = [] then None else Some (ex, RList vs))"
    using assms(2,3) by (auto simp: view_def content_def split: if_splits)
  then have "view t T' = (view t T)(kd := if vs = [] then None else Some (ex, RList vs))"
    using view_frame [OF assms(1), of t] by simp
  then show ?thesis by (simp add: lput_def assms(4))
qed

lemma checked_list:
  assumes "checked t ''list'' kd w"
  obtains (absent) "calm t w" "store_ok (tabs w)" "map_of (keysT (tabs w)) kd = None"
      "list_values (tabs w) kd = []" "view t (tabs w) kd = None" "lget (view t (tabs w)) kd = []"
    | (present) ex where "calm t w" "store_ok (tabs w)" "map_of (keysT (tabs w)) kd = Some (''list'', ex)"
      "alive t ex" "view t (tabs w) kd = Some (ex, RList (list_values (tabs w) kd))"
      "lget (view t (tabs w)) kd = list_values (tabs w) kd"
proof (cases "map_of (keysT (tabs w)) kd")
  case None
  then show ?thesis
    using absent checkedD [OF assms] view_None no_rows(2) [OF checkedD(3) [OF assms]]
    by (simp add: list_values_def lget_def)
next
  case (Some row)
  then show ?thesis
    using present checkedD [OF assms] checked_view [OF assms] assms
    by (cases row) (auto simp: checked_def content_def lget_def)
qed

section \<open>Refinement\<close>

lemma refines_lread:
  "refines t (seq (deleteExpired key db) (\<lambda>_. seq (assertType key db ''list'') (\<lambda>_.
     seq (lAll key db) (\<lambda>all. ret (f all))))) (typed_spec ''list'' (key, db) (lread_spec (key, db) f))"
  by (rule refines_guard, erule checked_list)
    (simp_all add: lAll_def lread_spec_def calm_simps)

lemma length_list_values: "length (list_values T kd) = length [r \<leftarrow> listsT T. fst (fst r) = kd]"
  by (simp add: list_values_def)

lemma refines_LLen: "refines t (LLen key db) (typed_spec ''list'' (key, db) (lread_spec (key, db) (\<lambda>xs. int (length xs))))"
  unfolding LLen_def lAssert_def length_list_values [symmetric]
  by (rule refines_guard, erule checked_list) (simp_all add: lread_spec_def calm_simps)

text \<open>The elements whose index lies between the two bounds, each counted from the end if negative.\<close>

definition lrange_fun :: "int \<Rightarrow> int \<Rightarrow> string list \<Rightarrow> string list" where
  "lrange_fun start stop xs =
     map (nth xs) [j \<leftarrow> [0..<length xs].
       (if start < 0 then int (length xs) + start else start) \<le> int j \<and>
       int j \<le> (if stop < 0 then int (length xs) + stop else stop)]"

lemma range_slice_elements:
  "range_slice xs start stop = lrange_fun start stop xs"
proof -
  have slice: "map (nth xs) [j \<leftarrow> [0..<length xs]. a \<le> j \<and> j < b] = drop a (take b xs)" for a b
  proof -
    have "[j \<leftarrow> [0..<n]. a \<le> j \<and> j < b] = [a..<min n b]" for n
    proof (induction n)
      case (Suc n)
      then show ?case by (cases "n < b"; cases "a \<le> n") (auto simp: min_def not_less le_Suc_eq)
    qed simp
    then have "map (nth xs) [j \<leftarrow> [0..<length xs]. a \<le> j \<and> j < b] = map (nth xs) [a..<min (length xs) b]"
      by simp
    also have "\<dots> = drop a (take b xs)"
      by (rule nth_equalityI) (auto simp: min_def split: if_splits)
    finally show ?thesis .
  qed
  define a where "a = (if start < 0 then int (length xs) + start else start)"
  define b where "b = (if stop < 0 then int (length xs) + stop else stop)"
  have "range_slice xs start stop = drop (nat a) (take (nat (b + 1)) xs)"
    unfolding range_slice_def Let_def a_def [symmetric] b_def [symmetric] by auto
  moreover have "a \<le> int j \<and> int j \<le> b \<longleftrightarrow> nat a \<le> j \<and> j < nat (b + 1)" for j by linarith
  ultimately show ?thesis unfolding lrange_fun_def a_def [symmetric] b_def [symmetric] by (simp add: slice)
qed

lemma refines_LRange:
  "refines t (LRange key db start stop) (typed_spec ''list'' (key, db)
     (lread_spec (key, db) (lrange_fun start stop)))"
  unfolding LRange_def lAssert_def range_slice_elements by (rule refines_lread)

lemma refines_LIndex:
  "refines t (LIndex key db i) (typed_spec ''list'' (key, db) (lread_spec (key, db) (lindex_fun i)))"
proof -
  have "LIndex key db i = seq (deleteExpired key db) (\<lambda>_. seq (assertType key db ''list'') (\<lambda>_.
     seq (lAll key db) (\<lambda>all. ret (lindex_fun i all))))"
    unfolding LIndex_def lAssert_def
    by (intro arg_cong2 [of _ _ _ _ seq] ext refl) (auto simp: lindex_fun_def at_index_def Let_def)
  then show ?thesis by (simp add: refines_lread)
qed

text \<open>Writing: a list that is not empty is only written to a key that is there.\<close>

lemma list_write:
  assumes ch: "checked t ''list'' (key, db) w"
    and vs: "vs \<noteq> [] \<Longrightarrow> list_values (tabs w) (key, db) \<noteq> []"
  shows "\<exists>w'. lRewrite key db vs (bump w) = (Inr (), w') \<and>
    view t (tabs w') = lput (key, db) vs (view t (tabs w))"
  using ch
proof (cases rule: checked_list)
  case absent
  then have v: "vs = []" using vs by auto
  obtain w' where w': "lRewrite key db vs (bump w) = (Inr (), w')" "frame {(key, db)} (tabs (bump w)) (tabs w')"
    "map_of (keysT (tabs w')) (key, db) = None"
    using run_lRewrite [of t "bump w" vs key db] absent(1) v by auto
  then have "view t (tabs w') = lput (key, db) vs (view t (tabs w))"
    using view_lput [of "(key, db)" "tabs w" "tabs w'" vs None t] absent v by (simp add: alive_def)
  with w' show ?thesis by blast
next
  case (present ex)
  then have "has_key (tabs (bump w)) (key, db)" by (simp add: has_key_map_of)
  then obtain w' where w': "lRewrite key db vs (bump w) = (Inr (), w')" "frame {(key, db)} (tabs (bump w)) (tabs w')"
    "if vs = [] then map_of (keysT (tabs w')) (key, db) = None
     else keysT (tabs w') = keysT (tabs (bump w)) \<and> list_values (tabs w') (key, db) = vs"
    using run_lRewrite [of t "bump w" vs key db] present(1) by auto
  have "if vs = [] then map_of (keysT (tabs w')) (key, db) = None
     else map_of (keysT (tabs w')) (key, db) = Some (''list'', ex) \<and> list_values (tabs w') (key, db) = vs"
    using w'(3) present by (cases "vs = []") simp_all
  from view_lput [OF _ this present(4), of "tabs w"] w'(2) present
  have "view t (tabs w') = lput (key, db) vs (view t (tabs w))" by simp
  with w'(1) show ?thesis by blast
qed

lemma checked_lget: "checked t ''list'' kd w \<Longrightarrow> lget (view t (tabs w)) kd = list_values (tabs w) kd"
  by (erule checked_list) simp_all

lemma refines_lwrite:
  assumes s: "\<And>ks. s ks = (case f (lget ks (key, db)) of
      Inl r \<Rightarrow> (r, ks) | Inr (vs, a) \<Rightarrow> (Inr a, lput (key, db) vs ks))"
    and m: "\<And>all. m all = (case f all of
      Inl r \<Rightarrow> (\<lambda>w. (r, w)) | Inr (vs, a) \<Rightarrow> seq (lRewrite key db vs) (\<lambda>_. ret a))"
    and ne: "\<And>all vs a. f all = Inr (vs, a) \<Longrightarrow> vs \<noteq> [] \<Longrightarrow> all \<noteq> []"
  shows "refines t (seq (deleteExpired key db) (\<lambda>_. seq (assertType key db ''list'') (\<lambda>_.
     seq (lAll key db) m))) (typed_spec ''list'' (key, db) s)"
proof (rule refines_guard)
  fix w assume ch: "checked t ''list'' (key, db) w"
  let ?xs = "list_values (tabs w) (key, db)"
  have run: "seq (lAll key db) m w = m ?xs (bump w)"
    using checkedD(1) [OF ch] by (simp add: lAll_def calm_seq)
  show "(fst (seq (lAll key db) m w), view t (tabs (snd (seq (lAll key db) m w)))) = s (view t (tabs w))"
  proof (cases "f ?xs")
    case (Inl r)
    then show ?thesis by (simp add: run m s checked_lget [OF ch])
  next
    case (Inr p)
    obtain vs a where p: "p = (vs, a)" by (cases p)
    obtain w' where "lRewrite key db vs (bump w) = (Inr (), w')"
      "view t (tabs w') = lput (key, db) vs (view t (tabs w))"
      using list_write [OF ch] ne Inr p by blast
    then show ?thesis
      unfolding run by (simp add: m s checked_lget [OF ch] Inr p seq_def ret_def)
  qed
qed

lemma refines_LPop:
  "refines t (LPop key db) (typed_spec ''list'' (key, db) (pop_spec (key, db) hd tl))"
  unfolding LPop_def lAssert_def
  by (rule refines_lwrite [where f = "\<lambda>xs. if xs = [] then Inl (Inr ('''', False)) else Inr (tl xs, (hd xs, True))"])
    (auto simp: pop_spec_def Let_def ret_def split: list.split)

lemma refines_RPop:
  "refines t (RPop key db) (typed_spec ''list'' (key, db) (pop_spec (key, db) last butlast))"
  unfolding RPop_def lAssert_def
  by (rule refines_lwrite [where f = "\<lambda>xs. if xs = [] then Inl (Inr ('''', False)) else Inr (butlast xs, (last xs, True))"])
    (auto simp: pop_spec_def Let_def ret_def)

lemma refines_LSet:
  "refines t (LSet key db i v) (typed_spec ''list'' (key, db) (lset_spec (key, db) i v))"
  unfolding LSet_def lAssert_def
proof (rule refines_lwrite [where f = "\<lambda>xs. case at_index i xs of
    None \<Rightarrow> Inl (Inl (ErrText ''ERR index out of range'')) | Some j \<Rightarrow> Inr (xs[j := v], ())"], goal_cases)
  case (2 all)
  show ?case by (rule ext) (auto simp: at_index_def Let_def fail_def seq_ret_right)
qed (auto simp: lset_spec_def split: option.splits)

text \<open>The pivot's position, and splitting there.\<close>

lemma pivot_loop_eq:
  "pivot_loop xs p i = (if p \<in> set xs then i + int (length (takeWhile (\<lambda>x. x \<noteq> p) xs)) else - 1)"
  by (induction xs arbitrary: i) auto

lemma split_at_pivot:
  assumes "p \<in> set xs"
  shows "take (length (takeWhile (\<lambda>x. x \<noteq> p) xs)) xs = takeWhile (\<lambda>x. x \<noteq> p) xs"
    and "drop (length (takeWhile (\<lambda>x. x \<noteq> p) xs)) xs = dropWhile (\<lambda>x. x \<noteq> p) xs"
    and "dropWhile (\<lambda>x. x \<noteq> p) xs = p # tl (dropWhile (\<lambda>x. x \<noteq> p) xs)"
    and "take (Suc (length (takeWhile (\<lambda>x. x \<noteq> p) xs))) xs = takeWhile (\<lambda>x. x \<noteq> p) xs @ [p]"
    and "drop (Suc (length (takeWhile (\<lambda>x. x \<noteq> p) xs))) xs = tl (dropWhile (\<lambda>x. x \<noteq> p) xs)"
  using assms by (induction xs) auto

lemma refines_LInsert:
  "refines t (LInsert key db before pivot v) (typed_spec ''list'' (key, db) (linsert_spec (key, db) before pivot v))"
  unfolding LInsert_def lAssert_def
proof (rule refines_lwrite [where f = "\<lambda>xs. if pivot \<in> set xs then
    Inr (if before then takeWhile (\<lambda>x. x \<noteq> pivot) xs @ v # dropWhile (\<lambda>x. x \<noteq> pivot) xs
         else takeWhile (\<lambda>x. x \<noteq> pivot) xs @ pivot # v # tl (dropWhile (\<lambda>x. x \<noteq> pivot) xs),
         int (length xs) + 1) else Inl (Inr (- 1))"], goal_cases)
  case (1 ks)
  then show ?case by (auto simp: linsert_spec_def Let_def dropWhile_eq_Nil_conv)
next
  case (2 all)
  show ?case
  proof (cases "pivot \<in> set all")
    case True
    have "length (take n all @ drop n all) = length all" for n by simp
    then have len: "int (length (take n all @ [v] @ drop n all)) = int (length all) + 1" for n
      by (simp only: length_append list.size of_nat_add) simp
    show ?thesis
      unfolding pivot_loop_eq Let_def len using True split_at_pivot [OF True]
      by (auto simp: nat_add_distrib)
  next
    case False
    then show ?thesis by (auto simp: pivot_loop_eq ret_def fun_eq_iff)
  qed
qed auto

text \<open>Removal: the loop with its limit removes the first occurrences.\<close>

lemma rem_loop_all:
  "rem_loop xs x 0 r acc = (acc @ removeAll x xs, r + int (length xs) - int (length (removeAll x xs)))"
  by (induction xs arbitrary: r acc) auto

lemma remove_n_0 [simp]: "remove_n 0 x ys = ys"
  by (cases ys) simp_all

lemma length_remove_n: "length (remove_n n x xs) \<le> length xs"
  by (induction n x xs rule: remove_n.induct) auto

lemma rem_loop_n:
  "rem_loop xs x (r + int n) r acc = (acc @ remove_n n x xs, r + int (length xs) - int (length (remove_n n x xs)))"
  if "r \<ge> 0" "r + int n > 0" using that
proof (induction xs arbitrary: r n acc)
  case (Cons y ys)
  show ?case
  proof (cases n)
    case 0
    then show ?thesis using Cons.IH [of r 0 "acc @ [y]"] Cons.prems by simp
  next
    case (Suc k)
    have e: "r + int n = (r + 1) + int k" using Suc by simp
    show ?thesis using Cons.IH [of "r + 1" k acc] Cons.IH [of r n "acc @ [y]"] Cons.prems Suc
      by (auto simp: e add.assoc)
  qed
qed simp

lemma lrem_fun_Nil [simp]: "lrem_fun cnt x [] = []"
  by (simp add: lrem_fun_def)

lemma refines_LRem:
  assumes "in_int64 cnt" "cnt \<noteq> - (2 ^ 63)"
  shows "refines t (LRem key db cnt x) (typed_spec ''list'' (key, db) (lrem_spec (key, db) cnt x))"
proof -
  have w: "wrap64 (- cnt) = - cnt" if "cnt < 0"
    using assms that by (intro wrap64_id) (simp add: in_int64_def)
  have loop: "rem_loop (if cnt < 0 then rev xs else xs) x (if cnt < 0 then wrap64 (- cnt) else cnt) 0 [] =
      (if cnt < 0 then rev (lrem_fun cnt x xs) else lrem_fun cnt x xs,
       int (length xs) - int (length (lrem_fun cnt x xs)))" for xs
    using rem_loop_all [of xs x 0 "[]"] rem_loop_n [of 0 "nat cnt" xs x "[]"]
      rem_loop_n [of 0 "nat (- cnt)" "rev xs" x "[]"] w
    by (auto simp: lrem_fun_def)
  show ?thesis
    unfolding LRem_def lAssert_def Let_def loop prod.case
    by (rule refines_lwrite [where f = "\<lambda>xs. Inr (lrem_fun cnt x xs,
        int (length xs) - int (length (lrem_fun cnt x xs)))"])
      (auto simp: lrem_spec_def Let_def)
qed

text \<open>Pushing: the key is created first.\<close>

lemma refines_push:
  assumes "\<And>xs. f xs = [] \<Longrightarrow> xs = []"
  shows "refines t (seq (lEnsure key db) (\<lambda>_. seq (lAll key db) (\<lambda>existing.
      seq (lRewrite key db (f existing)) (\<lambda>_. ret (int (length (f existing)))))))
    (typed_spec ''list'' (key, db) (push_spec (key, db) f))"
  unfolding lEnsure_def seq_assoc
proof (rule refines_guard, goal_cases)
  case (1 w)
  let ?kd = "(key, db)"
  obtain n T where st: "insert_key_or_nothing ?kd ''list'' (tabs w) = Inr (n, T)"
    by (cases "has_key (tabs w) ?kd") (auto simp: insert_key_or_nothing_def)
  let ?w1 = "(bump w)\<lparr>tabs := T\<rparr>"
  have fr: "frame {?kd} (tabs w) T" using frame_stmtD [OF frame_one_key(3) st] .
  have T: "list_values T ?kd = list_values (tabs w) ?kd" "has_key T ?kd"
    using st by (auto simp: insert_key_or_nothing_def list_values_def has_key_def split: if_splits)
  obtain w' where w': "lRewrite key db (f (list_values T ?kd)) (bump ?w1) = (Inr (), w')"
    "frame {?kd} T (tabs w')" "if f (list_values T ?kd) = [] then map_of (keysT (tabs w')) ?kd = None
     else keysT (tabs w') = keysT T \<and> list_values (tabs w') ?kd = f (list_values T ?kd)"
    using run_lRewrite [of t "bump ?w1" "f (list_values T ?kd)" key db] checkedD(1) [OF 1] T(2) by auto
  obtain ex where ex: "map_of (keysT T) ?kd = Some (''list'', ex)" "alive t ex"
      "ex = (case view t (tabs w) ?kd of None \<Rightarrow> None | Some (ex, _) \<Rightarrow> ex)"
    using 1
  proof (cases rule: checked_list)
    case absent
    then have "T = (tabs w)\<lparr>keysT := keysT (tabs w) @ [(?kd, ''list'', None)]\<rparr>"
      using st by (simp add: insert_key_or_nothing_def has_key_map_of)
    with absent show ?thesis using that [of None] by (simp add: map_add_def alive_def)
  next
    case (present ex)
    then have eq: "T = tabs w" using st by (simp add: insert_key_or_nothing_def has_key_map_of)
    show ?thesis by (rule that [of ex]) (simp_all add: eq present)
  qed
  have "if f (list_values T ?kd) = [] then map_of (keysT (tabs w')) ?kd = None
     else map_of (keysT (tabs w')) ?kd = Some (''list'', ex) \<and> list_values (tabs w') ?kd = f (list_values T ?kd)"
    using w'(3) ex(1) by (cases "f (list_values T ?kd) = []") simp_all
  from view_lput [OF frame.R_trans [OF fr w'(2)] this ex(2,3)]
  moreover have "tabs ?w1 = T" by simp
  ultimately show ?case
    using checkedD(1) [OF 1] st w'(1) T(1)
    by (simp add: calm_seq lAll_def push_spec_def checked_lget [OF 1]
        seq_def [of "lRewrite _ _ _"] ret_def)
qed

lemma refines_LPush:
  "refines t (LPush key db vs) (typed_spec ''list'' (key, db) (push_spec (key, db) (\<lambda>xs. rev vs @ xs)))"
  unfolding LPush_def Let_def by (rule refines_push) simp

lemma refines_RPush:
  "refines t (RPush key db vs) (typed_spec ''list'' (key, db) (push_spec (key, db) (\<lambda>xs. xs @ vs)))"
  unfolding RPush_def Let_def by (rule refines_push) simp

section \<open>Theorems\<close>

text \<open>C7. The list operations implement the keyspace specification: pushes put the new elements at the
  head in reverse order or at the tail in order, pops take the first or last element and remove an
  emptied list, the indexed operations follow the index arithmetic with negative indices, insertion
  goes next to the first occurrence of the pivot, and each keeps the expiry of the key. A key of
  another type gives the type error and changes nothing.\<close>

theorem list_ops_refine:
  "refines t (LPush key db vs) (typed_spec ''list'' (key, db) (push_spec (key, db) (\<lambda>xs. rev vs @ xs))) \<and>
   refines t (RPush key db vs) (typed_spec ''list'' (key, db) (push_spec (key, db) (\<lambda>xs. xs @ vs))) \<and>
   refines t (LPop key db) (typed_spec ''list'' (key, db) (pop_spec (key, db) hd tl)) \<and>
   refines t (RPop key db) (typed_spec ''list'' (key, db) (pop_spec (key, db) last butlast)) \<and>
   refines t (LLen key db) (typed_spec ''list'' (key, db) (lread_spec (key, db) (\<lambda>xs. int (length xs)))) \<and>
   refines t (LIndex key db i) (typed_spec ''list'' (key, db) (lread_spec (key, db) (lindex_fun i))) \<and>
   refines t (LSet key db i v) (typed_spec ''list'' (key, db) (lset_spec (key, db) i v)) \<and>
   refines t (LInsert key db before pivot v)
     (typed_spec ''list'' (key, db) (linsert_spec (key, db) before pivot v)) \<and>
   refines t (LRange key db start stop)
     (typed_spec ''list'' (key, db) (lread_spec (key, db) (lrange_fun start stop)))"
  by (simp add: refines_LPush refines_RPush refines_LPop refines_RPop refines_LLen refines_LIndex
      refines_LSet refines_LInsert refines_LRange)

text \<open>C8. Removal: with a positive count the first occurrences go, with a negative count the last ones,
  with zero all of them, for every 64-bit count but the smallest, whose negation overflows.\<close>

theorem lrem_refines:
  assumes "in_int64 cnt" "cnt \<noteq> - (2 ^ 63)"
  shows "refines t (LRem key db cnt x) (typed_spec ''list'' (key, db) (lrem_spec (key, db) cnt x))"
  using assms by (rule refines_LRem)

theorem lrem_refines_witness:
  "refines 7 (LRem ''k'' 0 (- 2) ''x'') (typed_spec ''list'' (''k'', 0) (lrem_spec (''k'', 0) (- 2) ''x''))"
  by (rule lrem_refines) (simp_all add: in_int64_def)

end
