(* ===== verification/Refine_Keys.thy ===== *)
theory Refine_Keys
  imports Keyspace
begin

text \<open>
  The operations on keys refine the keyspace specification: existence, types, expiry, deletion,
  flushing, renaming and listing.

  \<^item> \<open>purged\<close> is what holds after \<open>deleteExpired\<close>: the key is absent or alive.
\<close>

section \<open>Specifications\<close>

definition exists_spec :: "string list \<Rightarrow> int \<Rightarrow> keyspace \<Rightarrow> (error + int) \<times> keyspace" where
  "exists_spec names db ks = (Inr (int (length [k \<leftarrow> names. ks (k, db) \<noteq> None])), ks)"

definition type_spec :: "key_id \<Rightarrow> keyspace \<Rightarrow> (error + string) \<times> keyspace" where
  "type_spec kd ks = (Inr (case ks kd of None \<Rightarrow> ''none'' | Some (_, v) \<Rightarrow> kind v), ks)"

definition expire_spec :: "int \<Rightarrow> key_id \<Rightarrow> int \<Rightarrow> keyspace \<Rightarrow> (error + bool) \<times> keyspace" where
  "expire_spec t kd ms ks =
     (case ks kd of
        None \<Rightarrow> (Inr False, ks)
      | Some (_, v) \<Rightarrow> (Inr True, bind t kd (Some ms) v ks))"

definition persist_spec :: "key_id \<Rightarrow> keyspace \<Rightarrow> (error + bool) \<times> keyspace" where
  "persist_spec kd ks =
     (case ks kd of
        Some (Some _, v) \<Rightarrow> (Inr True, ks(kd \<mapsto> (None, v)))
      | _ \<Rightarrow> (Inr False, ks))"

text \<open>The remaining time; \<open>- 1\<close> without expiry, \<open>- 2\<close> for a key that is not there. The difference is an
  int64: an expiry further away than that counts as passed.\<close>

definition ttl_spec :: "int \<Rightarrow> key_id \<Rightarrow> bool \<Rightarrow> keyspace \<Rightarrow> (error + int) \<times> keyspace" where
  "ttl_spec t kd millis ks =
     (Inr (case ks kd of
             None \<Rightarrow> - 2
           | Some (None, _) \<Rightarrow> - 1
           | Some (Some x, _) \<Rightarrow>
               (let rem = wrap64 (x - t)
                in if rem < 0 then - 2 else if millis then rem else rem div 1000)), ks)"

definition flush_spec :: "(key_id \<Rightarrow> bool) \<Rightarrow> keyspace \<Rightarrow> (error + unit) \<times> keyspace" where
  "flush_spec P ks = (Inr (), \<lambda>kd. if P kd then None else ks kd)"

definition dbsize_spec :: "int \<Rightarrow> keyspace \<Rightarrow> (error + int) \<times> keyspace" where
  "dbsize_spec db ks = (Inr (int (card {kd \<in> dom ks. snd kd = db})), ks)"

text \<open>Renaming moves value and expiry over whatever the destination holds. A key renamed to itself
  disappears.\<close>

definition rename_spec :: "key_id \<Rightarrow> key_id \<Rightarrow> keyspace \<Rightarrow> (error + unit) \<times> keyspace" where
  "rename_spec src dst ks =
     (case ks src of
        None \<Rightarrow> (Inl ErrNoKey, ks)
      | Some x \<Rightarrow> (Inr (), (ks(dst \<mapsto> x))(src := None)))"

text \<open>Deletion counts also the expired keys that still have rows.\<close>

definition del_rel :: "string list \<Rightarrow> int \<Rightarrow> keyspace \<Rightarrow> error + int \<Rightarrow> keyspace \<Rightarrow> bool" where
  "del_rel names db ks r ks' \<longleftrightarrow>
     ks' = (\<lambda>kd. if snd kd = db \<and> fst kd \<in> set names then None else ks kd) \<and>
     (\<exists>n. r = Inr n \<and> int (card {k \<in> set names. ks (k, db) \<noteq> None}) \<le> n \<and> n \<le> int (card (set names)))"

definition names_in :: "int \<Rightarrow> keyspace \<Rightarrow> string set" where
  "names_in db ks = {k. ks (k, db) \<noteq> None}"

text \<open>The names that match, each once, in some order; \<^const>\<open>None\<close> is the panic of the matcher.\<close>

definition keys_rel :: "string \<Rightarrow> int \<Rightarrow> keyspace \<Rightarrow> error + string list option \<Rightarrow> keyspace \<Rightarrow> bool" where
  "keys_rel pat db ks r ks' \<longleftrightarrow> ks' = ks \<and>
     (if \<exists>k \<in> names_in db ks. matchGlob pat k = None then r = Inr None
      else \<exists>res. r = Inr (Some res) \<and> distinct res \<and>
        set res = {k \<in> names_in db ks. matchGlob pat k = Some True})"

definition randomkey_rel :: "int \<Rightarrow> keyspace \<Rightarrow> error + string \<Rightarrow> keyspace \<Rightarrow> bool" where
  "randomkey_rel db ks r ks' \<longleftrightarrow> ks' = ks \<and>
     (if names_in db ks = {} then r = Inr '''' else \<exists>k \<in> names_in db ks. r = Inr k)"

section \<open>After the purge\<close>

definition purged :: "int \<Rightarrow> key_id \<Rightarrow> world \<Rightarrow> bool" where
  "purged t kd w \<longleftrightarrow> calm t w \<and> store_ok (tabs w) \<and>
     (\<forall>ty ex. map_of (keysT (tabs w)) kd = Some (ty, ex) \<longrightarrow> alive t ex)"

lemma purged_run:
  assumes "calm t w" "store_ok (tabs w)"
  obtains w1 where "deleteExpired key db w = (Inr (), w1)" "purged t (key, db) w1"
    "view t (tabs w1) = view t (tabs w)"
proof
  let ?w1 = "(bump (bump w))\<lparr>tabs := purge (key, db) t (tabs w)\<rparr>"
  note ok = store_okD(1) [OF assms(2)]
  show "deleteExpired key db w = (Inr (), ?w1)" using assms(1) by (rule calm_deleteExpired)
  show "view t (tabs ?w1) = view t (tabs w)" using ok by (simp add: view_purge)
  show "purged t (key, db) ?w1"
    using assms purge_not_dead [OF ok, of "(key, db)" t]
      dead_map_of [OF store_okD(1) [OF store_ok_purge [OF assms(2)]]]
    by (simp add: purged_def store_ok_purge)
qed

lemma refines_purge:
  assumes "\<And>w. purged t (key, db) w \<Longrightarrow>
    (fst (rest w), view t (tabs (snd (rest w)))) = s (view t (tabs w))"
  shows "refines t (seq (deleteExpired key db) (\<lambda>_. rest)) s"
  unfolding refines_def
proof (intro allI impI)
  fix w assume "calm t w" "store_ok (tabs w)"
  then obtain w1 where w1: "deleteExpired key db w = (Inr (), w1)" "purged t (key, db) w1"
    "view t (tabs w1) = view t (tabs w)" by (rule purged_run)
  show "(fst (seq (deleteExpired key db) (\<lambda>_. rest) w),
      view t (tabs (snd (seq (deleteExpired key db) (\<lambda>_. rest) w)))) = s (view t (tabs w))"
    using assms [OF w1(2)] by (simp add: seq_def w1)
qed

lemma purged_cases:
  assumes "purged t kd w"
  obtains (absent) "calm t w" "map_of (keysT (tabs w)) kd = None" "view t (tabs w) kd = None"
    | (present) ty ex where "calm t w" "map_of (keysT (tabs w)) kd = Some (ty, ex)" "alive t ex"
      "view t (tabs w) kd = Some (ex, content ty (tabs w) kd)" "kind (content ty (tabs w) kd) = ty"
proof (cases "map_of (keysT (tabs w)) kd")
  case None
  then show ?thesis using absent assms by (simp add: purged_def view_None)
next
  case (Some row)
  obtain ty ex where row: "row = (ty, ex)" by (cases row)
  then have "ty \<in> {''string'', ''list'', ''hash'', ''set'', ''zset''}"
    using Some assms store_okD(2) [of "tabs w" kd] by (auto simp: purged_def rows_ok_def)
  then show ?thesis
    using present [of ty ex] Some row assms kind_content [of ty "tabs w" kd]
    by (simp add: purged_def view_def)
qed

lemma purgedD:
  "purged t kd w \<Longrightarrow> calm t w" "purged t kd w \<Longrightarrow> store_ok (tabs w)"
  by (simp_all add: purged_def)

section \<open>Expiry and types\<close>

lemma distinct_keysT: "schema_ok T \<Longrightarrow> distinct (map fst (keysT T))"
  by (simp add: schema_ok_def pk_ok_def)

lemma view_update_expiry:
  assumes "map_of (keysT T) kd = Some (ty, ex0)"
  shows "view t (T\<lparr>keysT := update_rows kd (\<lambda>(ty, _). (ty, ex)) (keysT T)\<rparr>) =
    bind t kd ex (content ty T kd) (view t T)"
proof -
  let ?T' = "T\<lparr>keysT := update_rows kd (\<lambda>(ty, _). (ty, ex)) (keysT T)\<rparr>"
  have "frame {kd} T ?T'"
    using frame_one_key(5) [of kd ex] by (simp add: stmt_keeps_def update_expiry_def)
  moreover have "view t ?T' kd = (if alive t ex then Some (ex, content ty T kd) else None)"
    using assms by (simp add: view_def)
  ultimately show ?thesis using view_frame [of kd T ?T' t] by (simp add: bind_def)
qed

lemma no_update_rows: "map_of K kd = None \<Longrightarrow> update_rows kd f K = K"
  by (induction K) (auto simp: update_rows_def split: if_splits)

lemma refines_ExpireAt: "refines t (ExpireAt key db ms) (expire_spec t (key, db) ms)"
  unfolding ExpireAt_def
proof (rule refines_purge, goal_cases)
  case (1 w)
  note n = length_filter_key [OF distinct_keysT [OF store_okD(1) [OF purgedD(2) [OF 1]]], of "(key, db)"]
  from 1 show ?case
    by (cases rule: purged_cases)
      (simp_all add: calm_seq update_expiry_def ret_def expire_spec_def n view_update_expiry no_update_rows)
qed

lemma refines_Persist: "refines t (Persist key db) (persist_spec (key, db))"
  unfolding Persist_def
proof (rule refines_purge, goal_cases)
  case (1 w)
  from 1 show ?case
  proof (cases rule: purged_cases)
    case (present ty ex)
    then show ?thesis
      by (cases ex) (simp_all add: attempt_def calm_simps update_expiry_def persist_spec_def
          view_update_expiry bind_def alive_def)
  qed (simp add: attempt_def calm_simps persist_spec_def)
qed

lemma refines_Type: "refines t (Type key db) (type_spec (key, db))"
  unfolding Type_def
proof (rule refines_purge, goal_cases)
  case (1 w)
  note ok = rows_ok_type [OF store_okD(2) [OF purgedD(2) [OF 1]]]
  from 1 show ?case
    by (cases rule: purged_cases)
      (use ok in \<open>auto simp: calm_keyType seq_def ret_def type_spec_def\<close>)
qed

lemma refines_ttl: "refines t (ttl key db millis) (ttl_spec t (key, db) millis)"
  unfolding ttl_def
proof (rule refines_purge, goal_cases)
  case (1 w)
  from 1 show ?case
  proof (cases rule: purged_cases)
    case (present ty ex)
    then show ?thesis
      by (cases ex) (simp_all add: calm_simps Let_def ttl_spec_def)
  qed (simp add: calm_simps ttl_spec_def)
qed

lemma refines_Exists: "refines t (Exists names db) (exists_spec names db)"
  unfolding refines_def
proof (intro allI impI)
  fix w assume c: "calm t w" and ok: "store_ok (tabs w)"
  let ?V = "view t (tabs w)" and ?n = "\<lambda>names. int (length [k \<leftarrow> names. view t (tabs w) (k, db) \<noteq> None])"
  let ?step = "\<lambda>k count. seq (deleteExpired k db) (\<lambda>_.
       seq (scan_or 0 (query (\<lambda>T. length [r \<leftarrow> keysT T. fst r = (k, db)]))) (\<lambda>n. ret (count + int n)))"
  let ?I = "\<lambda>rest count w. calm t w \<and> store_ok (tabs w) \<and> view t (tabs w) = ?V \<and> count + ?n rest = ?n names"
  have "\<exists>count w'. each ?step names 0 w = (Inr count, w') \<and> ?I [] count w'"
  proof (rule each_run [where I = ?I])
    fix k rest count w
    assume I: "?I (k # rest) count w"
    then obtain w1 where w1: "deleteExpired k db w = (Inr (), w1)" "purged t (k, db) w1"
      "view t (tabs w1) = ?V" using purged_run [of t w k db] by metis
    have "length [r \<leftarrow> keysT (tabs w1). fst r = (k, db)] = (if ?V (k, db) \<noteq> None then 1 else 0)"
      using w1(2) unfolding w1(3) [symmetric]
      by (cases rule: purged_cases)
        (simp_all add: length_filter_key distinct_keysT store_okD(1) purgedD(2) [OF w1(2)])
    then show "\<exists>count' w'. ?step k count w = (Inr count', w') \<and> ?I rest count' w'"
      using I w1 purgedD [OF w1(2)]
      by (cases "?V (k, db) = None") (simp_all add: seq_def [of "deleteExpired _ _"] calm_seq ret_def)
  qed (use c ok in simp)
  then show "(fst (Exists names db w), view t (tabs (snd (Exists names db w)))) = exists_spec names db ?V"
    by (auto simp: Exists_def exists_spec_def)
qed

text \<open>Seconds: the product with a second in nanoseconds does not overflow up to about 292 years.\<close>

lemma refines_Expire:
  assumes "\<bar>secs\<bar> \<le> 9223372036"
  shows "refines t (Expire key db secs) (expire_spec t (key, db) (t + secs * 1000))"
proof -
  have "in_int64 (secs * 1000000000)" using assms unfolding in_int64_def by simp linarith
  then have at: "(clock (env w) n + wrap64 (secs * 1000000000)) div 1000000 = t + secs * 1000"
    if "calm t w" for w n
    using that div_mult_self2 [of 1000000 "clock (env w) n" "secs * 1000"] by (simp add: calm_def mult.commute)
  show ?thesis
    using refines_ExpireAt [of t key db "t + secs * 1000"]
    by (simp add: refines_def Expire_def seq_def nowNs_def at)
qed

lemma expire_in_past:
  "ms \<le> t \<Longrightarrow> expire_spec t kd ms ks =
     (case ks kd of None \<Rightarrow> (Inr False, ks) | Some _ \<Rightarrow> (Inr True, ks(kd := None)))"
  by (auto simp: expire_spec_def bind_def alive_def split: option.split)

lemma refines_Expire_overflow:
  "refines t (Expire key db 9223372037)
     (\<lambda>ks. case ks (key, db) of None \<Rightarrow> (Inr False, ks) | Some _ \<Rightarrow> (Inr True, ks((key, db) := None)))"
  unfolding refines_def
proof (intro allI impI)
  fix w assume c: "calm t w" and ok: "store_ok (tabs w)"
  let ?ms = "(clock (env w) (tick w) + wrap64 (9223372037 * 1000000000)) div 1000000"
  have "wrap64 (9223372037 * 1000000000) < 0" by (simp add: wrap64_def)
  then have "?ms \<le> clock (env w) (tick w) div 1000000" by (intro zdiv_mono1) simp_all
  then have "?ms \<le> t" using c by (simp add: calm_def)
  then show "(fst (Expire key db 9223372037 w), view t (tabs (snd (Expire key db 9223372037 w)))) =
      (case view t (tabs w) (key, db) of None \<Rightarrow> (Inr False, view t (tabs w))
       | Some _ \<Rightarrow> (Inr True, (view t (tabs w))((key, db) := None)))"
    using refines_ExpireAt [of t key db ?ms] c ok
    by (cases "view t (tabs w) (key, db)")
      (simp_all add: refines_def Expire_def seq_def nowNs_def expire_in_past)
qed

lemma refines_PExpire: "refines t (PExpire key db ms) (expire_spec t (key, db) (wrap64 (t + ms)))"
  using refines_ExpireAt [of t key db "wrap64 (t + ms)"]
  by (simp add: refines_def PExpire_def calm_seq)

section \<open>Deleting and counting\<close>

lemma refines_delete_keys:
  assumes Q: "\<And>kd ty ex. alive t ex \<Longrightarrow> Q kd ty ex = P kd"
  shows "refines t (seq (exec (delete_keys Q)) (\<lambda>_. ret ())) (flush_spec P)"
  unfolding refines_def
proof (intro allI impI)
  fix w assume c: "calm t w" and ok: "store_ok (tabs w)"
  let ?T = "tabs w" and ?gone = "map fst [(kd, ty, ex) \<leftarrow> keysT (tabs w). Q kd ty ex]"
  have "kd \<in> set ?gone \<longleftrightarrow> (\<exists>ty ex. map_of (keysT ?T) kd = Some (ty, ex) \<and> Q kd ty ex)" for kd
    using map_of_eq_Some_iff [OF distinct_keysT [OF store_okD(1) [OF ok]], of kd] by force
  then have "(if kd \<in> set ?gone then None else view t ?T kd) = (if P kd then None else view t ?T kd)" for kd
    using Q by (auto simp: view_def split: option.splits)
  then have "view t (drop_keys (set ?gone) ?T) = (\<lambda>kd. if P kd then None else view t ?T kd)"
    by (simp add: view_drop_keys)
  then show "(fst (seq (exec (delete_keys Q)) (\<lambda>_. ret ()) w),
      view t (tabs (snd (seq (exec (delete_keys Q)) (\<lambda>_. ret ()) w)))) = flush_spec P (view t ?T)"
    using c by (simp add: calm_seq delete_keys_def Let_def ret_def flush_spec_def)
qed

lemma refines_FlushDB: "refines t (FlushDB db) (flush_spec (\<lambda>kd. snd kd = db))"
  unfolding FlushDB_def by (rule refines_delete_keys) simp

lemma refines_FlushAll: "refines t FlushAll (flush_spec (\<lambda>kd. True))"
  unfolding FlushAll_def by (rule refines_delete_keys) simp

lemma refines_SweepExpired: "refines t SweepExpired (flush_spec (\<lambda>kd. False))"
  using refines_delete_keys [of t "\<lambda>kd ty ex. \<not> alive t ex" "\<lambda>kd. False"]
  by (simp add: refines_def SweepExpired_def calm_seq)

lemma view_delete_key:
  assumes "delete_key kd T = Inr (n, T')"
  shows "view t T' = (view t T)(kd := None)"
  using view_frame [OF delete_key_Inr(3) [OF assms], of t] view_None [OF delete_key_Inr(2) [OF assms], of t]
  by simp

text \<open>The invariant of the loop of \<^verbatim>\<open>Del\<close>: the keys in \<open>D\<close> are gone.\<close>

definition deleted :: "int \<Rightarrow> int \<Rightarrow> keyspace \<Rightarrow> string set \<Rightarrow> int \<Rightarrow> world \<Rightarrow> bool" where
  "deleted t db V D m w \<longleftrightarrow> finite D \<and> calm t w \<and> store_ok (tabs w) \<and>
     (\<forall>k \<in> D. map_of (keysT (tabs w)) (k, db) = None) \<and>
     view t (tabs w) = (\<lambda>kd. if snd kd = db \<and> fst kd \<in> D then None else V kd) \<and>
     int (card {k \<in> D. V (k, db) \<noteq> None}) \<le> m \<and> m \<le> int (card D)"

lemma deleted_step:
  assumes "deleted t db V D m w"
  shows "\<exists>n w'. exec (delete_key (k, db)) w = (Inr n, w') \<and> deleted t db V (insert k D) (m + int n) w'"
proof -
  let ?kd = "(k, db)" and ?T = "tabs w"
  note I = assms [unfolded deleted_def]
  obtain n T' where d: "delete_key ?kd ?T = Inr (n, T')" "n = length [r \<leftarrow> keysT ?T. fst r = ?kd]"
    by (simp add: delete_key_run)
  have n: "n = (if map_of (keysT ?T) ?kd = None then 0 else 1)"
    using I d(2) length_filter_key [OF distinct_keysT [OF store_okD(1)]] by simp
  have ok: "store_ok T'" using delete_key_Inr(1) [OF d(1)] I by (auto simp: store_ok_drop_keys)
  have gone: "map_of (keysT T') (x, db) = None" if "x \<in> insert k D" for x
  proof (cases "x = k")
    case True
    then show ?thesis using delete_key_Inr(2) [OF d(1)] by simp
  next
    case False
    then show ?thesis
      using delete_key_Inr(1) [OF d(1)] that I by (auto simp: map_of_drop_keys)
  qed
  have view': "view t T' = (\<lambda>kd. if snd kd = db \<and> fst kd \<in> insert k D then None else V kd)"
    using I by (auto simp: view_delete_key [OF d(1)] fun_eq_iff)
  have counts: "int (card {x \<in> insert k D. V (x, db) \<noteq> None}) \<le> m + int n \<and>
      m + int n \<le> int (card (insert k D))"
  proof (cases "k \<in> D")
    case True
    then show ?thesis using I n by (simp add: insert_absorb)
  next
    case False
    then have "V ?kd = view t ?T ?kd" using I by simp
    then have "map_of (keysT ?T) ?kd \<noteq> None" if "V ?kd \<noteq> None" using that view_None [of ?T ?kd t] by metis
    then have "n = 1" if "V ?kd \<noteq> None" using that n by simp
    moreover have "{x \<in> insert k D. V (x, db) \<noteq> None} =
        (if V ?kd = None then {x \<in> D. V (x, db) \<noteq> None} else insert k {x \<in> D. V (x, db) \<noteq> None})" by auto
    ultimately show ?thesis using I n False by (cases "V ?kd = None") (simp_all split: if_splits)
  qed
  have "exec (delete_key ?kd) w = (Inr n, (bump w)\<lparr>tabs := T'\<rparr>)"
    using calm_exec_Inr [of t w "delete_key ?kd"] d(1) I by simp
  with ok gone view' counts I show ?thesis by (simp add: deleted_def)
qed

lemma refines_Del: "refines_some t (Del names db) (del_rel names db)"
  unfolding refines_some_def
proof (intro allI impI)
  fix w assume c: "calm t w" and ok: "store_ok (tabs w)"
  let ?V = "view t (tabs w)"
  have init: "deleted t db ?V {} 0 w" using c ok by (simp add: deleted_def)
  obtain m w' where "each (\<lambda>k m. seq (exec (delete_key (k, db))) (\<lambda>n. ret (m + int n))) names 0 w = (Inr m, w')"
    and d: "deleted t db ?V (set names) m w'"
    using each_counted [where I = "deleted t db ?V" and st = "\<lambda>k. delete_key (k, db)", OF deleted_step init] by blast
  then have "Del names db w = (Inr m, w')" by (auto simp: Del_def)
  with d show "del_rel names db ?V (fst (Del names db w)) (view t (tabs (snd (Del names db w))))"
    by (simp add: del_rel_def deleted_def)
qed

section \<open>Listing\<close>

lemma alive_name_iff:
  assumes "store_ok T"
  shows "(\<exists>ty ex. (kd, ty, ex) \<in> set (keysT T) \<and> alive t ex) \<longleftrightarrow> view t T kd \<noteq> None"
  unfolding map_of_eq_Some_iff [OF distinct_keysT [OF store_okD(1) [OF assms]], symmetric]
  by (auto simp: view_def split: option.splits)

lemma set_alive_names: "store_ok T \<Longrightarrow> set (alive_names db t T) = names_in db (view t T)"
  using alive_name_iff [of T _ t]
  unfolding names_in_def by (auto simp: alive_names_def image_iff) (metis fst_conv snd_conv)+

lemma distinct_alive_names:
  assumes "store_ok T"
  shows "distinct (alive_names db t T)"
proof -
  have d: "distinct (map fst (keysT T))" by (rule distinct_keysT [OF store_okD(1) [OF assms]])
  have "distinct (map (fst \<circ> fst) [r \<leftarrow> K. snd (fst r) = db \<and> P r])" if "distinct (map fst K)"
    for P and K :: "(key_id \<times> string \<times> int option) list"
    using that by (induction K) (auto simp: image_iff prod_eq_iff)
  from this [OF d, of "\<lambda>r. alive t (snd (snd r))"] show ?thesis
    by (simp add: alive_names_def case_prod_beta')
qed

lemma run_names:
  assumes "calm t w" "store_ok (tabs w)"
  obtains ks where "seq nowMs (\<lambda>t. seq (query_rows (alive_names db t)) f) w = f ks (bump (bump w))"
    "set ks = names_in db (view t (tabs w))" "distinct ks"
proof
  let ?ks = "arrange (orders (env (bump w)) (tick (bump w))) (alive_names db t (tabs w))"
  show "seq nowMs (\<lambda>t. seq (query_rows (alive_names db t)) f) w = f ?ks (bump (bump w))"
    using assms(1) by (simp add: calm_seq)
qed (simp_all add: set_alive_names distinct_alive_names assms(2))

lemma refines_DBSize: "refines t (DBSize db) (dbsize_spec db)"
  unfolding refines_def
proof (intro allI impI)
  fix w assume c: "calm t w" and ok: "store_ok (tabs w)"
  have "{kd \<in> dom (view t (tabs w)). snd kd = db} = (\<lambda>k. (k, db)) ` names_in db (view t (tabs w))"
    by (force simp: names_in_def)
  then have "card {kd \<in> dom (view t (tabs w)). snd kd = db} = length (alive_names db t (tabs w))"
    using distinct_card [OF distinct_alive_names [OF ok, of db t]]
    by (simp add: card_image inj_on_def set_alive_names [OF ok])
  moreover have "DBSize db w = (Inr (int (length (alive_names db t (tabs w)))), bump (bump w))"
    using c unfolding DBSize_def alive_names_def length_map by (simp only: calm_seq calm_query calm_bump) simp
  ultimately show "(fst (DBSize db w), view t (tabs (snd (DBSize db w)))) = dbsize_spec db (view t (tabs w))"
    by (simp add: dbsize_spec_def)
qed

lemma refines_RandomKey: "refines_some t (RandomKey db) (randomkey_rel db)"
  unfolding refines_some_def
proof (intro allI impI)
  fix w assume c: "calm t w" and ok: "store_ok (tabs w)"
  obtain ks where ks: "RandomKey db w = ret (case ks of [] \<Rightarrow> '''' | k # _ \<Rightarrow> k) (bump (bump w))"
    "set ks = names_in db (view t (tabs w))" unfolding RandomKey_def by (rule run_names [OF c ok])
  then show "randomkey_rel db (view t (tabs w)) (fst (RandomKey db w)) (view t (tabs (snd (RandomKey db w))))"
    by (cases ks) (auto simp: randomkey_rel_def ret_def)
qed

lemma keys_loop_run:
  "keys_loop pat names res = (if \<exists>k \<in> set names. matchGlob pat k = None then None
     else Some (res @ [k \<leftarrow> names. matchGlob pat k = Some True]))"
  by (induction names arbitrary: res) (auto split: option.splits)

lemma refines_Keys: "refines_some t (Keys pat db) (keys_rel pat db)"
  unfolding refines_some_def
proof (intro allI impI)
  fix w assume c: "calm t w" and ok: "store_ok (tabs w)"
  obtain ks where "Keys pat db w = ret (keys_loop pat ks []) (bump (bump w))"
    "set ks = names_in db (view t (tabs w))" "distinct ks" unfolding Keys_def by (rule run_names [OF c ok])
  then show "keys_rel pat db (view t (tabs w)) (fst (Keys pat db w)) (view t (tabs (snd (Keys pat db w))))"
    by (auto simp: keys_rel_def keys_loop_run ret_def)
qed

section \<open>Renaming\<close>

text \<open>Copied rows: the destination has no rows of its own.\<close>

lemma map_of_moved:
  "dst \<notin> fst ` set t \<Longrightarrow> map_of (t @ map (\<lambda>(kd, v). (dst, v)) [r \<leftarrow> t. fst r = src]) dst = map_of t src"
proof -
  assume "dst \<notin> fst ` set t"
  then have "map_of t dst = None" by (simp add: map_of_eq_None_iff)
  moreover have "map_of (map (\<lambda>(kd, v). (dst, v)) [r \<leftarrow> t. fst r = src]) dst = map_of t src"
    by (induction t) auto
  ultimately show ?thesis by (simp add: map_add_def split: option.split)
qed

lemma map_of_rekey:
  "dst \<notin> (fst \<circ> fst) ` set t \<Longrightarrow> map_of (t @ rekey src dst t) (dst, c) = map_of t (src, c)"
proof -
  assume "dst \<notin> (fst \<circ> fst) ` set t"
  then have "map_of t (dst, c) = None" by (force simp: map_of_eq_None_iff)
  moreover have "map_of (rekey src dst t) (dst, c) = map_of t (src, c)"
    by (induction t) (auto simp: rekey_def)
  ultimately show ?thesis by (simp add: map_add_def split: option.split)
qed

lemma insort_key_map: "(\<And>x. f (g x) = f x) \<Longrightarrow> insort_key f (g x) (map g xs) = map g (insort_key f x xs)"
  by (induction xs) simp_all

lemma sort_key_map: "(\<And>x. f (g x) = f x) \<Longrightarrow> sort_key f (map g xs) = map g (sort_key f xs)"
  by (induction xs) (simp_all add: sort_key_simps insort_key_map)

lemma sort_rekey:
  "map snd (sort_key (\<lambda>r. snd (fst r)) (rekey src dst t)) =
     map snd (sort_key (\<lambda>r. snd (fst r)) [r \<leftarrow> t. fst (fst r) = src])"
  by (simp add: rekey_def sort_key_map comp_def case_prod_beta)

lemma filter_rekeyed:
  "dst \<notin> (fst \<circ> fst) ` set t \<Longrightarrow> [r \<leftarrow> t @ rekey src dst t. fst (fst r) = dst] = rekey src dst t"
  by (force simp: filter_empty_conv rekey_def intro!: filter_True)

lemma copy_into_run:
  "has_key T dst \<Longrightarrow> \<forall>r \<in> set new. fst r \<notin> fst ` set t \<Longrightarrow> copy_into T dst new t = Inr (t @ new)"
  by (auto simp: copy_into_def)

lemma fresh_ids:
  assumes "fresh_key dst ty T"
  shows "has_key T dst" "dst \<notin> fst ` set (stringsT T)" "dst \<notin> (fst \<circ> fst) ` set (listsT T)"
    "dst \<notin> (fst \<circ> fst) ` set (hashesT T)" "dst \<notin> (fst \<circ> fst) ` set (setsT T)"
    "dst \<notin> (fst \<circ> fst) ` set (zsetsT T)"
  using assms by (auto simp: fresh_key_def has_key_map_of filter_empty_conv)

lemma rekey_new: "dst \<notin> (fst \<circ> fst) ` set t \<Longrightarrow> \<forall>r \<in> set (rekey src dst t). fst r \<notin> fst ` set t"
  by (force dest: set_rekey)

lemma rekey_members:
  "dst \<notin> (fst \<circ> fst) ` set t \<Longrightarrow> (dst, m) \<in> fst ` set (t @ rekey src dst t) \<longleftrightarrow> (src, m) \<in> fst ` set t"
  using map_of_rekey [of dst t src m] by (metis map_of_eq_None_iff)

text \<open>The copy gives the destination the content of the source.\<close>

lemma copy_data_content:
  assumes c: "calm t w" and f: "fresh_key dst ty (tabs w)"
    and ty: "ty \<in> {''string'', ''list'', ''hash'', ''set'', ''zset''}"
  shows "\<exists>w'. copy_data ty src dst w = (Inr (), w') \<and> calm t w' \<and> keysT (tabs w') = keysT (tabs w) \<and>
    content ty (tabs w') dst = content ty (tabs w) src"
proof -
  note ids = fresh_ids [OF f]
  have s: "\<forall>r \<in> set (map (\<lambda>(kd, v). (dst, v)) [r \<leftarrow> stringsT (tabs w). fst r = src]). fst r \<notin> fst ` set (stringsT (tabs w))"
    using ids(2) by auto
  note runs = copy_into_run [OF ids(1) s] copy_into_run [OF ids(1) rekey_new [OF ids(3)]]
    copy_into_run [OF ids(1) rekey_new [OF ids(4)]] copy_into_run [OF ids(1) rekey_new [OF ids(5)]]
    copy_into_run [OF ids(1) rekey_new [OF ids(6)]]
  show ?thesis
    using ty
  proof (elim insertE)
    assume "ty = ''string''"
    then show ?thesis
      using c by (simp add: copy_data_def calm_seq copy_strings_def runs ret_def content_def map_of_moved [OF ids(2)] del: map_of_append)
  next
    assume "ty = ''list''"
    then show ?thesis
      using c by (simp add: copy_data_def calm_seq copy_lists_def runs ret_def content_def list_values_def
          filter_rekeyed [OF ids(3)] sort_rekey del: filter_append)
  next
    assume "ty = ''hash''"
    then show ?thesis
      using c by (simp add: copy_data_def calm_seq copy_hashes_def runs ret_def content_def map_of_rekey [OF ids(4)] del: map_of_append)
  next
    assume "ty = ''set''"
    then show ?thesis
      using c by (simp add: copy_data_def calm_seq copy_sets_def runs ret_def content_def rekey_members [OF ids(5)] del: set_append)
  next
    assume "ty = ''zset''"
    then show ?thesis
      using c by (simp add: copy_data_def calm_seq copy_zsets_def runs ret_def content_def map_of_rekey [OF ids(6)] del: map_of_append)
  qed simp
qed

lemma run_rename_body:
  assumes c: "calm t w" and ok: "store_ok (tabs w)"
    and src: "map_of (keysT (tabs w)) src = Some (ty, ex)" "alive t ex"
  shows "\<exists>w'. rename_body src dst ty ex w = (Inr (Commit ()), w') \<and> calm t w' \<and>
    view t (tabs w') = ((view t (tabs w))(dst \<mapsto> (ex, content ty (tabs w) src)))(src := None)"
proof -
  let ?T = "tabs w"
  have ty: "ty \<in> {''string'', ''list'', ''hash'', ''set'', ''zset''}"
    using store_okD(2) [OF ok, of src] src by (auto simp: rows_ok_def)
  obtain n1 T1 where d: "delete_key dst ?T = Inr (n1, T1)" by (simp add: delete_key_run)
  let ?T2 = "T1\<lparr>keysT := keysT T1 @ [(dst, ty, ex)]\<rparr>"
  have ok1: "store_ok T1" using delete_key_Inr(1) [OF d] ok by (auto simp: store_ok_drop_keys)
  have i: "insert_key dst ty ex T1 = Inr (1, ?T2)"
    using delete_key_Inr(2) [OF d] by (simp add: insert_key_def has_key_map_of)
  let ?w2 = "(bump (bump w))\<lparr>tabs := ?T2\<rparr>"
  obtain w3 where w3: "copy_data ty src dst ?w2 = (Inr (), w3)" "calm t w3" "keysT (tabs w3) = keysT ?T2"
    "content ty (tabs w3) dst = content ty ?T2 src"
    using copy_data_content [of t ?w2 dst ty src] c insert_key_fresh [OF store_okD(1) [OF ok1] i] ty by auto
  obtain n4 T4 where d4: "delete_key src (tabs w3) = Inr (n4, T4)" by (simp add: delete_key_run)
  have run: "rename_body src dst ty ex w = (Inr (Commit ()), (bump w3)\<lparr>tabs := T4\<rparr>)"
    using c d i d4 w3 by (simp add: rename_body_def calm_seq seq_def [of "copy_data _ _ _"] ret_def)
  have k: "keeps (frame {dst}) (copy_data ty src dst)"
    unfolding copy_data_def by (intro others.write_rules; simp)
  have "frame {dst} ?T2 (tabs w3)" using keepsD [OF k w3(1)] by simp
  then have f3: "frame {dst} ?T (tabs w3)"
    by (rule frame.R_trans [OF frame.R_trans [OF delete_key_Inr(3) [OF d] frame_stmtD [OF frame_one_key(4) i]]])
  have v3: "view t (tabs w3) dst = Some (ex, content ty T1 src)"
    using w3(3,4) src(2) delete_key_Inr(2) [OF d] by (simp add: view_def map_add_def)
  have "content ty T1 src = content ty ?T src" if "src \<noteq> dst"
    using content_slice [OF frameD [OF delete_key_Inr(3) [OF d]]] that by simp
  then have "view t T4 = ((view t ?T)(dst \<mapsto> (ex, content ty ?T src)))(src := None)"
    using view_frame [OF f3, of t] by (auto simp: view_delete_key [OF d4] v3 fun_eq_iff)
  with run w3(2) show ?thesis by simp
qed

lemma refines_Rename: "refines t (Rename src dst db) (rename_spec (src, db) (dst, db))"
  unfolding Rename_def
proof (rule refines_purge, goal_cases)
  case (1 w)
  from 1 show ?case
  proof (cases rule: purged_cases)
    case (present ty ex)
    note c = present(1)
    have ok: "calm t (bump (bump w))" "store_ok (tabs (bump (bump w)))"
      "map_of (keysT (tabs (bump (bump w)))) (src, db) = Some (ty, ex)"
      using present purgedD(2) [OF 1] by simp_all
    obtain w' where w': "rename_body (src, db) (dst, db) ty ex (bump (bump w)) = (Inr (Commit ()), w')" "calm t w'"
      "view t (tabs w') = ((view t (tabs w))((dst, db) \<mapsto> (ex, content ty (tabs w) (src, db))))((src, db) := None)"
      using run_rename_body [OF ok present(3), of "(dst, db)"] by auto
    show ?thesis
      using present c w' calm_commit [of t "bump w" "rename_body (src, db) (dst, db) ty ex" "()" w']
      by (simp add: calm_seq rename_spec_def)
  qed (simp add: calm_simps rename_spec_def)
qed

section \<open>Theorems\<close>

text \<open>C9. The operations on keys implement the keyspace specification, in which expired keys are simply
  absent: existence counts every mention of a key, the type and the remaining time are those of the
  value, a new expiry that has passed removes the key, flushing and the background sweep remove
  exactly the keys they are meant to (the sweep none that is visible), listing gives the matching
  names each once, and renaming moves value and expiry over the destination; a key renamed to itself
  is lost. Deletion counts keys that were still there as expired rows.\<close>

theorem key_ops_refine:
  "refines t (Exists names db) (exists_spec names db) \<and>
   refines t (Type key db) (type_spec (key, db)) \<and>
   refines t (ExpireAt key db ms) (expire_spec t (key, db) ms) \<and>
   refines t (PExpire key db ms) (expire_spec t (key, db) (wrap64 (t + ms))) \<and>
   refines t (ttl key db millis) (ttl_spec t (key, db) millis) \<and>
   refines t (Persist key db) (persist_spec (key, db)) \<and>
   refines t (Rename key dst db) (rename_spec (key, db) (dst, db)) \<and>
   refines t (FlushDB db) (flush_spec (\<lambda>kd. snd kd = db)) \<and>
   refines t FlushAll (flush_spec (\<lambda>kd. True)) \<and>
   refines t SweepExpired (flush_spec (\<lambda>kd. False)) \<and>
   refines t (DBSize db) (dbsize_spec db) \<and>
   refines_some t (Del names db) (del_rel names db) \<and>
   refines_some t (Keys pat db) (keys_rel pat db) \<and>
   refines_some t (RandomKey db) (randomkey_rel db)"
  by (intro conjI refines_Exists refines_Type refines_ExpireAt refines_PExpire refines_ttl refines_Persist
      refines_Rename refines_FlushDB refines_FlushAll refines_SweepExpired refines_DBSize refines_Del
      refines_Keys refines_RandomKey)

text \<open>C40. An expiry in seconds is set at the present time plus that many seconds, as long as the number of
  nanoseconds fits into 64 bits, that is up to 9223372036 seconds (292 years); one second more wraps
  around to the past, so that the key is removed and the answer still says that the expiry is set.\<close>

theorem expire_seconds:
  assumes "\<bar>secs\<bar> \<le> 9223372036"
  shows "refines t (Expire key db secs) (expire_spec t (key, db) (t + secs * 1000)) \<and>
    refines t (Expire key db 9223372037)
      (\<lambda>ks. case ks (key, db) of None \<Rightarrow> (Inr False, ks) | Some _ \<Rightarrow> (Inr True, ks((key, db) := None)))"
  using refines_Expire [OF assms] refines_Expire_overflow by (rule conjI)

theorem expire_seconds_witness:
  "refines 7 (Expire ''k'' 0 60) (expire_spec 7 (''k'', 0) (7 + 60 * 1000)) \<and>
    refines 7 (Expire ''k'' 0 9223372037)
      (\<lambda>ks. case ks (''k'', 0) of None \<Rightarrow> (Inr False, ks) | Some _ \<Rightarrow> (Inr True, ks((''k'', 0) := None)))"
  by (rule expire_seconds) simp

end
