(* ===== verification/Refine_Hashes.thy ===== *)
theory Refine_Hashes
  imports Keyspace
begin

text \<open>
  The hash operations refine the keyspace specification: a hash is a finite map from fields to values.
  Removing the last field leaves an empty hash.
\<close>

section \<open>Specifications\<close>

definition hget :: "keyspace \<Rightarrow> key_id \<Rightarrow> string \<rightharpoonup> string" where
  "hget ks kd = (case ks kd of Some (_, RHash h) \<Rightarrow> h | _ \<Rightarrow> Map.empty)"

definition hset_spec :: "key_id \<Rightarrow> (string \<times> string) list \<Rightarrow> keyspace \<Rightarrow> (error + int) \<times> keyspace" where
  "hset_spec kd ps ks =
     (Inr (int (card (dom (map_of ps) - dom (hget ks kd)))),
      put kd (RHash (hget ks kd ++ map_of ps)) ks)"

definition hdel_spec :: "key_id \<Rightarrow> string list \<Rightarrow> keyspace \<Rightarrow> (error + int) \<times> keyspace" where
  "hdel_spec kd fs ks =
     (Inr (int (card (set fs \<inter> dom (hget ks kd)))), alter kd (RHash (hget ks kd |` (- set fs))) ks)"

definition found :: "'a option \<Rightarrow> 'a \<Rightarrow> 'a \<times> bool" where
  "found x z = (case x of None \<Rightarrow> (z, False) | Some v \<Rightarrow> (v, True))"

text \<open>A list of the entries of the hash, each once, in some order.\<close>

definition entries_of :: "(string \<rightharpoonup> string) \<Rightarrow> (string \<times> string) list \<Rightarrow> bool" where
  "entries_of h rows \<longleftrightarrow> distinct (map fst rows) \<and> map_of rows = h"

definition hgetall_rel :: "key_id \<Rightarrow> keyspace \<Rightarrow> (string \<times> string) list \<Rightarrow> bool" where
  "hgetall_rel kd ks = entries_of (hget ks kd)"

definition hlist_rel :: "key_id \<Rightarrow> (string \<times> string \<Rightarrow> string) \<Rightarrow> keyspace \<Rightarrow> string list \<Rightarrow> bool" where
  "hlist_rel kd f ks xs \<longleftrightarrow> (\<exists>rows. entries_of (hget ks kd) rows \<and> xs = map f rows)"

section \<open>Rows and hashes\<close>

definition hash_of :: "tables \<Rightarrow> key_id \<Rightarrow> string \<rightharpoonup> string" where
  "hash_of T kd f = map_of (hashesT T) (kd, f)"

lemma content_hash: "content ''hash'' T kd = RHash (hash_of T kd)"
  by (simp add: content_def hash_of_def fun_eq_iff)

lemma checked_hget:
  assumes "checked t ''hash'' kd w"
  shows "hget (view t (tabs w)) kd = hash_of (tabs w) kd"
proof (cases "map_of (keysT (tabs w)) kd")
  case None
  have "map_of (hashesT (tabs w)) (kd, f) = None" for f
    using checked_absent(2) [OF assms None] by (force simp: map_of_eq_None_iff filter_empty_conv)
  then show ?thesis
    using view_None [OF None, of t] by (simp add: hget_def hash_of_def fun_eq_iff)
next
  case (Some row)
  then show ?thesis
    using checked_view [OF assms] by (cases row) (simp add: hget_def content_hash)
qed

lemma hash_rows_map:
  assumes "schema_ok T"
  shows "distinct (map fst (hash_rows T kd))" "map_of (hash_rows T kd) = hash_of T kd"
proof -
  have d: "distinct (map fst (hashesT T))" using assms by (simp add: schema_ok_def pk_ok_def)
  have "distinct (map fst (map (\<lambda>((i, f), v). (f, v)) [r \<leftarrow> H. fst (fst r) = kd]))" if "distinct (map fst H)"
    for H :: "((key_id \<times> string) \<times> string) list"
    using that by (induction H) (auto simp: image_iff prod_eq_iff)
  from this [OF d] show "distinct (map fst (hash_rows T kd))" unfolding hash_rows_def .
  have "map_of (map (\<lambda>((i, f), v). (f, v)) [r \<leftarrow> H. fst (fst r) = kd]) f = map_of H (kd, f)"
    for f and H :: "((key_id \<times> string) \<times> string) list" by (induction H) auto
  then show "map_of (hash_rows T kd) = hash_of T kd" by (simp add: hash_rows_def hash_of_def fun_eq_iff)
qed

lemma length_hash_rows: "schema_ok T \<Longrightarrow> length (hash_rows T kd) = card (dom (hash_of T kd))"
  using hash_rows_map [of T kd] distinct_card [of "map fst (hash_rows T kd)"]
  by (metis dom_map_of_conv_image_fst length_map set_map)

section \<open>Reading\<close>

lemma refines_HGet:
  "refines t (HGet key db f)
     (typed_spec ''hash'' (key, db) (read_spec (\<lambda>ks. found (hget ks (key, db) f) '''')))"
  unfolding HGet_def hAssert_def query_map
  by (rule refines_read) (simp add: found_def checked_hget hash_of_def)

lemma refines_HLen:
  "refines t (HLen key db)
     (typed_spec ''hash'' (key, db) (read_spec (\<lambda>ks. int (card (dom (hget ks (key, db)))))))"
  unfolding HLen_def hAssert_def
  by (rule refines_read) (simp add: checked_hget length_hash_rows checkedD(3))

lemma refines_HExists:
  "refines t (HExists key db f)
     (typed_spec ''hash'' (key, db) (read_spec (\<lambda>ks. hget ks (key, db) f \<noteq> None)))"
proof -
  have "HExists key db f = seq (deleteExpired key db) (\<lambda>_. seq (assertType key db ''hash'') (\<lambda>_.
      query (\<lambda>T. map_of (hashesT T) ((key, db), f) \<noteq> None)))"
    unfolding HExists_def HGet_def hAssert_def seq_assoc
    by (intro arg_cong2 [of _ _ _ _ seq] ext refl)
      (auto simp: seq_def query_def ret_def split: option.split)
  then show ?thesis
    by (simp only:) (rule refines_read, simp add: checked_hget hash_of_def)
qed

lemma arranged_entries:
  "checked t ''hash'' kd w \<Longrightarrow> entries_of (hget (view t (tabs w)) kd) (arrange p (hash_rows (tabs w) kd))"
  using hash_rows_map [of "tabs w" kd] checkedD(3) [of t "''hash''" kd w]
  by (simp add: entries_of_def checked_hget flip: arrange_map)

lemma go_map_of_entries: "entries_of h rows \<Longrightarrow> entries_of h (go_map_of rows)"
  using map_of_inject_set [of "rev rows" rows] by (simp add: entries_of_def map_of_go_map_of rev_map [symmetric])

lemma refines_HGetAll:
  "refines_some t (HGetAll key db) (typed_rel ''hash'' (key, db) (read_rel (hgetall_rel (key, db))))"
  unfolding HGetAll_def hAssert_def
  by (rule refines_rows) (simp add: hgetall_rel_def go_map_of_entries arranged_entries)

lemma refines_HKeys:
  "refines_some t (HKeys key db) (typed_rel ''hash'' (key, db) (read_rel (hlist_rel (key, db) fst)))"
  unfolding HKeys_def hAssert_def
  by (subst query_rows_ret, rule refines_rows) (auto simp: hlist_rel_def arrange_map intro: arranged_entries)

lemma refines_HVals:
  "refines_some t (HVals key db) (typed_rel ''hash'' (key, db) (read_rel (hlist_rel (key, db) snd)))"
  unfolding HVals_def hAssert_def
  by (subst query_rows_ret, rule refines_rows) (auto simp: hlist_rel_def arrange_map intro: arranged_entries)

text \<open>\<^verbatim>\<open>HMGet\<close> calls \<^verbatim>\<open>HGet\<close> for each field: without fields nothing is checked.\<close>

definition hmget_spec :: "key_id \<Rightarrow> string list \<Rightarrow> keyspace \<Rightarrow> (error + string option list) \<times> keyspace" where
  "hmget_spec kd fs ks =
     (if fs = [] then (Inr [], ks) else typed_spec ''hash'' kd (read_spec (\<lambda>ks. map (hget ks kd) fs)) ks)"

lemma run_HGet:
  assumes "calm t w" "store_ok (tabs w)"
  obtains (refused) ex v w1 where "view t (tabs w) (key, db) = Some (ex, v)" "kind v \<noteq> ''hash''"
      "HGet key db f w = (Inl ErrWrongType, w1)" "view t (tabs w1) = view t (tabs w)"
    | (passed) w1 where "HGet key db f w = (Inr (found (hget (view t (tabs w)) (key, db) f) ''''), w1)"
      "calm t w1" "store_ok (tabs w1)" "view t (tabs w1) = view t (tabs w)"
      "\<And>ex v. view t (tabs w) (key, db) = Some (ex, v) \<Longrightarrow> kind v = ''hash''"
proof -
  let ?q = "query (\<lambda>T. case map_of (hashesT T) ((key, db), f) of None \<Rightarrow> ('''', False) | Some v \<Rightarrow> (v, True))"
  note def = HGet_def [of key db f, unfolded hAssert_def query_map]
  from assms show ?thesis
  proof (cases rule: guard_run [of t w key db "''hash''" ?q])
    case (refused ex v w1)
    then show ?thesis using that(1) by (simp add: def)
  next
    case (passed w1)
    have "?q w1 = (Inr (found (hget (view t (tabs w1)) (key, db) f) ''''), bump w1)"
      using checkedD(1) [OF passed(1)]
      by (simp add: calm_query checked_hget [OF passed(1)] found_def hash_of_def)
    then show ?thesis
      using that(2) [of "bump w1"] passed checkedD [OF passed(1)] by (simp add: def)
  qed
qed

lemma refines_HMGet: "refines t (HMGet key db fs) (hmget_spec (key, db) fs)"
  unfolding refines_def
proof (intro allI impI)
  fix w assume c: "calm t w" "store_ok (tabs w)"
  let ?V = "view t (tabs w)" and ?h = "hget (view t (tabs w)) (key, db)"
  let ?step = "\<lambda>f result. seq (HGet key db f) (\<lambda>(val, found). ret (result @ [if found then Some val else None]))"
  show "(fst (HMGet key db fs w), view t (tabs (snd (HMGet key db fs w)))) = hmget_spec (key, db) fs ?V"
  proof (cases "\<exists>ex v. ?V (key, db) = Some (ex, v) \<and> kind v \<noteq> ''hash''")
    case True
    then obtain ex v where v: "?V (key, db) = Some (ex, v)" "kind v \<noteq> ''hash''" by blast
    show ?thesis
    proof (cases fs)
      case (Cons f rest)
      show ?thesis
        by (cases rule: run_HGet [OF c, of key db f])
          (use v Cons in \<open>simp_all add: HMGet_def hmget_spec_def typed_spec_def seq_def\<close>)
    qed (simp add: HMGet_def hmget_spec_def ret_def)
  next
    case False
    let ?I = "\<lambda>rest result w. calm t w \<and> store_ok (tabs w) \<and> view t (tabs w) = ?V \<and>
      result @ map ?h rest = map ?h fs"
    have "\<exists>result w'. each ?step fs [] w = (Inr result, w') \<and> ?I [] result w'"
    proof (rule each_run [where I = ?I])
      fix f rest result w
      assume I: "?I (f # rest) result w"
      then have c: "calm t w" "store_ok (tabs w)" by simp_all
      show "\<exists>result' w'. ?step f result w = (Inr result', w') \<and> ?I rest result' w'"
        by (cases rule: run_HGet [OF c, of key db f])
          (use I False in \<open>auto simp: seq_def ret_def found_def split: option.split\<close>)
    qed (use c in simp)
    then show ?thesis
      using False by (auto simp: HMGet_def hmget_spec_def typed_spec_def read_spec_def split: option.split)
  qed
qed

section \<open>Writing\<close>

lemma hash_of_update: "hash_of (T\<lparr>hashesT := AList.update (kd, f) v (hashesT T)\<rparr>) kd = (hash_of T kd)(f \<mapsto> v)"
  by (simp add: hash_of_def fun_eq_iff update_conv')

lemma hash_of_delete:
  "hash_of (T\<lparr>hashesT := [r \<leftarrow> hashesT T. fst r \<noteq> (kd, f)]\<rparr>) kd = (hash_of T kd)(f := None)"
  by (simp add: hash_of_def fun_eq_iff map_of_filter_ne)

lemma card_new_fields:
  assumes "f \<notin> fst ` set ps"
  shows "card (dom (map_of ((f, v) # ps)) - dom h) = card (dom (map_of ps) - dom (h(f \<mapsto> v))) + (if h f = None then 1 else 0)"
proof -
  let ?X = "dom (map_of ps) - dom h"
  have "f \<notin> dom (map_of ps)" using assms by (simp add: dom_map_of_conv_image_fst)
  then have "dom (map_of ((f, v) # ps)) - dom h = (if h f = None then insert f ?X else ?X)"
    "dom (map_of ps) - dom (h(f \<mapsto> v)) = ?X" "f \<notin> ?X" by auto
  then show ?thesis by (simp add: finite_dom_map_of)
qed

text \<open>The loop of \<^verbatim>\<open>HSet\<close>: \<open>h\<close> is the hash before the loop, \<open>ps\<close> its entries.\<close>

definition fields_set :: "int \<Rightarrow> key_id \<Rightarrow> tables \<Rightarrow> (string \<times> string) list \<Rightarrow> (string \<times> string) list \<Rightarrow> int \<Rightarrow> world \<Rightarrow> bool" where
  "fields_set t kd T ps rest added w \<longleftrightarrow> calm t w \<and> keysT (tabs w) = keysT T \<and> frame {kd} T (tabs w) \<and>
     distinct (map fst rest) \<and>
     hash_of (tabs w) kd ++ map_of rest = hash_of T kd ++ map_of ps \<and>
     added + int (card (dom (map_of rest) - dom (hash_of (tabs w) kd))) =
       int (card (dom (map_of ps) - dom (hash_of T kd)))"

lemma count_field_0: "count_field T kd f = 0 \<longleftrightarrow> hash_of T kd f = None"
  using row_of_map_of [of "(kd, f)" "hashesT T"] unfolding count_field_def hash_of_def by auto

lemma run_HSet_step:
  assumes "calm t w" "upsert_field kd f v (tabs w) = Inr (n, T')"
  shows "(\<lambda>(field, val) added.
       seq (scan_or 0 (query (\<lambda>T. count_field T kd field))) (\<lambda>exists.
       let added = (if exists = 0 then added + 1 else added) in
       seq (exec (upsert_field kd field val)) (\<lambda>_. ret added))) (f, v) added w =
     (Inr (if hash_of (tabs w) kd f = None then added + 1 else added), (bump (bump w))\<lparr>tabs := T'\<rparr>)"
  using assms by (simp add: calm_seq count_field_0 ret_def)

lemma fields_set_step:
  assumes "fields_set t kd T ps ((f, v) # rest) added w" "has_key T kd"
  shows "\<exists>added' w'. (\<lambda>(field, val) added.
       seq (scan_or 0 (query (\<lambda>T. count_field T kd field))) (\<lambda>exists.
       let added = (if exists = 0 then added + 1 else added) in
       seq (exec (upsert_field kd field val)) (\<lambda>_. ret added))) (f, v) added w = (Inr added', w') \<and>
     fields_set t kd T ps rest added' w'"
proof -
  let ?T = "tabs w"
  let ?T' = "?T\<lparr>hashesT := AList.update (kd, f) v (hashesT ?T)\<rparr>"
  note I = assms(1) [unfolded fields_set_def]
  have "has_key ?T kd" using I assms(2) by (simp add: has_key_def)
  then have st: "upsert_field kd f v ?T = Inr (1, ?T')" by (simp add: upsert_field_def)
  have fr: "frame {kd} T ?T'" using I frame.R_trans frame_stmtD [OF frame_one_key(11) st] by blast
  have f: "f \<notin> fst ` set rest" using I by simp
  then have "f \<notin> dom (map_of rest)" by (simp add: dom_map_of_conv_image_fst)
  then have "(hash_of ?T kd)(f \<mapsto> v) ++ map_of rest = hash_of T kd ++ map_of ps"
    using I by (simp add: map_add_upd_left)
  moreover have "(if hash_of ?T kd f = None then added + 1 else added) +
      int (card (dom (map_of rest) - dom ((hash_of ?T kd)(f \<mapsto> v)))) = int (card (dom (map_of ps) - dom (hash_of T kd)))"
    using I card_new_fields [OF f, of v "hash_of ?T kd"] by (cases "hash_of ?T kd f") simp_all
  ultimately have I': "fields_set t kd T ps rest (if hash_of ?T kd f = None then added + 1 else added)
      ((bump (bump w))\<lparr>tabs := ?T'\<rparr>)"
    using I fr by (simp add: fields_set_def hash_of_update)
  have c: "calm t w" using I by simp
  show ?thesis
    by (intro exI conjI, rule run_HSet_step [OF c st], rule I')
qed

lemma refines_HSet:
  assumes d: "distinct (map fst pairs)"
  shows "refines t (HSet key db pairs) (typed_spec ''hash'' (key, db) (hset_spec (key, db) pairs))"
  unfolding HSet_def hEnsure_def hAssert_def seq_assoc
proof (rule refines_guard, goal_cases)
  case (1 w)
  let ?kd = "(key, db)"
  obtain n w1 where e: "exec (insert_key_or_nothing ?kd ''hash'') w = (Inr n, w1)" "checked t ''hash'' ?kd w1"
    "has_key (tabs w1) ?kd" "view t (tabs w1) = put ?kd (content ''hash'' (tabs w) ?kd) (view t (tabs w))"
    "content ''hash'' (tabs w1) ?kd = content ''hash'' (tabs w) ?kd"
    by (rule ensure_run [OF 1]) auto
  let ?h = "hash_of (tabs w) ?kd" and ?ps = "arrange (orders (env (bump w1)) (tick (bump w1))) pairs"
  define step where "step = (\<lambda>(field, val) added.
      seq (scan_or 0 (query (\<lambda>T. count_field T ?kd field))) (\<lambda>exists.
      let added = (if exists = 0 then added + 1 else added) in
      seq (exec (upsert_field ?kd field val)) (\<lambda>_. ret added)) :: int act)"
  define body where "body = seq (range_map pairs) (\<lambda>entries.
      seq (each step entries 0) (\<lambda>added. ret (Commit added)))"
  have h: "hash_of (tabs w1) ?kd = ?h" using e(5) by (simp add: content_hash)
  have ps: "distinct (map fst ?ps)" "map_of ?ps = map_of pairs" using d by (simp_all flip: arrange_map)
  have init: "fields_set t ?kd (tabs w1) ?ps ?ps 0 (bump (bump w1))"
    using ps checkedD(1) [OF e(2)] by (simp add: fields_set_def frame.R_refl)
  have "\<exists>added w2. each step ?ps 0 (bump (bump w1)) = (Inr added, w2) \<and>
      fields_set t ?kd (tabs w1) ?ps [] added w2"
    by (rule each_run [where I = "fields_set t ?kd (tabs w1) ?ps", OF _ init])
      (use fields_set_step [OF _ e(3)] in \<open>auto simp: step_def simp del: split_paired_Ex\<close>)
  then obtain added w2 where w2: "each step ?ps 0 (bump (bump w1)) = (Inr added, w2)"
    "fields_set t ?kd (tabs w1) ?ps [] added w2" by blast
  have b: "body (bump w1) = (Inr (Commit added), w2)"
    using w2(1) by (simp add: body_def seq_def range_map_def ret_def)
  have r: "calm t w2" "hash_of (tabs w2) ?kd = ?h ++ map_of pairs"
    "added = int (card (dom (map_of pairs) - dom ?h))"
    "frame {?kd} (tabs w1) (tabs w2)" "keysT (tabs w2) = keysT (tabs w1)"
    using w2(2) ps(2) by (simp_all add: fields_set_def h)
  have "view t (tabs w2) = put ?kd (RHash (?h ++ map_of pairs)) (view t (tabs w))"
    by (simp add: view_alter [OF e(2) r(4,5)] e(4) content_hash r(2))
  then have "(fst (transact body w1), view t (tabs (snd (transact body w1)))) = hset_spec ?kd pairs (view t (tabs w))"
    by (simp add: calm_commit [of t w1 body added w2, OF checkedD(1) [OF e(2)] b r(1)] hset_spec_def checked_hget [OF 1] r(3))
  then show ?case
    unfolding body_def step_def by (simp add: seq_def [of "exec _"] e(1))
qed

text \<open>The loop of \<^verbatim>\<open>HDel\<close>: the fields in \<open>D\<close> are gone.\<close>

definition fields_gone :: "int \<Rightarrow> key_id \<Rightarrow> tables \<Rightarrow> string set \<Rightarrow> int \<Rightarrow> world \<Rightarrow> bool" where
  "fields_gone t kd T D removed w \<longleftrightarrow> calm t w \<and> keysT (tabs w) = keysT T \<and> frame {kd} T (tabs w) \<and>
     finite D \<and> distinct (map fst (hashesT (tabs w))) \<and>
     hash_of (tabs w) kd = hash_of T kd |` (- D) \<and> removed = int (card (D \<inter> dom (hash_of T kd)))"

lemma fields_gone_step:
  assumes "fields_gone t kd T D removed w"
  shows "\<exists>n w'. exec (delete_field kd f) w = (Inr n, w') \<and> fields_gone t kd T (insert f D) (removed + int n) w'"
proof -
  let ?T = "tabs w"
  let ?T' = "?T\<lparr>hashesT := [r \<leftarrow> hashesT ?T. fst r \<noteq> (kd, f)]\<rparr>"
  note I = assms [unfolded fields_gone_def]
  define n where "n = length [r \<leftarrow> hashesT ?T. fst r = (kd, f)]"
  have st: "delete_field kd f ?T = Inr (n, ?T')" by (simp add: delete_field_def n_def)
  have fr: "frame {kd} T ?T'" using I frame.R_trans frame_stmtD [OF frame_one_key(12) st] by blast
  have n: "n = (if hash_of ?T kd f = None then 0 else 1)"
    unfolding n_def hash_of_def by (rule length_filter_key) (use I in simp)
  have h: "hash_of ?T' kd = hash_of T kd |` (- insert f D)"
    using I unfolding hash_of_delete by (auto simp: restrict_map_def fun_eq_iff)
  have "insert f D \<inter> dom (hash_of T kd) =
      (if hash_of T kd f = None then D \<inter> dom (hash_of T kd) else insert f (D \<inter> dom (hash_of T kd)))" by auto
  then have "removed + int n = int (card (insert f D \<inter> dom (hash_of T kd)))"
    using I n by (cases "f \<in> D"; cases "hash_of T kd f") (auto simp: restrict_map_def insert_absorb)
  moreover have "exec (delete_field kd f) w = (Inr n, (bump w)\<lparr>tabs := ?T'\<rparr>)"
    using calm_exec_Inr [of t w "delete_field kd f"] st I by simp
  ultimately show ?thesis
    using I fr h by (simp add: fields_gone_def distinct_map_filter_fst)
qed

lemma refines_HDel:
  "refines t (HDel key db fs) (typed_spec ''hash'' (key, db) (hdel_spec (key, db) fs))"
  unfolding HDel_def hAssert_def
proof (rule refines_guard, goal_cases)
  case (1 w)
  let ?kd = "(key, db)"
  let ?I = "\<lambda>D removed w'. fields_gone t ?kd (tabs w) D removed w'"
  have init: "?I {} 0 w"
    using checkedD(1,3) [OF 1]
    by (simp add: fields_gone_def frame.R_refl schema_ok_def pk_ok_def restrict_map_def [of _ UNIV])
  obtain removed w' where
    run: "each (\<lambda>f removed. seq (exec (delete_field ?kd f)) (\<lambda>n. ret (removed + int n))) fs 0 w = (Inr removed, w')"
    and g: "fields_gone t ?kd (tabs w) (set fs) removed w'"
    using each_counted [where I = ?I and st = "delete_field ?kd", OF fields_gone_step init] by blast
  have "view t (tabs w') = alter ?kd (RHash (hash_of (tabs w) ?kd |` (- set fs))) (view t (tabs w))"
    using view_alter [OF 1, of "tabs w'"] g by (simp add: fields_gone_def content_hash)
  then show ?case
    using run g by (simp add: hdel_spec_def checked_hget [OF 1] fields_gone_def)
qed

section \<open>Theorems\<close>

text \<open>C10. The hash operations implement finite maps: setting the entries of a Go map overrides the fields
  and answers how many are new, deleting removes the fields and answers how many were there (an
  emptied hash stays), reading gives the values, sizes and listings of the map, listings in an
  arbitrary order. The expiry of the key stays, a key of another type gives the type error and
  changes nothing.\<close>

theorem hash_ops_refine:
  assumes "distinct (map fst pairs)"
  shows "refines t (HSet key db pairs) (typed_spec ''hash'' (key, db) (hset_spec (key, db) pairs)) \<and>
   refines t (HDel key db fs) (typed_spec ''hash'' (key, db) (hdel_spec (key, db) fs)) \<and>
   refines t (HGet key db f)
     (typed_spec ''hash'' (key, db) (read_spec (\<lambda>ks. found (hget ks (key, db) f) ''''))) \<and>
   refines t (HExists key db f)
     (typed_spec ''hash'' (key, db) (read_spec (\<lambda>ks. hget ks (key, db) f \<noteq> None))) \<and>
   refines t (HLen key db)
     (typed_spec ''hash'' (key, db) (read_spec (\<lambda>ks. int (card (dom (hget ks (key, db))))))) \<and>
   refines t (HMGet key db fs) (hmget_spec (key, db) fs) \<and>
   refines_some t (HGetAll key db) (typed_rel ''hash'' (key, db) (read_rel (hgetall_rel (key, db)))) \<and>
   refines_some t (HKeys key db) (typed_rel ''hash'' (key, db) (read_rel (hlist_rel (key, db) fst))) \<and>
   refines_some t (HVals key db) (typed_rel ''hash'' (key, db) (read_rel (hlist_rel (key, db) snd)))"
  by (intro conjI refines_HSet [OF assms] refines_HDel refines_HGet refines_HExists refines_HLen
      refines_HMGet refines_HGetAll refines_HKeys refines_HVals)

theorem hash_ops_refine_witness:
  "refines 7 (HSet ''k'' 0 [(''a'', ''1''), (''b'', ''2'')])
     (typed_spec ''hash'' (''k'', 0) (hset_spec (''k'', 0) [(''a'', ''1''), (''b'', ''2'')]))"
  using hash_ops_refine [of "[(''a'', ''1''), (''b'', ''2'')]" 7 "''k''" 0] by simp

end
