(* ===== verification/Refine_Sets.thy ===== *)
theory Refine_Sets
  imports Keyspace
begin

text \<open>
  The set operations refine the keyspace specification: a set is a finite set of members. Removing
  the last member leaves an empty set.
\<close>

section \<open>Specifications\<close>

definition sget :: "keyspace \<Rightarrow> key_id \<Rightarrow> string set" where
  "sget ks kd = (case ks kd of Some (_, RSet S) \<Rightarrow> S | _ \<Rightarrow> {})"

definition sadd_spec :: "key_id \<Rightarrow> string list \<Rightarrow> keyspace \<Rightarrow> (error + int) \<times> keyspace" where
  "sadd_spec kd ms ks =
     (Inr (int (card (set ms - sget ks kd))), put kd (RSet (sget ks kd \<union> set ms)) ks)"

definition srem_spec :: "key_id \<Rightarrow> string list \<Rightarrow> keyspace \<Rightarrow> (error + int) \<times> keyspace" where
  "srem_spec kd ms ks =
     (Inr (int (card (set ms \<inter> sget ks kd))), alter kd (RSet (sget ks kd - set ms)) ks)"

text \<open>The elements of a set, each once, in some order.\<close>

definition lists_set :: "'a set \<Rightarrow> 'a list \<Rightarrow> bool" where
  "lists_set S xs \<longleftrightarrow> distinct xs \<and> set xs = S"

text \<open>The union: every key is checked, one of another type gives the type error.\<close>

definition bad_key :: "int \<Rightarrow> keyspace \<Rightarrow> string \<Rightarrow> bool" where
  "bad_key db ks k \<longleftrightarrow> (\<exists>ex v. ks (k, db) = Some (ex, v) \<and> kind v \<noteq> ''set'')"

definition sunion_rel :: "string list \<Rightarrow> int \<Rightarrow> keyspace \<Rightarrow> error + string list \<Rightarrow> keyspace \<Rightarrow> bool" where
  "sunion_rel names db ks r ks' \<longleftrightarrow> ks' = ks \<and>
     (if \<exists>k \<in> set names. bad_key db ks k then r = Inl ErrWrongType
      else \<exists>xs. r = Inr xs \<and> lists_set (\<Union>k \<in> set names. sget ks (k, db)) xs)"

text \<open>Intersection and difference do not look at the types: a key of another type counts as empty.\<close>

definition sinter_rel :: "string list \<Rightarrow> int \<Rightarrow> keyspace \<Rightarrow> string list \<Rightarrow> bool" where
  "sinter_rel names db ks =
     lists_set (case names of [] \<Rightarrow> {} | k # rest \<Rightarrow> sget ks (k, db) \<inter> (\<Inter>k \<in> set rest. sget ks (k, db)))"

definition sdiff_rel :: "string list \<Rightarrow> int \<Rightarrow> keyspace \<Rightarrow> string list \<Rightarrow> bool" where
  "sdiff_rel names db ks =
     lists_set (case names of [] \<Rightarrow> {} | k # rest \<Rightarrow> sget ks (k, db) - (\<Union>k \<in> set rest. sget ks (k, db)))"

text \<open>The same with the first key as its rows say, expired or not.\<close>

definition stored_members :: "tables \<Rightarrow> key_id \<Rightarrow> string set" where
  "stored_members T kd = {m. (kd, m) \<in> fst ` set (setsT T)}"

definition sinter_stored :: "string list \<Rightarrow> int \<Rightarrow> tables \<Rightarrow> keyspace \<Rightarrow> string list \<Rightarrow> bool" where
  "sinter_stored names db T ks =
     lists_set (case names of [] \<Rightarrow> {} | k # rest \<Rightarrow> stored_members T (k, db) \<inter> (\<Inter>k \<in> set rest. sget ks (k, db)))"

definition sdiff_stored :: "string list \<Rightarrow> int \<Rightarrow> tables \<Rightarrow> keyspace \<Rightarrow> string list \<Rightarrow> bool" where
  "sdiff_stored names db T ks =
     lists_set (case names of [] \<Rightarrow> {} | k # rest \<Rightarrow> stored_members T (k, db) - (\<Union>k \<in> set rest. sget ks (k, db)))"

text \<open>Refinement where the result also depends on the rows.\<close>

definition refines_stored :: "int \<Rightarrow> 'a act \<Rightarrow> (tables \<Rightarrow> keyspace \<Rightarrow> error + 'a \<Rightarrow> keyspace \<Rightarrow> bool) \<Rightarrow> bool" where
  "refines_stored t m R \<longleftrightarrow> (\<forall>w. calm t w \<longrightarrow> store_ok (tabs w) \<longrightarrow>
     R (tabs w) (view t (tabs w)) (fst (m w)) (view t (tabs (snd (m w)))))"

text \<open>Refinement from tables with a property \<open>P\<close>.\<close>

definition refines_when :: "(tables \<Rightarrow> bool) \<Rightarrow> int \<Rightarrow> 'a act \<Rightarrow> (keyspace \<Rightarrow> error + 'a \<Rightarrow> keyspace \<Rightarrow> bool) \<Rightarrow> bool" where
  "refines_when P t m R \<longleftrightarrow> (\<forall>w. calm t w \<longrightarrow> store_ok (tabs w) \<longrightarrow> P (tabs w) \<longrightarrow>
     R (view t (tabs w)) (fst (m w)) (view t (tabs (snd (m w)))))"

section \<open>Rows and sets\<close>

definition members :: "tables \<Rightarrow> key_id \<Rightarrow> string set" where
  "members T kd = {m. (kd, m) \<in> fst ` set (setsT T)}"

lemma content_set: "content ''set'' T kd = RSet (members T kd)"
  by (simp add: content_def members_def)

lemma member_iff: "m \<in> members T kd \<longleftrightarrow> map_of (setsT T) (kd, m) \<noteq> None"
  by (simp add: members_def map_of_eq_None_iff del: not_None_eq)

lemma no_members: "[r \<leftarrow> setsT T. fst (fst r) = kd] = [] \<Longrightarrow> members T kd = {}"
  by (auto simp: members_def filter_empty_conv)

lemma checked_sget:
  assumes "checked t ''set'' kd w"
  shows "sget (view t (tabs w)) kd = members (tabs w) kd"
proof (cases "map_of (keysT (tabs w)) kd")
  case None
  then show ?thesis
    using view_None [OF None, of t] no_members [OF checked_absent(3) [OF assms None]] by (simp add: sget_def)
next
  case (Some row)
  then show ?thesis
    using checked_view [OF assms] by (cases row) (simp add: sget_def content_set)
qed

lemma set_rows_list:
  assumes "schema_ok T"
  shows "distinct (set_rows T kd)" "set (set_rows T kd) = members T kd"
proof -
  have d: "distinct (map fst (setsT T))" using assms by (simp add: schema_ok_def pk_ok_def)
  have "distinct (map (\<lambda>r. snd (fst r)) [r \<leftarrow> S. fst (fst r) = kd])" if "distinct (map fst S)"
    for S :: "((key_id \<times> string) \<times> unit) list"
    using that by (induction S) (auto simp: image_iff prod_eq_iff)
  from this [OF d] show "distinct (set_rows T kd)" unfolding set_rows_def .
  show "set (set_rows T kd) = members T kd" by (force simp: set_rows_def members_def)
qed

lemma finite_members: "finite (members T kd)"
proof -
  have "members T kd \<subseteq> snd ` fst ` set (setsT T)" by (force simp: members_def)
  then show ?thesis by (rule finite_subset) simp
qed

section \<open>Reading\<close>

lemma length_set_rows: "schema_ok T \<Longrightarrow> length (set_rows T kd) = card (members T kd)"
  using set_rows_list [of T kd] distinct_card by metis

lemma count_member: "length [r \<leftarrow> setsT T. fst r = (kd, m)] > 0 \<longleftrightarrow> m \<in> members T kd"
  by (force simp: members_def filter_empty_conv)

lemma refines_SIsMember:
  "refines t (SIsMember key db m) (typed_spec ''set'' (key, db) (read_spec (\<lambda>ks. m \<in> sget ks (key, db))))"
  unfolding SIsMember_def sAssert_def query_map
  by (rule refines_read) (simp only: checked_sget count_member)

lemma refines_SCard:
  "refines t (SCard key db) (typed_spec ''set'' (key, db) (read_spec (\<lambda>ks. int (card (sget ks (key, db))))))"
  unfolding SCard_def sAssert_def
  by (rule refines_read) (simp add: checked_sget length_set_rows checkedD(3))

lemma refines_SMembers:
  "refines_some t (SMembers key db)
     (typed_rel ''set'' (key, db) (read_rel (\<lambda>ks. lists_set (sget ks (key, db)))))"
  unfolding SMembers_def sAssert_def
  by (subst query_rows_ret, rule refines_rows)
    (simp add: lists_set_def checked_sget set_rows_list checkedD(3))

section \<open>Writing\<close>

lemma members_insert:
  "members (T\<lparr>setsT := setsT T @ [((kd, m), ())]\<rparr>) kd = insert m (members T kd)"
  by (auto simp: members_def)

lemma members_delete:
  "members (T\<lparr>setsT := [r \<leftarrow> setsT T. fst r \<noteq> (kd, m)]\<rparr>) kd = members T kd - {m}"
  by (force simp: members_def)

text \<open>The loops of \<^verbatim>\<open>SAdd\<close> and \<^verbatim>\<open>SRem\<close>: the members in \<open>D\<close> are there, or gone.\<close>

definition members_added :: "int \<Rightarrow> key_id \<Rightarrow> tables \<Rightarrow> string set \<Rightarrow> int \<Rightarrow> world \<Rightarrow> bool" where
  "members_added t kd T D added w \<longleftrightarrow> calm t w \<and> keysT (tabs w) = keysT T \<and> frame {kd} T (tabs w) \<and>
     finite D \<and> has_key T kd \<and> members (tabs w) kd = members T kd \<union> D \<and>
     added = int (card (D - members T kd))"

lemma members_added_step:
  assumes "members_added t kd T D added w"
  shows "\<exists>n w'. exec (insert_member_or_nothing kd m) w = (Inr n, w') \<and>
    members_added t kd T (insert m D) (added + int n) w'"
proof -
  note I = assms [unfolded members_added_def]
  have k: "has_key (tabs w) kd" using I by (simp add: has_key_def)
  obtain n T' where st: "insert_member_or_nothing kd m (tabs w) = Inr (n, T')"
    using k by (cases "(kd, m) \<in> fst ` set (setsT (tabs w))") (auto simp: insert_member_or_nothing_def)
  have n: "n = (if m \<in> members (tabs w) kd then 0 else 1)" "keysT T' = keysT (tabs w)"
    "members T' kd = insert m (members (tabs w) kd)"
    using st k by (auto simp: insert_member_or_nothing_def members_def split: if_splits)
  have fr: "frame {kd} T T'" using I frame.R_trans frame_stmtD [OF frame_one_key(13) st] by blast
  have "insert m D - members T kd = (if m \<in> members T kd then D - members T kd else insert m (D - members T kd))"
    by auto
  then have "added + int n = int (card (insert m D - members T kd))"
    using I n(1) by (cases "m \<in> D") (auto simp: insert_absorb)
  moreover have "exec (insert_member_or_nothing kd m) w = (Inr n, (bump w)\<lparr>tabs := T'\<rparr>)"
    using calm_exec_Inr [of t w "insert_member_or_nothing kd m"] st I by simp
  ultimately show ?thesis using I fr n(2,3) by (simp add: members_added_def)
qed

definition members_gone :: "int \<Rightarrow> key_id \<Rightarrow> tables \<Rightarrow> string set \<Rightarrow> int \<Rightarrow> world \<Rightarrow> bool" where
  "members_gone t kd T D removed w \<longleftrightarrow> calm t w \<and> keysT (tabs w) = keysT T \<and> frame {kd} T (tabs w) \<and>
     finite D \<and> distinct (map fst (setsT (tabs w))) \<and> members (tabs w) kd = members T kd - D \<and>
     removed = int (card (D \<inter> members T kd))"

lemma members_gone_step:
  assumes "members_gone t kd T D removed w"
  shows "\<exists>n w'. exec (delete_member kd m) w = (Inr n, w') \<and> members_gone t kd T (insert m D) (removed + int n) w'"
proof -
  let ?T = "tabs w"
  let ?T' = "?T\<lparr>setsT := [r \<leftarrow> setsT ?T. fst r \<noteq> (kd, m)]\<rparr>"
  note I = assms [unfolded members_gone_def]
  define n where "n = length [r \<leftarrow> setsT ?T. fst r = (kd, m)]"
  have st: "delete_member kd m ?T = Inr (n, ?T')" by (simp add: delete_member_def n_def)
  have fr: "frame {kd} T ?T'" using I frame.R_trans frame_stmtD [OF frame_one_key(14) st] by blast
  have "n = (if map_of (setsT ?T) (kd, m) = None then 0 else 1)"
    unfolding n_def by (rule length_filter_key) (use I in simp)
  then have "n = (if m \<in> members ?T kd then 1 else 0)" by (auto simp: member_iff)
  then have n: "n = (if m \<in> members T kd - D then 1 else 0)" using I by simp
  have "insert m D \<inter> members T kd = (if m \<in> members T kd then insert m (D \<inter> members T kd) else D \<inter> members T kd)"
    by auto
  then have "removed + int n = int (card (insert m D \<inter> members T kd))"
    using I n by (cases "m \<in> D") (auto simp: insert_absorb)
  moreover have "exec (delete_member kd m) w = (Inr n, (bump w)\<lparr>tabs := ?T'\<rparr>)"
    using calm_exec_Inr [of t w "delete_member kd m"] st I by simp
  moreover have "members ?T' kd = members T kd - insert m D" using I unfolding members_delete by auto
  ultimately show ?thesis
    using I fr by (simp add: members_gone_def distinct_map_filter_fst)
qed

lemma refines_SAdd: "refines t (SAdd key db ms) (typed_spec ''set'' (key, db) (sadd_spec (key, db) ms))"
  unfolding SAdd_def sEnsure_def seq_assoc
proof (rule refines_guard, goal_cases)
  case (1 w)
  let ?kd = "(key, db)"
  obtain n w1 where e: "exec (insert_key_or_nothing ?kd ''set'') w = (Inr n, w1)" "checked t ''set'' ?kd w1"
    "has_key (tabs w1) ?kd" "view t (tabs w1) = put ?kd (content ''set'' (tabs w) ?kd) (view t (tabs w))"
    "content ''set'' (tabs w1) ?kd = content ''set'' (tabs w) ?kd"
    by (rule ensure_run [OF 1]) auto
  let ?S = "members (tabs w) ?kd"
  have S: "members (tabs w1) ?kd = ?S" using e(5) by (simp add: content_set)
  have init: "members_added t ?kd (tabs w1) {} 0 w1"
    using checkedD(1) [OF e(2)] e(3) by (simp add: members_added_def frame.R_refl)
  obtain added w2 where
    run: "each (\<lambda>m added. seq (exec (insert_member_or_nothing ?kd m)) (\<lambda>n. ret (added + int n))) ms 0 w1 = (Inr added, w2)"
    and g: "members_added t ?kd (tabs w1) (set ms) added w2"
    using each_counted [where I = "members_added t ?kd (tabs w1)" and st = "insert_member_or_nothing ?kd",
        OF members_added_step init] by blast
  have "view t (tabs w2) = put ?kd (RSet (?S \<union> set ms)) (view t (tabs w))"
    using view_alter [OF e(2), of "tabs w2"] g by (simp add: members_added_def content_set e(4) S)
  then show ?case
    using run g by (simp add: seq_def [of "exec (insert_key_or_nothing _ _)"] e(1) sadd_spec_def
        checked_sget [OF 1] members_added_def S)
qed

lemma refines_SRem: "refines t (SRem key db ms) (typed_spec ''set'' (key, db) (srem_spec (key, db) ms))"
  unfolding SRem_def sAssert_def
proof (rule refines_guard, goal_cases)
  case (1 w)
  let ?kd = "(key, db)"
  have init: "members_gone t ?kd (tabs w) {} 0 w"
    using checkedD(1,3) [OF 1] by (simp add: members_gone_def frame.R_refl schema_ok_def pk_ok_def)
  obtain removed w' where
    run: "each (\<lambda>m removed. seq (exec (delete_member ?kd m)) (\<lambda>n. ret (removed + int n))) ms 0 w = (Inr removed, w')"
    and g: "members_gone t ?kd (tabs w) (set ms) removed w'"
    using each_counted [where I = "members_gone t ?kd (tabs w)" and st = "delete_member ?kd",
        OF members_gone_step init] by blast
  have "view t (tabs w') = alter ?kd (RSet (members (tabs w) ?kd - set ms)) (view t (tabs w))"
    using view_alter [OF 1, of "tabs w'"] g by (simp add: members_gone_def content_set)
  then show ?case
    using run g by (simp add: srem_spec_def checked_sget [OF 1] members_gone_def)
qed

section \<open>Set algebra\<close>

lemma set_fold_insert: "set (fold List.insert xs ys) = set xs \<union> set ys"
  by (induction xs arbitrary: ys) auto

lemma distinct_fold_insert: "distinct ys \<Longrightarrow> distinct (fold List.insert xs ys)"
  by (induction xs arbitrary: ys) auto

lemma run_sMembers:
  assumes "calm t w" "schema_ok (tabs w)"
  obtains xs where "sMembers k db w = (Inr xs, bump w)" "lists_set (members (tabs w) (k, db)) xs"
proof
  let ?rows = "arrange (orders (env w) (tick w)) (set_rows (tabs w) (k, db))"
  show "sMembers k db w = (Inr (fold List.insert ?rows []), bump w)"
    using assms(1) by (simp add: sMembers_def calm_seq ret_def)
  show "lists_set (members (tabs w) (k, db)) (fold List.insert ?rows [])"
    by (simp add: lists_set_def set_fold_insert distinct_fold_insert set_rows_list assms(2))
qed

lemma union_step:
  assumes "calm t w" "store_ok (tabs w)"
  shows "\<exists>w'. view t (tabs w') = view t (tabs w) \<and> calm t w' \<and> store_ok (tabs w') \<and>
    (if bad_key db (view t (tabs w)) k
     then seq (deleteExpired k db) (\<lambda>_. seq (sAssert k db) (\<lambda>_. seq (sMembers k db) (\<lambda>m.
       ret (fold List.insert m u)))) w = (Inl ErrWrongType, w')
     else \<exists>u'. seq (deleteExpired k db) (\<lambda>_. seq (sAssert k db) (\<lambda>_. seq (sMembers k db) (\<lambda>m.
       ret (fold List.insert m u)))) w = (Inr u', w') \<and>
       set u' = sget (view t (tabs w)) (k, db) \<union> set u \<and> (distinct u \<longrightarrow> distinct u'))"
proof -
  let ?rest = "seq (sMembers k db) (\<lambda>m. ret (fold List.insert m u))"
  from assms show ?thesis
  proof (cases rule: guard_run [of t w k db "''set''" ?rest])
    case (refused ex v w1)
    then show ?thesis by (intro exI [of _ w1]) (auto simp: sAssert_def bad_key_def)
  next
    case (passed w1)
    obtain xs where xs: "sMembers k db w1 = (Inr xs, bump w1)" "lists_set (members (tabs w1) (k, db)) xs"
      by (rule run_sMembers [OF checkedD(1,3) [OF passed(1)]])
    have "set xs = sget (view t (tabs w)) (k, db)"
      using xs(2) checked_sget [OF passed(1)] passed(2) by (simp add: lists_set_def)
    moreover have "\<not> bad_key db (view t (tabs w)) k" using passed(3) by (auto simp: bad_key_def)
    ultimately show ?thesis
      using passed(2,4) checkedD(1,2) [OF passed(1)] xs(1)
      by (intro exI [of _ "bump w1"]) (simp add: sAssert_def seq_def ret_def set_fold_insert distinct_fold_insert)
  qed
qed

lemma union_loop:
  assumes "calm t w" "store_ok (tabs w)" "distinct u"
  shows "\<exists>w'. view t (tabs w') = view t (tabs w) \<and>
    (if \<exists>k \<in> set names. bad_key db (view t (tabs w)) k
     then each (\<lambda>k union. seq (deleteExpired k db) (\<lambda>_. seq (sAssert k db) (\<lambda>_. seq (sMembers k db) (\<lambda>m.
       ret (fold List.insert m union))))) names u w = (Inl ErrWrongType, w')
     else \<exists>u'. each (\<lambda>k union. seq (deleteExpired k db) (\<lambda>_. seq (sAssert k db) (\<lambda>_. seq (sMembers k db) (\<lambda>m.
       ret (fold List.insert m union))))) names u w = (Inr u', w') \<and> distinct u' \<and>
       set u' = set u \<union> (\<Union>k \<in> set names. sget (view t (tabs w)) (k, db)))"
  using assms
proof (induction names arbitrary: u w)
  case (Cons k names)
  let ?V = "view t (tabs w)"
  obtain w1 where w1: "view t (tabs w1) = ?V" "calm t w1" "store_ok (tabs w1)" and
    step: "if bad_key db ?V k
     then seq (deleteExpired k db) (\<lambda>_. seq (sAssert k db) (\<lambda>_. seq (sMembers k db) (\<lambda>m.
       ret (fold List.insert m u)))) w = (Inl ErrWrongType, w1)
     else \<exists>u'. seq (deleteExpired k db) (\<lambda>_. seq (sAssert k db) (\<lambda>_. seq (sMembers k db) (\<lambda>m.
       ret (fold List.insert m u)))) w = (Inr u', w1) \<and>
       set u' = sget ?V (k, db) \<union> set u \<and> (distinct u \<longrightarrow> distinct u')"
    using union_step [OF Cons.prems(1,2), of db k u] by blast
  show ?case
  proof (cases "bad_key db ?V k")
    case True
    with step w1(1) show ?thesis by (intro exI [of _ w1]) (simp add: seq_def)
  next
    case False
    then obtain u1 where u1: "seq (deleteExpired k db) (\<lambda>_. seq (sAssert k db) (\<lambda>_. seq (sMembers k db) (\<lambda>m.
       ret (fold List.insert m u)))) w = (Inr u1, w1)" "set u1 = sget ?V (k, db) \<union> set u" "distinct u1"
      using step Cons.prems(3) by metis
    show ?thesis
      using Cons.IH [OF w1(2,3) u1(3)] False w1(1)
      by (cases "\<exists>x \<in> set names. bad_key db ?V x") (simp_all add: seq_def [of _ "each _ _"] u1(1,2) Un_ac)
  qed
qed (simp add: ret_def)

lemma refines_SUnion: "refines_some t (SUnion names db) (sunion_rel names db)"
  unfolding refines_some_def
proof (intro allI impI)
  fix w assume c: "calm t w" "store_ok (tabs w)"
  show "sunion_rel names db (view t (tabs w)) (fst (SUnion names db w)) (view t (tabs (snd (SUnion names db w))))"
    using union_loop [OF c, of "[]" names db]
    by (auto simp: SUnion_def sunion_rel_def lists_set_def seq_def range_map_def split: if_splits)
qed

text \<open>The rows of a key that has not expired are its members, whatever its type.\<close>

lemma sget_members:
  assumes ok: "store_ok T" and "kd \<notin> dead t T"
  shows "sget (view t T) kd = members T kd"
proof (cases "map_of (keysT T) kd")
  case None
  then show ?thesis
    using view_None [OF None, of t] no_members [OF no_rows(4) [OF store_okD(1) [OF ok] None]]
    by (simp add: sget_def)
next
  case (Some row)
  obtain ty ex where row: "row = (ty, ex)" by (cases row)
  have v: "view t T kd = Some (ex, content ty T kd)"
    using Some row assms(2) dead_map_of [OF store_okD(1) [OF ok], of kd t] by (simp add: view_def)
  show ?thesis
  proof (cases "ty = ''set''")
    case True
    then show ?thesis using v by (simp add: sget_def content_set)
  next
    case False
    have "[r \<leftarrow> setsT T. fst (fst r) = kd] = []" "ty \<in> {''string'', ''list'', ''hash'', ''set'', ''zset''}"
      using store_okD(2) [OF ok, of kd] False unfolding rows_ok_def Some row option.case prod.case by blast+
    then have "members T kd = {}" "kind (content ty T kd) = ty"
      by (simp_all only: no_members kind_content)
    then show ?thesis using v False by (cases "content ty T kd") (simp_all add: sget_def)
  qed
qed

lemma other_members:
  assumes "calm t w" "store_ok (tabs w)"
  obtains xs w' where "seq (deleteExpired k db) (\<lambda>_. seq (sMembers k db) f) w = f xs w'"
    "set xs = sget (view t (tabs w)) (k, db)" "calm t w'" "store_ok (tabs w')" "view t (tabs w') = view t (tabs w)"
proof -
  let ?w1 = "(bump (bump w))\<lparr>tabs := purge (k, db) t (tabs w)\<rparr>"
  have ok: "store_ok (tabs ?w1)" using assms(2) by (simp add: store_ok_purge)
  obtain xs where xs: "sMembers k db ?w1 = (Inr xs, bump ?w1)" "lists_set (members (tabs ?w1) (k, db)) xs"
    using run_sMembers [of t ?w1] assms(1) store_okD(1) [OF ok] by auto
  have "sget (view t (tabs ?w1)) (k, db) = members (tabs ?w1) (k, db)"
    using sget_members [OF ok] purge_not_dead [OF store_okD(1) [OF assms(2)], of "(k, db)" t] by simp
  moreover have v: "view t (tabs ?w1) = view t (tabs w)" by (simp add: view_purge store_okD(1) [OF assms(2)])
  ultimately have "set xs = sget (view t (tabs w)) (k, db)" using xs(2) by (simp add: lists_set_def)
  then show ?thesis
    using that [of xs "bump ?w1"] xs(1) v ok assms(1)
    by (simp add: seq_def calm_deleteExpired [OF assms(1)])
qed

lemma combine_loop:
  assumes "calm t w" "store_ok (tabs w)" "distinct base"
  obtains b w' where "each (\<lambda>k base. seq (deleteExpired k db) (\<lambda>_. seq (sMembers k db) (\<lambda>other.
      ret [m \<leftarrow> base. good m (set other)]))) names base w = (Inr b, w')" "view t (tabs w') = view t (tabs w)"
    "lists_set {m \<in> set base. \<forall>k \<in> set names. good m (sget (view t (tabs w)) (k, db))} b"
proof -
  let ?V = "view t (tabs w)"
  let ?step = "\<lambda>k base. seq (deleteExpired k db) (\<lambda>_. seq (sMembers k db) (\<lambda>other. ret [m \<leftarrow> base. good m (set other)]))"
  let ?I = "\<lambda>rest b w. calm t w \<and> store_ok (tabs w) \<and> view t (tabs w) = ?V \<and> distinct b \<and>
    {m \<in> set b. \<forall>k \<in> set rest. good m (sget ?V (k, db))} = {m \<in> set base. \<forall>k \<in> set names. good m (sget ?V (k, db))}"
  have "\<exists>b w'. each ?step names base w = (Inr b, w') \<and> ?I [] b w'"
  proof (rule each_run [where I = ?I])
    fix k rest b w
    assume I: "?I (k # rest) b w"
    then have "calm t w" "store_ok (tabs w)" by simp_all
    then obtain xs w' where w': "?step k b w = ret [m \<leftarrow> b. good m (set xs)] w'"
      "set xs = sget (view t (tabs w)) (k, db)" "calm t w'" "store_ok (tabs w')" "view t (tabs w') = view t (tabs w)"
      by (rule other_members)
    have "{m \<in> set [m \<leftarrow> b. good m (set xs)]. \<forall>k \<in> set rest. good m (sget ?V (k, db))} =
        {m \<in> set b. \<forall>k \<in> set (k # rest). good m (sget ?V (k, db))}"
      using I w'(2) by auto
    then have I': "?I rest [m \<leftarrow> b. good m (set xs)] w'" using I w'(3-5) by simp
    have r: "?step k b w = (Inr [m \<leftarrow> b. good m (set xs)], w')" using w'(1) by (simp only: ret_def)
    from conjI [OF r I'] show "\<exists>b' w'. ?step k b w = (Inr b', w') \<and> ?I rest b' w'" by (intro exI)
  qed (use assms in simp)
  then show ?thesis using that unfolding lists_set_def by force
qed

lemma run_combine:
  assumes c: "calm t w" and ok: "store_ok (tabs w)"
  shows "read_rel (\<lambda>ks. lists_set {m \<in> members (tabs w) (k0, db). \<forall>k \<in> set rest. good m (sget ks (k, db))})
    (view t (tabs w))
    (fst (seq (sMembers k0 db) (\<lambda>base.
       seq (each (\<lambda>k base. seq (deleteExpired k db) (\<lambda>_. seq (sMembers k db) (\<lambda>other.
         ret [m \<leftarrow> base. good m (set other)]))) rest base) (\<lambda>base. range_map base)) w))
    (view t (tabs (snd (seq (sMembers k0 db) (\<lambda>base.
       seq (each (\<lambda>k base. seq (deleteExpired k db) (\<lambda>_. seq (sMembers k db) (\<lambda>other.
         ret [m \<leftarrow> base. good m (set other)]))) rest base) (\<lambda>base. range_map base)) w))))"
proof -
  let ?step = "\<lambda>k base. seq (deleteExpired k db) (\<lambda>_. seq (sMembers k db) (\<lambda>other. ret [m \<leftarrow> base. good m (set other)]))"
  obtain base where base: "sMembers k0 db w = (Inr base, bump w)" "lists_set (members (tabs w) (k0, db)) base"
    by (rule run_sMembers [OF c store_okD(1) [OF ok]])
  have "calm t (bump w)" "store_ok (tabs (bump w))" "distinct base"
    using c ok base(2) by (simp_all add: lists_set_def)
  then obtain b w' where b: "each ?step rest base (bump w) = (Inr b, w')" "view t (tabs w') = view t (tabs (bump w))"
    "lists_set {m \<in> set base. \<forall>k \<in> set rest. good m (sget (view t (tabs (bump w))) (k, db))} b"
    by (rule combine_loop)
  let ?m = "seq (sMembers k0 db) (\<lambda>base. seq (each ?step rest base) (\<lambda>base. range_map base))"
  have "?m w = (Inr (arrange (orders (env w') (tick w')) b), bump w')"
    by (simp add: seq_def base(1) b(1) range_map_def)
  then show ?thesis using b(2,3) base(2) by (simp add: read_rel_def lists_set_def)
qed

lemma refines_combine:
  "refines_when (\<lambda>T. (k0, db) \<notin> dead t T)
    t (seq (sMembers k0 db) (\<lambda>base.
       seq (each (\<lambda>k base. seq (deleteExpired k db) (\<lambda>_. seq (sMembers k db) (\<lambda>other.
         ret [m \<leftarrow> base. good m (set other)]))) rest base) (\<lambda>base. range_map base)))
    (read_rel (\<lambda>ks. lists_set {m \<in> sget ks (k0, db). \<forall>k \<in> set rest. good m (sget ks (k, db))}))"
  unfolding refines_when_def
proof (intro allI impI)
  fix w assume c: "calm t w" and ok: "store_ok (tabs w)" and nd: "(k0, db) \<notin> dead t (tabs w)"
  let ?m = "seq (sMembers k0 db) (\<lambda>base. seq (each (\<lambda>k base. seq (deleteExpired k db) (\<lambda>_.
    seq (sMembers k db) (\<lambda>other. ret [m \<leftarrow> base. good m (set other)]))) rest base) (\<lambda>base. range_map base))"
  show "read_rel (\<lambda>ks. lists_set {m \<in> sget ks (k0, db). \<forall>k \<in> set rest. good m (sget ks (k, db))})
      (view t (tabs w)) (fst (?m w)) (view t (tabs (snd (?m w))))"
    using run_combine [OF c ok, of k0 db rest good] by (simp add: read_rel_def sget_members [OF ok nd])
qed

text \<open>The first key of an intersection or difference, which is read as it is.\<close>

definition first_fresh :: "int \<Rightarrow> int \<Rightarrow> string list \<Rightarrow> tables \<Rightarrow> bool" where
  "first_fresh t db names T \<longleftrightarrow> (case names of [] \<Rightarrow> True | k # _ \<Rightarrow> (k, db) \<notin> dead t T)"

lemma refines_SInter: "refines_when (first_fresh t db names) t (SInter names db) (read_rel (sinter_rel names db))"
proof (cases names)
  case (Cons k rest)
  have "{m \<in> A. \<forall>k \<in> set rest. m \<in> f k} = A \<inter> (\<Inter>k \<in> set rest. f k)" for A :: "string set" and f by auto
  then show ?thesis
    using refines_combine [of k db t "\<lambda>m S. m \<in> S" rest] by (simp add: Cons SInter_def sinter_rel_def [abs_def] first_fresh_def [abs_def])
qed (simp add: refines_when_def SInter_def ret_def read_rel_def sinter_rel_def lists_set_def)

lemma refines_SDiff: "refines_when (first_fresh t db names) t (SDiff names db) (read_rel (sdiff_rel names db))"
proof (cases names)
  case (Cons k rest)
  have "{m \<in> A. \<forall>k \<in> set rest. m \<notin> f k} = A - (\<Union>k \<in> set rest. f k)" for A :: "string set" and f by auto
  then show ?thesis
    using refines_combine [of k db t "\<lambda>m S. m \<notin> S" rest] by (simp add: Cons SDiff_def sdiff_rel_def [abs_def] first_fresh_def [abs_def])
qed (simp add: refines_when_def SDiff_def ret_def read_rel_def sdiff_rel_def lists_set_def)

lemma stored_SInter: "refines_stored t (SInter names db) (\<lambda>T. read_rel (sinter_stored names db T))"
proof (cases names)
  case (Cons k rest)
  have "{m. P m \<and> (\<forall>k \<in> set rest. m \<in> f k)} = {m. P m} \<inter> (\<Inter>k \<in> set rest. f k)" for P :: "string \<Rightarrow> bool" and f by auto
  then show ?thesis
    using run_combine [of t _ k db rest "\<lambda>m S. m \<in> S"]
    by (simp add: Cons refines_stored_def SInter_def sinter_stored_def [abs_def] stored_members_def members_def)
qed (simp add: refines_stored_def SInter_def ret_def read_rel_def sinter_stored_def lists_set_def)

lemma stored_SDiff: "refines_stored t (SDiff names db) (\<lambda>T. read_rel (sdiff_stored names db T))"
proof (cases names)
  case (Cons k rest)
  have "{m. P m \<and> (\<forall>k \<in> set rest. m \<notin> f k)} = {m. P m} - (\<Union>k \<in> set rest. f k)" for P :: "string \<Rightarrow> bool" and f by auto
  then show ?thesis
    using run_combine [of t _ k db rest "\<lambda>m S. m \<notin> S"]
    by (simp add: Cons refines_stored_def SDiff_def sdiff_stored_def [abs_def] stored_members_def members_def)
qed (simp add: refines_stored_def SDiff_def ret_def read_rel_def sdiff_stored_def lists_set_def)

section \<open>Theorems\<close>

text \<open>C11. The set operations: adding answers how many members are new, removing how many were there (an emptied set
  stays), reading gives membership, size and the members in an arbitrary order, and the union refuses a key of
  another type. Intersection and difference never refuse: a key of another type counts as empty, later keys count as
  empty when they have expired, but the first key counts with the rows that are stored for it, expired or not. So they are
  the intersection and difference of the sets that the keyspace shows exactly as far as the first key has no expired rows left.\<close>

theorem set_ops_refine:
  "refines t (SAdd key db ms) (typed_spec ''set'' (key, db) (sadd_spec (key, db) ms)) \<and>
   refines t (SRem key db ms) (typed_spec ''set'' (key, db) (srem_spec (key, db) ms)) \<and>
   refines t (SIsMember key db m) (typed_spec ''set'' (key, db) (read_spec (\<lambda>ks. m \<in> sget ks (key, db)))) \<and>
   refines t (SCard key db) (typed_spec ''set'' (key, db) (read_spec (\<lambda>ks. int (card (sget ks (key, db)))))) \<and>
   refines_some t (SMembers key db)
     (typed_rel ''set'' (key, db) (read_rel (\<lambda>ks. lists_set (sget ks (key, db))))) \<and>
   refines_some t (SUnion names db) (sunion_rel names db) \<and>
   refines_when (first_fresh t db names) t (SInter names db) (read_rel (sinter_rel names db)) \<and>
   refines_when (first_fresh t db names) t (SDiff names db) (read_rel (sdiff_rel names db)) \<and>
   refines_stored t (SInter names db) (\<lambda>T. read_rel (sinter_stored names db T)) \<and>
   refines_stored t (SDiff names db) (\<lambda>T. read_rel (sdiff_stored names db T))"
  by (intro conjI refines_SAdd refines_SRem refines_SIsMember refines_SCard refines_SMembers refines_SUnion
      refines_SInter refines_SDiff stored_SInter stored_SDiff)

end
