(* ===== verification/Refine_Zsets.thy ===== *)
theory Refine_Zsets
  imports Keyspace
begin

text \<open>
  The sorted-set operations refine the keyspace specification: a sorted set is a finite map from
  members to scores. What depends on the engine (how it binds and compares scores, how it orders
  members) is taken from the environment.
\<close>

section \<open>Specifications\<close>

definition zget :: "keyspace \<Rightarrow> key_id \<Rightarrow> string \<rightharpoonup> float64" where
  "zget ks kd = (case ks kd of Some (_, RZset z) \<Rightarrow> z | _ \<Rightarrow> Map.empty)"

text \<open>Adding entries: with NX members that are there stay, with XX only those are changed.\<close>

definition skipped :: "ZAddOptions \<Rightarrow> float64 option \<Rightarrow> bool" where
  "skipped opts cur \<longleftrightarrow> zNX opts \<and> cur \<noteq> None \<or> zXX opts \<and> cur = None"

definition zadd_map :: "ZAddOptions \<Rightarrow> dialect \<Rightarrow> (string \<times> float64) list \<Rightarrow> (string \<rightharpoonup> float64) \<Rightarrow> string \<rightharpoonup> float64" where
  "zadd_map opts d ps z m =
     (case map_of ps m of None \<Rightarrow> z m | Some sc \<Rightarrow> if skipped opts (z m) then z m else bind_score d sc)"

definition zadd_new :: "ZAddOptions \<Rightarrow> (string \<times> float64) list \<Rightarrow> (string \<rightharpoonup> float64) \<Rightarrow> string set" where
  "zadd_new opts ps z = {m \<in> fst ` set ps. z m = None \<and> \<not> skipped opts (z m)}"

definition zadd_rel :: "key_id \<Rightarrow> (string \<times> float64) list \<Rightarrow> ZAddOptions \<Rightarrow> environ \<Rightarrow> keyspace \<Rightarrow>
    error + int \<Rightarrow> keyspace \<Rightarrow> bool" where
  "zadd_rel kd ps opts e ks r ks' \<longleftrightarrow>
     r = Inr (int (card (zadd_new opts ps (zget ks kd)))) \<and>
     ks' = put kd (RZset (zadd_map opts (dialect e) ps (zget ks kd))) ks"

definition zrem_spec :: "key_id \<Rightarrow> string list \<Rightarrow> keyspace \<Rightarrow> (error + int) \<times> keyspace" where
  "zrem_spec kd ms ks =
     (Inr (int (card (set ms \<inter> dom (zget ks kd)))), alter kd (RZset (zget ks kd |` (- set ms))) ks)"

text \<open>Incrementing: the answer is the sum, the engine stores what it binds; SQLite refuses NaN.\<close>

definition zincr_rel :: "key_id \<Rightarrow> float64 \<Rightarrow> string \<Rightarrow> environ \<Rightarrow> keyspace \<Rightarrow> error + float64 \<Rightarrow> keyspace \<Rightarrow> bool" where
  "zincr_rel kd delta m e ks r ks' \<longleftrightarrow>
     (let z = zget ks kd; x = (case z m of None \<Rightarrow> delta | Some cur \<Rightarrow> f_add cur delta) in
      case bind_score (dialect e) x of
        None \<Rightarrow> r = Inl (ErrConstraint ''NOT NULL'') \<and> ks' = put kd (RZset z) ks
      | Some y \<Rightarrow> r = Inr x \<and> ks' = put kd (RZset (z(m \<mapsto> y))) ks)"

definition zrank_fun :: "dialect \<Rightarrow> string \<Rightarrow> (string \<rightharpoonup> float64) \<Rightarrow> int \<times> bool" where
  "zrank_fun d m z =
     (case z m of
        None \<Rightarrow> (0, False)
      | Some s \<Rightarrow> (int (card {m'. \<exists>s'. z m' = Some s' \<and> sc_less d s' s}), True))"

text \<open>The entries of a sorted set in the order of \<^verbatim>\<open>ORDER BY score, member\<close>, provided that the engine's
  collation is an order of the texts and that there is no NaN among the scores or the engine orders
  it (in SQLite it cannot be stored).\<close>

definition collation :: "(string \<Rightarrow> string \<Rightarrow> bool) \<Rightarrow> bool" where
  "collation le \<longleftrightarrow> (\<forall>a b. le a b \<or> le b a) \<and> (\<forall>a b c. le a b \<longrightarrow> le b c \<longrightarrow> le a c)"

definition orderly :: "environ \<Rightarrow> (string \<rightharpoonup> float64) \<Rightarrow> bool" where
  "orderly e z \<longleftrightarrow> collation (collate e) \<and> (dialect e = SQLite \<longrightarrow> NaN \<notin> ran z)"

definition listing :: "environ \<Rightarrow> (string \<rightharpoonup> float64) \<Rightarrow> (string \<times> float64) list \<Rightarrow> bool" where
  "listing e z rows \<longleftrightarrow> distinct (map fst rows) \<and> map_of rows = z \<and>
     (orderly e z \<longrightarrow> sorted_wrt (row_le e) rows)"

definition zrange_rel :: "key_id \<Rightarrow> int \<Rightarrow> int \<Rightarrow> environ \<Rightarrow> keyspace \<Rightarrow> string list \<Rightarrow> bool" where
  "zrange_rel kd start stop e ks xs \<longleftrightarrow>
     (\<exists>rows. listing e (zget ks kd) rows \<and> xs = range_slice (map fst rows) start stop)"

definition between :: "dialect \<Rightarrow> float64 \<times> bool \<Rightarrow> float64 \<times> bool \<Rightarrow> (string \<rightharpoonup> float64) \<Rightarrow> string \<rightharpoonup> float64" where
  "between d lo hi z m = (case z m of None \<Rightarrow> None | Some s \<Rightarrow> if in_bounds d lo hi s then Some s else None)"

text \<open>Reading between two bounds, which are parsed after the type has been checked.\<close>

definition bounds_rel :: "(string \<Rightarrow> string) \<Rightarrow> key_id \<Rightarrow> string \<Rightarrow> string \<Rightarrow>
    ((string \<rightharpoonup> float64) \<Rightarrow> 'a \<Rightarrow> bool) \<Rightarrow> environ \<Rightarrow> keyspace \<Rightarrow> error + 'a \<Rightarrow> keyspace \<Rightarrow> bool" where
  "bounds_rel uni kd minStr maxStr R e ks r ks' \<longleftrightarrow> ks' = ks \<and>
     (case parseScore uni minStr of
        Inl err \<Rightarrow> r = Inl err
      | Inr lo \<Rightarrow> (case parseScore uni maxStr of
          Inl err \<Rightarrow> r = Inl err
        | Inr hi \<Rightarrow> \<exists>x. r = Inr x \<and> R (between (dialect e) lo hi (zget ks kd)) x))"

section \<open>Rows and maps\<close>

definition zset_of :: "tables \<Rightarrow> key_id \<Rightarrow> string \<rightharpoonup> float64" where
  "zset_of T kd m = map_of (zsetsT T) (kd, m)"

lemma content_zset: "content ''zset'' T kd = RZset (zset_of T kd)"
  by (simp add: content_def zset_of_def fun_eq_iff)

lemma checked_zget:
  assumes "checked t ''zset'' kd w"
  shows "zget (view t (tabs w)) kd = zset_of (tabs w) kd"
proof (cases "map_of (keysT (tabs w)) kd")
  case None
  have "map_of (zsetsT (tabs w)) (kd, m) = None" for m
    using checked_absent(4) [OF assms None] by (force simp: map_of_eq_None_iff filter_empty_conv)
  then show ?thesis
    using view_None [OF None, of t] by (simp add: zget_def zset_of_def fun_eq_iff)
next
  case (Some row)
  then show ?thesis
    using checked_view [OF assms] by (cases row) (simp add: zget_def content_zset)
qed

lemma zset_rows_map:
  assumes "schema_ok T"
  shows "distinct (map fst (zset_rows T kd))" "map_of (zset_rows T kd) = zset_of T kd"
proof -
  have d: "distinct (map fst (zsetsT T))" using assms by (simp add: schema_ok_def pk_ok_def)
  have "distinct (map fst (map (\<lambda>((i, m), v). (m, v)) [r \<leftarrow> Z. fst (fst r) = kd]))" if "distinct (map fst Z)"
    for Z :: "((key_id \<times> string) \<times> float64) list"
    using that by (induction Z) (auto simp: image_iff prod_eq_iff)
  from this [OF d] show "distinct (map fst (zset_rows T kd))" unfolding zset_rows_def .
  have "map_of (map (\<lambda>((i, m), v). (m, v)) [r \<leftarrow> Z. fst (fst r) = kd]) m = map_of Z (kd, m)"
    for m and Z :: "((key_id \<times> string) \<times> float64) list" by (induction Z) auto
  then show "map_of (zset_rows T kd) = zset_of T kd" by (simp add: zset_rows_def zset_of_def fun_eq_iff)
qed

lemma length_zset_rows: "schema_ok T \<Longrightarrow> length (zset_rows T kd) = card (dom (zset_of T kd))"
  using zset_rows_map [of T kd] distinct_card [of "map fst (zset_rows T kd)"]
  by (metis dom_map_of_conv_image_fst length_map set_map)

lemma count_score_0: "count_score T kd m = 0 \<longleftrightarrow> zset_of T kd m = None"
  using row_of_map_of [of "(kd, m)" "zsetsT T"] unfolding count_score_def zset_of_def by auto

section \<open>Writing\<close>

lemma zset_of_insert:
  "zset_of T kd m = None \<Longrightarrow> zset_of (T\<lparr>zsetsT := zsetsT T @ [((kd, m), x)]\<rparr>) kd = (zset_of T kd)(m \<mapsto> x)"
  by (auto simp: zset_of_def fun_eq_iff map_add_def split: option.split)

lemma zset_of_update:
  "zset_of T kd m \<noteq> None \<Longrightarrow>
   zset_of (T\<lparr>zsetsT := update_rows (kd, m) (\<lambda>_. x) (zsetsT T)\<rparr>) kd = (zset_of T kd)(m \<mapsto> x)"
  by (auto simp: zset_of_def fun_eq_iff)

lemma zset_of_delete:
  "zset_of (T\<lparr>zsetsT := [r \<leftarrow> zsetsT T. fst r \<noteq> (kd, m)]\<rparr>) kd = (zset_of T kd)(m := None)"
  by (simp add: zset_of_def fun_eq_iff map_of_filter_ne)

text \<open>Storing the score \<open>x\<close> of a member, as a new row or in its row.\<close>

lemma store_score:
  assumes "calm t w" "has_key (tabs w) kd"
    and "st = (if zset_of (tabs w) kd m = None then insert_score kd m (Some x) else update_score kd m (Some x))"
  obtains n T' where "exec st w = (Inr n, (bump w)\<lparr>tabs := T'\<rparr>)" "keysT T' = keysT (tabs w)"
    "frame {kd} (tabs w) T'" "zset_of T' kd = (zset_of (tabs w) kd)(m \<mapsto> x)"
proof (cases "zset_of (tabs w) kd m = None")
  case True
  let ?T' = "(tabs w)\<lparr>zsetsT := zsetsT (tabs w) @ [((kd, m), x)]\<rparr>"
  have st: "st (tabs w) = Inr (1, ?T')"
    using True assms(2,3) by (simp add: insert_score_def zset_of_def map_of_eq_None_iff)
  show ?thesis
  proof (rule that [of 1 ?T'])
    show "exec st w = (Inr 1, (bump w)\<lparr>tabs := ?T'\<rparr>)" using calm_exec_Inr [of t w st] assms(1) st by simp
    show "frame {kd} (tabs w) ?T'" using frame_stmtD [OF frame_one_key(15)] st assms(3) True by simp
  qed (simp_all add: zset_of_insert [OF True])
next
  case False
  let ?T' = "(tabs w)\<lparr>zsetsT := update_rows (kd, m) (\<lambda>_. x) (zsetsT (tabs w))\<rparr>"
  obtain n where st: "st (tabs w) = Inr (n, ?T')" using False assms(3) by (simp add: update_score_def)
  show ?thesis
  proof (rule that [of n ?T'])
    show "exec st w = (Inr n, (bump w)\<lparr>tabs := ?T'\<rparr>)" using calm_exec_Inr [of t w st] assms(1) st by simp
    show "frame {kd} (tabs w) ?T'" using frame_stmtD [OF frame_one_key(16)] st assms(3) False by simp
  qed (simp_all add: zset_of_update [OF False])
qed

text \<open>The loop of \<^verbatim>\<open>ZAdd\<close>: \<open>rest\<close> are the entries to come.\<close>

definition scores_set :: "int \<Rightarrow> key_id \<Rightarrow> tables \<Rightarrow> environ \<Rightarrow> ZAddOptions \<Rightarrow> (string \<times> float64) list \<Rightarrow>
    (string \<times> float64) list \<Rightarrow> int \<Rightarrow> world \<Rightarrow> bool" where
  "scores_set t kd T e opts ps rest added w \<longleftrightarrow> calm t w \<and> env w = e \<and> keysT (tabs w) = keysT T \<and>
     frame {kd} T (tabs w) \<and> distinct (map fst rest) \<and> (\<forall>p \<in> set rest. bind_score (dialect e) (snd p) \<noteq> None) \<and>
     zadd_map opts (dialect e) rest (zset_of (tabs w) kd) = zadd_map opts (dialect e) ps (zset_of T kd) \<and>
     added + int (card (zadd_new opts rest (zset_of (tabs w) kd))) = int (card (zadd_new opts ps (zset_of T kd)))"

lemma zadd_map_skip: "skipped opts (z m) \<Longrightarrow> m \<notin> fst ` set ps \<Longrightarrow> zadd_map opts d ((m, sc) # ps) z = zadd_map opts d ps z"
  using map_of_eq_None_iff [of ps m] by (auto simp: zadd_map_def fun_eq_iff split: option.split)

lemma zadd_map_write:
  assumes "\<not> skipped opts (z m)" "m \<notin> fst ` set ps" "bind_score d sc = Some x"
  shows "zadd_map opts d ((m, sc) # ps) z = zadd_map opts d ps (z(m \<mapsto> x))"
  using assms map_of_eq_None_iff [of ps m] by (auto simp: zadd_map_def fun_eq_iff split: option.split)

lemma zadd_new_Cons:
  assumes "m \<notin> fst ` set ps" "\<And>m'. m' \<noteq> m \<Longrightarrow> z' m' = z m'"
  shows "card (zadd_new opts ((m, sc) # ps) z) =
    card (zadd_new opts ps z') + (if z m = None \<and> \<not> skipped opts (z m) then 1 else 0)"
proof -
  have "z' m' = z m'" if "m' \<in> fst ` set ps" for m' using assms that by metis
  then have eq: "zadd_new opts ps z' = zadd_new opts ps z"
    unfolding zadd_new_def by (intro Collect_cong conj_cong refl) simp_all
  have "zadd_new opts ((m, sc) # ps) z =
      (if z m = None \<and> \<not> skipped opts (z m) then insert m (zadd_new opts ps z) else zadd_new opts ps z)"
    by (auto simp: zadd_new_def)
  moreover have "m \<notin> zadd_new opts ps z" "finite (zadd_new opts ps z)" using assms(1) by (auto simp: zadd_new_def)
  ultimately show ?thesis by (simp add: eq)
qed

definition zadd_step :: "key_id \<Rightarrow> ZAddOptions \<Rightarrow> dialect \<Rightarrow> string \<times> float64 \<Rightarrow> int \<Rightarrow> int act" where
  "zadd_step kd opts d = (\<lambda>(member, score) added.
       seq (scan_or 0 (query (\<lambda>T. count_score T kd member))) (\<lambda>exists.
       if zNX opts \<and> exists > 0 then ret added
       else if zXX opts \<and> exists = 0 then ret added
       else if exists = 0 then
         seq (exec (insert_score kd member (bind_score d score))) (\<lambda>_. ret (added + 1))
       else
         seq (exec (update_score kd member (bind_score d score))) (\<lambda>_. ret added)))"

lemma run_zadd_step:
  assumes "calm t w" "bind_score d sc = Some x"
  shows "zadd_step kd opts d (m, sc) added w =
    (if skipped opts (zset_of (tabs w) kd m) then (Inr added, bump w)
     else seq (exec (if zset_of (tabs w) kd m = None then insert_score kd m (Some x) else update_score kd m (Some x)))
       (\<lambda>_. ret (if zset_of (tabs w) kd m = None then added + 1 else added)) (bump w))"
  using assms count_score_0 [of "tabs w" kd m]
  by (cases "zset_of (tabs w) kd m") (auto simp: zadd_step_def calm_seq(4) skipped_def ret_def)

lemma scores_set_step:
  assumes "scores_set t kd T e opts ps ((m, sc) # rest) added w" "has_key T kd"
  shows "\<exists>added' w'. zadd_step kd opts (dialect e) (m, sc) added w = (Inr added', w') \<and>
    scores_set t kd T e opts ps rest added' w'"
proof -
  let ?z = "zset_of (tabs w) kd"
  note I = assms(1) [unfolded scores_set_def]
  obtain x where x: "bind_score (dialect e) sc = Some x" using I by auto
  have m: "m \<notin> fst ` set rest" and c: "calm t w" using I by simp_all
  note run = run_zadd_step [OF c x, of kd opts m added]
  show ?thesis
  proof (cases "skipped opts (?z m)")
    case True
    then show ?thesis
      using run I zadd_map_skip [where z = ?z, OF True m, of "dialect e" sc] zadd_new_Cons [OF m, of ?z ?z opts sc]
      by (simp add: scores_set_def)
  next
    case False
    let ?added = "if ?z m = None then added + 1 else added"
    have "calm t (bump w)" "has_key (tabs (bump w)) kd" using I assms(2) by (simp_all add: has_key_def)
    then obtain n T' where T': "exec (if ?z m = None then insert_score kd m (Some x) else update_score kd m (Some x))
        (bump w) = (Inr n, (bump (bump w))\<lparr>tabs := T'\<rparr>)" "keysT T' = keysT (tabs (bump w))"
      "frame {kd} (tabs (bump w)) T'" "zset_of T' kd = (zset_of (tabs (bump w)) kd)(m \<mapsto> x)"
      by (rule store_score) simp
    have "zadd_step kd opts (dialect e) (m, sc) added w = (Inr ?added, (bump (bump w))\<lparr>tabs := T'\<rparr>)"
      using run False T'(1) by (simp add: seq_def ret_def)
    moreover have "frame {kd} T T'" using I T'(3) frame.R_trans by (metis tabs_bump(1))
    moreover have "?added + int (card (zadd_new opts rest (?z(m \<mapsto> x)))) = int (card (zadd_new opts ps (zset_of T kd)))"
      using I zadd_new_Cons [OF m, of "?z(m \<mapsto> x)" ?z opts sc] False by (cases "?z m") simp_all
    ultimately show ?thesis
      using I T' zadd_map_write [where z = ?z, OF False m x] by (auto simp: scores_set_def)
  qed
qed

lemma refines_ZAdd:
  assumes d: "distinct (map fst ps)" and nan: "\<forall>p \<in> set ps. snd p \<noteq> NaN"
  shows "refines_env t (ZAdd key db ps opts) (\<lambda>e. typed_rel ''zset'' (key, db) (zadd_rel (key, db) ps opts e))"
  unfolding ZAdd_def zEnsure_def seq_assoc zadd_step_def [symmetric]
proof (rule refines_env_guard, goal_cases)
  case (1 w)
  let ?kd = "(key, db)"
  obtain n w1 where e: "exec (insert_key_or_nothing ?kd ''zset'') w = (Inr n, w1)" "checked t ''zset'' ?kd w1"
    "has_key (tabs w1) ?kd" "view t (tabs w1) = put ?kd (content ''zset'' (tabs w) ?kd) (view t (tabs w))"
    "content ''zset'' (tabs w1) ?kd = content ''zset'' (tabs w) ?kd" "env w1 = env w"
    by (rule ensure_run [OF 1]) auto
  let ?z = "zset_of (tabs w) ?kd" and ?d = "dialect (env w)"
  let ?ps = "arrange (orders (env w1) (tick w1)) ps"
  have z: "zset_of (tabs w1) ?kd = ?z" using e(5) by (simp add: content_zset)
  have ps: "distinct (map fst ?ps)" "map_of ?ps = map_of ps" "set ?ps = set ps" using d by (simp_all flip: arrange_map)
  have "bind_score ?d (snd p) \<noteq> None" if "p \<in> set ps" for p
    using nan that by (auto simp: bind_score_def split: dialect.split float64.split)
  then have init: "scores_set t ?kd (tabs w1) (env w) opts ?ps ?ps 0 (bump w1)"
    using ps checkedD(1) [OF e(2)] e(6) by (simp add: scores_set_def frame.R_refl)
  have "\<exists>added w2. each (zadd_step ?kd opts ?d) ?ps 0 (bump w1) = (Inr added, w2) \<and>
      scores_set t ?kd (tabs w1) (env w) opts ?ps [] added w2"
    by (rule each_run [where I = "scores_set t ?kd (tabs w1) (env w) opts ?ps", OF _ init])
      (use scores_set_step [OF _ e(3)] in \<open>auto simp del: split_paired_Ex\<close>)
  then obtain added w2 where w2: "each (zadd_step ?kd opts ?d) ?ps 0 (bump w1) = (Inr added, w2)"
    "scores_set t ?kd (tabs w1) (env w) opts ?ps [] added w2" by blast
  have same: "zadd_map opts ?d ?ps ?z = zadd_map opts ?d ps ?z" "zadd_new opts ?ps ?z = zadd_new opts ps ?z"
    by (simp_all add: zadd_map_def fun_eq_iff ps(2) zadd_new_def ps(3))
  have r: "added = int (card (zadd_new opts ps ?z))" "zset_of (tabs w2) ?kd = zadd_map opts ?d ps ?z"
    "frame {?kd} (tabs w1) (tabs w2)" "keysT (tabs w2) = keysT (tabs w1)"
    using w2(2) by (simp_all add: scores_set_def z same) (simp_all add: zadd_map_def fun_eq_iff zadd_new_def)
  have "view t (tabs w2) = put ?kd (RZset (zadd_map opts ?d ps ?z)) (view t (tabs w))"
    by (simp add: view_alter [OF e(2) r(3,4)] e(4) content_zset r(2))
  then show ?case
    using w2(1)
    by (simp add: seq_def [of "exec (insert_key_or_nothing _ _)"] e(1,6) seq_def [of "range_map _"] range_map_def
        zadd_rel_def checked_zget [OF 1] r(1))
qed

text \<open>The loop of \<^verbatim>\<open>ZRem\<close>: the members in \<open>D\<close> are gone.\<close>

definition scores_gone :: "int \<Rightarrow> key_id \<Rightarrow> tables \<Rightarrow> string set \<Rightarrow> int \<Rightarrow> world \<Rightarrow> bool" where
  "scores_gone t kd T D removed w \<longleftrightarrow> calm t w \<and> keysT (tabs w) = keysT T \<and> frame {kd} T (tabs w) \<and>
     finite D \<and> distinct (map fst (zsetsT (tabs w))) \<and>
     zset_of (tabs w) kd = zset_of T kd |` (- D) \<and> removed = int (card (D \<inter> dom (zset_of T kd)))"

lemma scores_gone_step:
  assumes "scores_gone t kd T D removed w"
  shows "\<exists>n w'. exec (delete_score kd m) w = (Inr n, w') \<and> scores_gone t kd T (insert m D) (removed + int n) w'"
proof -
  let ?T = "tabs w"
  let ?T' = "?T\<lparr>zsetsT := [r \<leftarrow> zsetsT ?T. fst r \<noteq> (kd, m)]\<rparr>"
  note I = assms [unfolded scores_gone_def]
  define n where "n = length [r \<leftarrow> zsetsT ?T. fst r = (kd, m)]"
  have st: "delete_score kd m ?T = Inr (n, ?T')" by (simp add: delete_score_def n_def)
  have fr: "frame {kd} T ?T'" using I frame.R_trans frame_stmtD [OF frame_one_key(17) st] by blast
  have n: "n = (if zset_of ?T kd m = None then 0 else 1)"
    unfolding n_def zset_of_def by (rule length_filter_key) (use I in simp)
  have h: "zset_of ?T' kd = zset_of T kd |` (- insert m D)"
    using I unfolding zset_of_delete by (auto simp: restrict_map_def fun_eq_iff)
  have "insert m D \<inter> dom (zset_of T kd) =
      (if zset_of T kd m = None then D \<inter> dom (zset_of T kd) else insert m (D \<inter> dom (zset_of T kd)))" by auto
  then have "removed + int n = int (card (insert m D \<inter> dom (zset_of T kd)))"
    using I n by (cases "m \<in> D"; cases "zset_of T kd m") (auto simp: restrict_map_def insert_absorb)
  moreover have "exec (delete_score kd m) w = (Inr n, (bump w)\<lparr>tabs := ?T'\<rparr>)"
    using calm_exec_Inr [of t w "delete_score kd m"] st I by simp
  ultimately show ?thesis
    using I fr h by (simp add: scores_gone_def distinct_map_filter_fst)
qed

lemma refines_ZRem: "refines t (ZRem key db ms) (typed_spec ''zset'' (key, db) (zrem_spec (key, db) ms))"
  unfolding ZRem_def zAssert_def
proof (rule refines_guard, goal_cases)
  case (1 w)
  let ?kd = "(key, db)"
  have init: "scores_gone t ?kd (tabs w) {} 0 w"
    using checkedD(1,3) [OF 1]
    by (simp add: scores_gone_def frame.R_refl schema_ok_def pk_ok_def restrict_map_def [of _ UNIV])
  obtain removed w' where
    run: "each (\<lambda>m removed. seq (exec (delete_score ?kd m)) (\<lambda>n. ret (removed + int n))) ms 0 w = (Inr removed, w')"
    and g: "scores_gone t ?kd (tabs w) (set ms) removed w'"
    using each_counted [where I = "scores_gone t ?kd (tabs w)" and st = "delete_score ?kd",
        OF scores_gone_step init] by blast
  have "view t (tabs w') = alter ?kd (RZset (zset_of (tabs w) ?kd |` (- set ms))) (view t (tabs w))"
    using view_alter [OF 1, of "tabs w'"] g by (simp add: scores_gone_def content_zset)
  then show ?case
    using run g by (simp add: zrem_spec_def checked_zget [OF 1] scores_gone_def)
qed

lemma refines_ZIncrBy:
  "refines_env t (ZIncrBy key db delta m) (\<lambda>e. typed_rel ''zset'' (key, db) (zincr_rel (key, db) delta m e))"
  unfolding ZIncrBy_def zEnsure_def seq_assoc
proof (rule refines_env_guard, goal_cases)
  case (1 w)
  let ?kd = "(key, db)"
  obtain n w1 where e: "exec (insert_key_or_nothing ?kd ''zset'') w = (Inr n, w1)" "checked t ''zset'' ?kd w1"
    "has_key (tabs w1) ?kd" "view t (tabs w1) = put ?kd (content ''zset'' (tabs w) ?kd) (view t (tabs w))"
    "content ''zset'' (tabs w1) ?kd = content ''zset'' (tabs w) ?kd" "env w1 = env w"
    by (rule ensure_run [OF 1]) auto
  let ?z = "zset_of (tabs w) ?kd" and ?d = "dialect (env w)"
  define x where "x = (case ?z m of None \<Rightarrow> delta | Some cur \<Rightarrow> f_add cur delta)"
  have z: "zset_of (tabs w1) ?kd = ?z" using e(5) by (simp add: content_zset)
  have c: "calm t w1" by (rule checkedD(1) [OF e(2)])
  let ?store = "exec (if ?z m = None then insert_score ?kd m (bind_score ?d x) else update_score ?kd m (bind_score ?d x))"
  let ?body = "seq (engine dialect) (\<lambda>d. seq (query (\<lambda>T. map_of (zsetsT T) (?kd, m))) (\<lambda>row.
      case row of None \<Rightarrow> seq (exec (insert_score ?kd m (bind_score d delta))) (\<lambda>_. ret delta)
      | Some cur \<Rightarrow> let newScore = f_add cur delta in
          seq (exec (update_score ?kd m (bind_score d newScore))) (\<lambda>_. ret newScore)))"
  have run: "?body w1 = seq ?store (\<lambda>_. ret x) (bump w1)"
    using c z [symmetric] by (cases "?z m") (simp_all add: calm_seq e(6) x_def zset_of_def Let_def)
  have "zincr_rel ?kd delta m (env w) (view t (tabs w)) (fst (?body w1)) (view t (tabs (snd (?body w1))))"
  proof (cases "bind_score ?d x")
    case None
    have "(if ?z m = None then insert_score ?kd m None else update_score ?kd m None) (tabs (bump w1)) =
        Inl (ErrConstraint ''NOT NULL'')"
      unfolding z [symmetric] zset_of_def by (auto simp: insert_score_def update_score_def map_of_eq_None_iff)
    then have "?store (bump w1) = (Inl (ErrConstraint ''NOT NULL''), bump (bump w1))"
      unfolding None using c by (intro calm_exec_Inl [of t]) simp_all
    then have "?body w1 = (Inl (ErrConstraint ''NOT NULL''), bump (bump w1))"
      unfolding run by (rule seq_Inl)
    then show ?thesis
      using None e(4) by (simp add: zincr_rel_def checked_zget [OF 1] flip: x_def) (simp add: content_zset)
  next
    case (Some y)
    have "calm t (bump w1)" "has_key (tabs (bump w1)) ?kd" using c e(3) by simp_all
    then obtain k T' where T': "exec (if ?z m = None then insert_score ?kd m (Some y) else update_score ?kd m (Some y))
        (bump w1) = (Inr k, (bump (bump w1))\<lparr>tabs := T'\<rparr>)" "keysT T' = keysT (tabs (bump w1))"
      "frame {?kd} (tabs (bump w1)) T'" "zset_of T' ?kd = (zset_of (tabs (bump w1)) ?kd)(m \<mapsto> y)"
      by (rule store_score) (simp add: z)
    have "?body w1 = (Inr x, (bump (bump w1))\<lparr>tabs := T'\<rparr>)"
      unfolding run Some by (simp only: seq_def T'(1) prod.case sum.case ret_def)
    moreover have "view t T' = put ?kd (RZset (?z(m \<mapsto> y))) (view t (tabs w))"
      using view_alter [OF e(2), of T'] T' by (simp add: e(4) content_zset z)
    ultimately show ?thesis
      using Some by (simp add: zincr_rel_def checked_zget [OF 1] flip: x_def)
  qed
  then show ?case by (simp add: seq_def [of "exec (insert_key_or_nothing _ _)"] e(1))
qed

section \<open>Reading\<close>

lemma refines_ZScore:
  "refines t (ZScore key db m) (typed_spec ''zset'' (key, db)
     (read_spec (\<lambda>ks. case zget ks (key, db) m of None \<Rightarrow> (Finite False 0, False) | Some sc \<Rightarrow> (sc, True))))"
  unfolding ZScore_def zAssert_def query_map
  by (rule refines_read) (simp add: checked_zget zset_of_def)

lemma refines_ZCard:
  "refines t (ZCard key db)
     (typed_spec ''zset'' (key, db) (read_spec (\<lambda>ks. int (card (dom (zget ks (key, db)))))))"
  unfolding ZCard_def zAssert_def
  by (rule refines_read) (simp add: checked_zget length_zset_rows checkedD(3))

lemma rank_count_card:
  assumes "schema_ok T" "zset_of T kd m = Some s"
  shows "rank_count d T kd m = card {m'. \<exists>s'. zset_of T kd m' = Some s' \<and> sc_less d s' s}"
proof -
  note r = zset_rows_map [OF assms(1), of kd]
  have "distinct (map fst [r \<leftarrow> zset_rows T kd. sc_less d (snd r) s])" using r(1) by (rule distinct_map_filter_fst)
  from distinct_card [OF this] have "length [r \<leftarrow> zset_rows T kd. sc_less d (snd r) s] =
      card (fst ` {r \<in> set (zset_rows T kd). sc_less d (snd r) s})" by simp
  also have "fst ` {r \<in> set (zset_rows T kd). sc_less d (snd r) s} =
      {m'. \<exists>s'. zset_of T kd m' = Some s' \<and> sc_less d s' s}"
    using map_of_eq_Some_iff [OF r(1)] unfolding r(2) [symmetric] by force
  finally show ?thesis using assms(2) by (simp add: rank_count_def zset_of_def)
qed

lemma calm_attempt_query:
  "calm t w \<Longrightarrow> seq (attempt (query q)) g w = g (Inr (q (tabs w))) (bump w)"
  by (simp add: seq_def attempt_def calm_query)

lemma refines_ZRank:
  "refines_env t (ZRank key db m) (\<lambda>e. typed_rel ''zset'' (key, db)
     (read_rel (\<lambda>ks x. x = zrank_fun (dialect e) m (zget ks (key, db)))))"
  unfolding ZRank_def zAssert_def
proof (rule refines_env_guard, goal_cases)
  case (1 w)
  note c = checkedD(1) [OF 1] and z = checked_zget [OF 1] and ok = checkedD(3) [OF 1]
  show ?case
    using c count_score_0 [of "tabs w" "(key, db)" m] rank_count_card [OF ok, of "(key, db)" m]
    by (cases "zset_of (tabs w) (key, db) m")
      (simp_all add: calm_attempt_query calm_seq ret_def read_rel_def z zrank_fun_def)
qed

section \<open>Ordered reading\<close>

lemma mset_insert_by: "mset (insert_by le x xs) = add_mset x (mset xs)"
  by (induction xs) auto

lemma mset_order_by: "mset (order_by le xs) = mset xs"
  by (induction xs) (simp_all add: order_by_def mset_insert_by)

lemma set_insert_by: "set (insert_by le x xs) = insert x (set xs)"
  by (induction xs) auto

lemma sorted_insert_by:
  assumes tot: "\<And>a b. a \<in> S \<Longrightarrow> b \<in> S \<Longrightarrow> le a b \<or> le b a"
    and trans: "\<And>a b c. a \<in> S \<Longrightarrow> b \<in> S \<Longrightarrow> c \<in> S \<Longrightarrow> le a b \<Longrightarrow> le b c \<Longrightarrow> le a c"
    and "sorted_wrt le xs" "x \<in> S" "set xs \<subseteq> S"
  shows "sorted_wrt le (insert_by le x xs)"
  using assms(3,5)
proof (induction xs)
  case (Cons y ys)
  show ?case
  proof (cases "le x y")
    case True
    then have "le x z" if "z \<in> set ys" for z
      using Cons.prems that trans [OF assms(4), of y z] by auto
    then show ?thesis using True Cons.prems by simp
  next
    case False
    then have "le y x" using tot [of x y] assms(4) Cons.prems by auto
    then show ?thesis using False Cons by (auto simp: set_insert_by)
  qed
qed simp

lemma sorted_order_by:
  assumes "\<And>a b. a \<in> set xs \<Longrightarrow> b \<in> set xs \<Longrightarrow> le a b \<or> le b a"
    and "\<And>a b c. a \<in> set xs \<Longrightarrow> b \<in> set xs \<Longrightarrow> c \<in> set xs \<Longrightarrow> le a b \<Longrightarrow> le b c \<Longrightarrow> le a c"
  shows "sorted_wrt le (order_by le xs)"
proof -
  have "sorted_wrt le (order_by le ys)" if "set ys \<subseteq> set xs" for ys
    using that
  proof (induction ys)
    case (Cons y ys)
    have "set (order_by le ys) \<subseteq> set xs" using Cons.prems mset_order_by [of le ys] by (metis set_mset_mset set_subset_Cons subset_trans)
    then show ?case
      using Cons sorted_insert_by [of "set xs" le "order_by le ys" y, OF assms] by (simp add: order_by_def)
  qed (simp add: order_by_def)
  then show ?thesis by simp
qed

text \<open>Scores are ordered by class and value; NaN comes last.\<close>

definition sc_class :: "float64 \<Rightarrow> int" where
  "sc_class x = (if x = NaN then 2 else f_class x)"

lemma sc_less_class:
  "(d = SQLite \<Longrightarrow> x \<noteq> NaN \<and> y \<noteq> NaN) \<Longrightarrow>
   sc_less d x y \<longleftrightarrow> sc_class x < sc_class y \<or> sc_class x = sc_class y \<and> f_real x < f_real y"
  by (cases d; cases x; cases y) (auto simp: sc_less_def f_less_def sc_class_def)

lemma lex_le_trans:
  fixes c1 c2 c3 :: int and r1 r2 r3 :: rat
  assumes "(c1 < c2 \<or> c1 = c2 \<and> r1 < r2) \<or> \<not> (c2 < c1 \<or> c2 = c1 \<and> r2 < r1) \<and> p"
    and "(c2 < c3 \<or> c2 = c3 \<and> r2 < r3) \<or> \<not> (c3 < c2 \<or> c3 = c2 \<and> r3 < r2) \<and> q"
  shows "(c1 < c3 \<or> c1 = c3 \<and> r1 < r3) \<or> \<not> (c3 < c1 \<or> c3 = c1 \<and> r3 < r1) \<and> p \<and> q"
  using assms by (cases c1 c2 rule: linorder_cases; cases c2 c3 rule: linorder_cases) auto

lemma row_le_order:
  assumes "collation (collate e)" "\<And>r. r \<in> S \<Longrightarrow> dialect e = SQLite \<Longrightarrow> snd r \<noteq> NaN"
  shows "a \<in> S \<Longrightarrow> b \<in> S \<Longrightarrow> row_le e a b \<or> row_le e b a"
    and "a \<in> S \<Longrightarrow> b \<in> S \<Longrightarrow> c \<in> S \<Longrightarrow> row_le e a b \<Longrightarrow> row_le e b c \<Longrightarrow> row_le e a c"
proof -
  have less: "sc_less (dialect e) (snd a) (snd b) \<longleftrightarrow>
      sc_class (snd a) < sc_class (snd b) \<or> sc_class (snd a) = sc_class (snd b) \<and> f_real (snd a) < f_real (snd b)"
    if "a \<in> S" "b \<in> S" for a b using assms(2) that by (intro sc_less_class) simp
  show "a \<in> S \<Longrightarrow> b \<in> S \<Longrightarrow> row_le e a b \<or> row_le e b a"
    using assms(1) by (auto simp: row_le_def less collation_def)
  show "row_le e a c" if "a \<in> S" "b \<in> S" "c \<in> S" "row_le e a b" "row_le e b c"
    using lex_le_trans [OF that(4) [unfolded row_le_def less [OF that(1,2)] less [OF that(2,1)]]
        that(5) [unfolded row_le_def less [OF that(2,3)] less [OF that(3,2)]]] assms(1)
    unfolding row_le_def less [OF that(1,3)] less [OF that(3,1)] collation_def by blast
qed

lemma listing_order_by:
  assumes "distinct (map fst rows)" "map_of rows = z"
  shows "listing e z (order_by (row_le e) rows)"
proof -
  let ?s = "order_by (row_le e) rows"
  have set: "set ?s = set rows" using mset_order_by [of "row_le e" rows] by (metis set_mset_mset)
  have d: "distinct (map fst ?s)"
    using assms(1) mset_order_by [of "row_le e" rows] by (metis mset_map mset_eq_imp_distinct_iff)
  have m: "map_of ?s = z" using map_of_inject_set [OF d assms(1)] set assms(2) by simp
  have "sorted_wrt (row_le e) ?s" if o: "orderly e z"
  proof -
    have "snd r \<noteq> NaN" if "r \<in> set rows" "dialect e = SQLite" for r
    proof -
      have "z (fst r) = Some (snd r)" using that(1) assms map_of_eq_Some_iff [OF assms(1)] by auto
      then show ?thesis using o that(2) by (auto simp: orderly_def ran_def)
    qed
    moreover have "collation (collate e)" using o by (simp add: orderly_def)
    ultimately show ?thesis using row_le_order [of e "set rows"] by (intro sorted_order_by) blast+
  qed
  then show ?thesis using d m by (simp add: listing_def)
qed

text \<open>The index arithmetic of \<^verbatim>\<open>ZRange\<close> is that of \<^verbatim>\<open>LRange\<close>.\<close>

lemma zrange_slice:
  assumes "n = int (length xs)" "a = (if start < 0 then n + start else start)" "b = (if stop < 0 then n + stop else stop)"
    "a' = (if a < 0 then 0 else a)" "b' = (if b \<ge> n then n - 1 else b)"
  shows "(if a' > b' then [] else take (nat (b' - a' + 1)) (drop (nat a') xs)) = range_slice xs start stop"
proof -
  have "take (nat (b' - a' + 1)) (drop (nat a') xs) = drop (nat a') (take (nat (b' + 1)) xs)"
    if "a' \<le> b'"
  proof -
    have "nat (b' - a' + 1) + nat a' = nat (b' + 1)" using that assms(4) by (simp split: if_splits)
    then show ?thesis by (simp add: take_drop)
  qed
  moreover have "a' < n" if "a' \<le> b'" using that assms(5) by (simp split: if_splits)
  ultimately show ?thesis
    unfolding range_slice_def Let_def assms(1-3) [symmetric] assms(4,5) [symmetric] by auto
qed

lemma refines_ZRange:
  "refines_env t (ZRange key db start stop) (\<lambda>e. typed_rel ''zset'' (key, db)
     (read_rel (zrange_rel (key, db) start stop e)))"
  unfolding ZRange_def zAssert_def
proof (rule refines_env_guard, goal_cases)
  case (1 w)
  let ?kd = "(key, db)"
  note c = checkedD(1) [OF 1] and r = zset_rows_map [OF checkedD(3) [OF 1], of ?kd]
  let ?rows = "order_by (row_le (env w)) (zset_rows (tabs w) ?kd)"
  have len: "length (zset_rows (tabs w) ?kd) = length (map fst ?rows)"
    using mset_order_by [of "row_le (env w)" "zset_rows (tabs w) ?kd"] by (metis length_map size_mset)
  have l: "listing (env w) (zget (view t (tabs w)) ?kd) ?rows"
    unfolding checked_zget [OF 1] by (rule listing_order_by [OF r])
  define n where "n = int (length (zset_rows (tabs w) ?kd))"
  define a where "a = (if start < 0 then n + start else start)"
  define b where "b = (if stop < 0 then n + stop else stop)"
  define a' where "a' = (if a < 0 then 0 else a)"
  define b' where "b' = (if b \<ge> n then n - 1 else b)"
  have slice: "(if a' > b' then [] else take (nat (b' - a' + 1)) (drop (nat a') (map fst ?rows))) =
      range_slice (map fst ?rows) start stop"
    by (rule zrange_slice [OF _ a_def b_def a'_def b'_def]) (simp only: n_def len)
  have "zrange_rel ?kd start stop (env w) (view t (tabs w)) (range_slice (map fst ?rows) start stop)"
    using l by (auto simp: zrange_rel_def)
  then show ?case
    unfolding calm_seq(4) [OF c] Let_def n_def [symmetric] a_def [symmetric] b_def [symmetric]
      a'_def [symmetric] b'_def [symmetric] slice [symmetric]
    using c by (cases "a' > b'") (simp_all add: ret_def calm_query read_rel_def)
qed

lemma map_of_between:
  assumes "distinct (map fst rows)" "map_of rows = z"
  shows "map_of [r \<leftarrow> rows. in_bounds d lo hi (snd r)] = between d lo hi z"
proof (rule ext)
  fix m
  have "map_of [r \<leftarrow> rows. in_bounds d lo hi (snd r)] m =
      (case map_of rows m of None \<Rightarrow> None | Some s \<Rightarrow> if in_bounds d lo hi s then Some s else None)"
    using assms(1)
  proof (induction rows)
    case (Cons r rows)
    then have "map_of rows (fst r) = None" by (simp add: map_of_eq_None_iff)
    with Cons show ?case by (cases "m = fst r") auto
  qed simp
  then show "map_of [r \<leftarrow> rows. in_bounds d lo hi (snd r)] m = between d lo hi z m"
    by (simp add: assms(2) between_def)
qed

lemma refines_bounds:
  assumes "\<And>e z rows. listing e z rows \<Longrightarrow> R e z (f (map fst rows))"
  shows "refines_env t (seq (ZRangeByScore uni key db minStr maxStr) (\<lambda>xs. ret (f xs)))
    (\<lambda>e. typed_rel ''zset'' (key, db) (bounds_rel uni (key, db) minStr maxStr (R e) e))"
  unfolding ZRangeByScore_def zAssert_def seq_assoc
proof (rule refines_env_guard, goal_cases)
  case (1 w)
  let ?kd = "(key, db)"
  note c = checkedD(1) [OF 1] and r = zset_rows_map [OF checkedD(3) [OF 1], of ?kd]
  have l: "listing (env w) (between d lo hi (zset_of (tabs w) ?kd))
      (order_by (row_le (env w)) [r \<leftarrow> zset_rows (tabs w) ?kd. in_bounds d lo hi (snd r)])" for d lo hi
    by (rule listing_order_by [OF distinct_map_filter_fst [OF r(1)] map_of_between [OF r]])
  show ?case
    using c assms [OF l]
    by (cases "parseScore uni minStr"; cases "parseScore uni maxStr")
      (simp_all add: bounds_rel_def checked_zget [OF 1] seq_assoc calm_seq fail_def ret_def)
qed

lemma refines_ZRangeByScore:
  "refines_env t (ZRangeByScore uni key db minStr maxStr) (\<lambda>e. typed_rel ''zset'' (key, db)
     (bounds_rel uni (key, db) minStr maxStr (\<lambda>z xs. \<exists>rows. listing e z rows \<and> xs = map fst rows) e))"
proof -
  have "refines_env t (seq (ZRangeByScore uni key db minStr maxStr) (\<lambda>xs. ret xs)) (\<lambda>e. typed_rel ''zset'' (key, db)
     (bounds_rel uni (key, db) minStr maxStr (\<lambda>z xs. \<exists>rows. listing e z rows \<and> xs = map fst rows) e))"
    by (rule refines_bounds) blast
  then show ?thesis by (simp only: seq_ret_right)
qed

lemma refines_ZCount:
  "refines_env t (ZCount uni key db minStr maxStr) (\<lambda>e. typed_rel ''zset'' (key, db)
     (bounds_rel uni (key, db) minStr maxStr (\<lambda>z n. n = int (card (dom z))) e))"
  unfolding ZCount_def
proof (rule refines_bounds)
  fix e z rows assume l: "listing e z rows"
  then have "card (set (map fst rows)) = length rows"
    using distinct_card [of "map fst rows"] by (simp add: listing_def)
  then show "int (length (map fst rows)) = int (card (dom z))"
    using l by (simp add: listing_def dom_map_of_conv_image_fst [symmetric])
qed

section \<open>Theorems\<close>

text \<open>C12. The sorted-set operations implement finite maps from members to scores: adding respects NX and XX
  and answers how many members are new, removing answers how many were there, the score, rank and size
  are those of the map, a rank counts the members with a smaller score, incrementing adds as IEEE
  doubles do and refuses NaN where the engine cannot store it, and ranges by index and by score list
  the members in the order of score and member that the engine's collation gives. The expiry of the
  key stays, and a key of another type gives the type error and changes nothing.\<close>

theorem zset_ops_refine:
  assumes "distinct (map fst ps)" "\<forall>p \<in> set ps. snd p \<noteq> NaN"
  shows "refines_env t (ZAdd key db ps opts) (\<lambda>e. typed_rel ''zset'' (key, db) (zadd_rel (key, db) ps opts e)) \<and>
   refines t (ZRem key db ms) (typed_spec ''zset'' (key, db) (zrem_spec (key, db) ms)) \<and>
   refines_env t (ZIncrBy key db delta m) (\<lambda>e. typed_rel ''zset'' (key, db) (zincr_rel (key, db) delta m e)) \<and>
   refines t (ZScore key db m) (typed_spec ''zset'' (key, db)
     (read_spec (\<lambda>ks. case zget ks (key, db) m of None \<Rightarrow> (Finite False 0, False) | Some sc \<Rightarrow> (sc, True)))) \<and>
   refines t (ZCard key db)
     (typed_spec ''zset'' (key, db) (read_spec (\<lambda>ks. int (card (dom (zget ks (key, db))))))) \<and>
   refines_env t (ZRank key db m) (\<lambda>e. typed_rel ''zset'' (key, db)
     (read_rel (\<lambda>ks x. x = zrank_fun (dialect e) m (zget ks (key, db))))) \<and>
   refines_env t (ZRange key db start stop) (\<lambda>e. typed_rel ''zset'' (key, db)
     (read_rel (zrange_rel (key, db) start stop e))) \<and>
   refines_env t (ZRangeByScore uni key db minStr maxStr) (\<lambda>e. typed_rel ''zset'' (key, db)
     (bounds_rel uni (key, db) minStr maxStr (\<lambda>z xs. \<exists>rows. listing e z rows \<and> xs = map fst rows) e)) \<and>
   refines_env t (ZCount uni key db minStr maxStr) (\<lambda>e. typed_rel ''zset'' (key, db)
     (bounds_rel uni (key, db) minStr maxStr (\<lambda>z n. n = int (card (dom z))) e))"
  by (intro conjI refines_ZAdd [OF assms] refines_ZRem refines_ZIncrBy refines_ZScore refines_ZCard
      refines_ZRank refines_ZRange refines_ZRangeByScore refines_ZCount)

theorem zset_ops_refine_witness:
  "refines_env 7 (ZAdd ''k'' 0 [(''a'', Finite False 1), (''b'', Infinity True)] \<lparr>zNX = True, zXX = False\<rparr>)
    (\<lambda>e. typed_rel ''zset'' (''k'', 0)
      (zadd_rel (''k'', 0) [(''a'', Finite False 1), (''b'', Infinity True)] \<lparr>zNX = True, zXX = False\<rparr> e))"
  using zset_ops_refine [of "[(''a'', Finite False 1), (''b'', Infinity True)]" 7 "''k''" 0] by simp

end
