(* ===== verification/Interleaving.thy ===== *)
theory Interleaving
  imports Store_Safety Refine_Strings
begin

text \<open>
  Calls of the store that run at the same time. The other theories let calls follow one another; here the unit is the SQL
  statement, which the database executes as a whole. Every call is a sequence of statements of the store, so whatever is
  true of every sequence of statements is true of every interleaving of the statements of any number of calls
  (the reads in between decide which statements come, and a statement may come with any arguments).

  The last theorem is about a single call whose readings of the clock are apart: \<^verbatim>\<open>deleteExpired\<close> and \<^verbatim>\<open>assertType\<close> of
  \<^verbatim>\<open>src/internal/store/store.go\<close> each look at the clock on their own.
\<close>

section \<open>Statements\<close>

inductive store_stmt :: "key_id set \<Rightarrow> stmt \<Rightarrow> bool" for K where
  about_key: "on_key kd st \<Longrightarrow> kd \<in> K \<Longrightarrow> store_stmt K st"
| purging: "(\<And>kd ty ex. P kd ty ex \<Longrightarrow> kd \<in> K) \<Longrightarrow> store_stmt K (delete_keys P)"

definition stmt_step :: "key_id set \<Rightarrow> tables \<Rightarrow> tables \<Rightarrow> bool" where
  "stmt_step K T T' \<longleftrightarrow> (\<exists>st n. store_stmt K st \<and> st T = Inr (n, T'))"

abbreviation stmt_steps :: "key_id set \<Rightarrow> tables \<Rightarrow> tables \<Rightarrow> bool" where
  "stmt_steps K \<equiv> (stmt_step K)\<^sup>*\<^sup>*"

lemma stmt_keeps_steps: "store_stmt K st \<Longrightarrow> stmt_keeps (stmt_steps K) st"
  unfolding stmt_keeps_def stmt_step_def by (intro allI impI r_into_rtranclp exI conjI)

interpretation statements: keyed_relation stmt_steps
proof
  fix K T T' T'' assume "stmt_steps K T T'" "stmt_steps K T' T''"
  then show "stmt_steps K T T''" by (rule rtranclp_trans)
next
  fix P :: "key_id \<Rightarrow> string \<Rightarrow> int option \<Rightarrow> bool" and K assume "\<And>kd ty ex. P kd ty ex \<Longrightarrow> kd \<in> K"
  then show "stmt_keeps (stmt_steps K) (delete_keys P)" by (intro stmt_keeps_steps store_stmt.purging)
next
  fix kd st K assume "on_key kd st" "kd \<in> K"
  then show "stmt_keeps (stmt_steps K) st" by (intro stmt_keeps_steps store_stmt.about_key)
qed simp

lemma call_statements: "store_call K w w' \<Longrightarrow> stmt_steps K (tabs w) (tabs w')"
  by (induction rule: store_call.induct)
    (rule statements.store_keeps [unfolded keeps_def, rule_format])+

lemma stmt_step_keeps:
  assumes "stmt_step K T T'" shows "schema_step T T'" "frame K T T'"
proof -
  obtain st n where st: "store_stmt K st" "st T = Inr (n, T')" using assms unfolding stmt_step_def by blast
  from st(1) have "stmt_keeps schema_step st \<and> stmt_keeps (frame K) st"
  proof cases
    case (about_key kd)
    then show ?thesis using constraints.writes others.writes by blast
  next
    case (purging P)
    then show ?thesis using schema_delete_keys others.deletes by blast
  qed
  with st(2) show "schema_step T T'" "frame K T T'" unfolding stmt_keeps_def by blast+
qed

lemma stmt_steps_keep:
  assumes "stmt_steps K T T'" shows "schema_step T T'" "frame K T T'"
  using assms
  by (induction rule: rtranclp_induct)
    (auto intro: constraints.refl constraints.trans others.refl others.trans dest: stmt_step_keeps)

section \<open>A key that expires during a call\<close>

text \<open>The first reading of the clock is before millisecond \<open>x\<close>, all later ones are not.\<close>

definition passes :: "int \<Rightarrow> world \<Rightarrow> bool" where
  "passes x w \<longleftrightarrow> (\<forall>n. faults (env w) n = None) \<and> clock (env w) (tick w) div 1000000 < x \<and>
     (\<forall>n > tick w. x \<le> clock (env w) n div 1000000)"

lemma delete_nothing:
  assumes "schema_ok T" "map_of (keysT T) kd = Some (ty, Some x)" "t < x"
  shows "delete_keys (\<lambda>kd' ty ex. kd' = kd \<and> \<not> alive t ex) T = Inr (0, T)"
proof -
  have "\<not> (kd' = kd \<and> \<not> alive t ex)" if "(kd', ty', ex) \<in> set (keysT T)" for kd' ty' ex
  proof
    assume gone: "kd' = kd \<and> \<not> alive t ex"
    then have "(kd, ty', ex) \<in> set (keysT T)" using that by simp
    moreover have "distinct (map fst (keysT T))" using assms(1) by (simp add: schema_ok_def pk_ok_def)
    ultimately have "map_of (keysT T) kd = Some (ty', ex)" by (simp only: map_of_is_SomeI)
    with gone assms(2,3) show False by (simp add: alive_def)
  qed
  then have "[(kd', ty, ex) \<leftarrow> keysT T. kd' = kd \<and> \<not> alive t ex] = []" by (auto simp: filter_empty_conv)
  moreover have "drop_keys {} T = T" by (simp add: drop_keys_def)
  moreover have "dead t T \<inter> {kd} = {}" using assms by (auto simp: dead_map_of alive_def)
  ultimately show ?thesis using delete_dead [of "\<lambda>kd'. kd' = kd" t T] by simp
qed

lemma Set_racing:
  assumes "store_ok (tabs w)" "map_of (keysT (tabs w)) (key, db) = Some (ty, Some x)" "passes x w" "\<not> XX opts"
  shows "fst (Set key db v opts w) = Inr True \<and>
    tabs (snd (Set key db v opts w)) = (tabs w)\<lparr>keysT := AList.update (key, db) (''string'', ExpiresAt opts) (keysT (tabs w)),
      stringsT := AList.update (key, db) v (stringsT (tabs w))\<rparr>"
proof -
  let ?w = "bump (bump (bump (bump w)))" and ?T = "tabs w"
  let ?t = "clock (env w) (tick w) div 1000000"
  have late: "x \<le> clock (env w) (Suc (Suc (tick w))) div 1000000" using assms(3) by (simp add: passes_def)
  have "deleteExpired key db w = (Inr (), bump (bump w))"
    using delete_nothing [OF store_okD(1) [OF assms(1)] assms(2), of ?t] assms(3)
    by (simp add: deleteExpired_def nowMs_def nowNs_def seq_def ret_def exec_def passes_def bump_def)
  moreover have "assertType key db ''string'' (bump (bump w)) = (Inr (), ?w)"
    using assms(2,3) late
    by (simp add: assertType_def keyType_def nowMs_def nowNs_def seq_def ret_def query_def passes_def bump_def alive_def linorder_not_less [symmetric])
  moreover have gone: "count_alive ?T (key, db) t = 0" if "x \<le> t" for t
    using that assms(2) by (simp add: count_alive_view [OF store_okD(1) [OF assms(1)]] view_def alive_def)
  ultimately show ?thesis
    using assms(3,4) unfolding Set_def
    by (cases "ExpiresAt opts")
      (simp_all add: seq_def ret_def transact_def exec_def query_def scan_or_def attempt_def nowMs_def nowNs_def upsertKey_def
        upsert_key_row_def upsert_string_def has_key_map_of update_conv' passes_def bump_def gone)
qed

section \<open>Properties\<close>

text \<open>C4. Calls that run at the same time: every call of the store about the keys \<open>K\<close> is a sequence of the store's statements
  about \<open>K\<close> (a failed or abandoned transaction counts for none), and every sequence of such statements, so every interleaving
  of the statements of any number of calls, keeps the schema's constraints and leaves all other keys as they are.\<close>

theorem interleaved_calls:
  "(store_call K w w' \<longrightarrow> stmt_steps K (tabs w) (tabs w')) \<and>
   (stmt_steps K T T' \<longrightarrow> (schema_ok T \<longrightarrow> schema_ok T') \<and> (\<forall>kd. kd \<notin> K \<longrightarrow> slice kd T' = slice kd T))"
  using call_statements stmt_steps_keep unfolding schema_step_def frame_def by blast

theorem interleaved_calls_witness:
  "stmt_steps {(''k'', 0)} empty_tables (tabs (snd (RPush ''k'' 0 [''x''] (quiet 5)))) \<and>
   schema_ok (tabs (snd (RPush ''k'' 0 [''x''] (quiet 5))))"
proof -
  have t: "tabs (quiet 5) = empty_tables" by (simp add: quiet_def)
  then show ?thesis
    using interleaved_calls [of "{(''k'', 0)}" "quiet 5" "snd (RPush ''k'' 0 [''x''] (quiet 5))" empty_tables
        "tabs (snd (RPush ''k'' 0 [''x''] (quiet 5)))"] call_RPush [of "''k''" 0 "quiet 5" "[''x'']"] store_okD(1) [OF empty_ok]
    by simp
qed

text \<open>C35. The type check of \<open>Set\<close> can be raced by the clock. Take a valid store in which the key holds a non-empty list that expires
  at millisecond \<open>x\<close>. If the clock is still before \<open>x\<close> when \<open>Set\<close> deletes expired keys and has reached \<open>x\<close> when it checks the
  type (no statement failing, and without \<^verbatim>\<open>XX\<close>), \<open>Set\<close> succeeds and turns the key into a string whose list rows are all still
  there, so that the store is not valid any more. Under a clock that stays within one millisecond, on the same tables,
  \<open>Set\<close> leaves a valid store: before \<open>x\<close> it refuses with the error for a wrong type, from \<open>x\<close> on it succeeds.\<close>

theorem set_race_breaks_types:
  assumes "store_ok (tabs w)" "map_of (keysT (tabs w)) (key, db) = Some (''list'', Some x)"
    and "[r \<leftarrow> listsT (tabs w). fst (fst r) = (key, db)] \<noteq> []" "passes x w" "\<not> XX opts"
    and "T' = tabs (snd (Set key db v opts w))"
  shows "fst (Set key db v opts w) = Inr True \<and> map_of (keysT T') (key, db) = Some (''string'', ExpiresAt opts) \<and>
    map_of (stringsT T') (key, db) = Some v \<and> listsT T' = listsT (tabs w) \<and> \<not> store_ok T' \<and>
    (\<forall>t w0. calm t w0 \<and> tabs w0 = tabs w \<longrightarrow>
      fst (Set key db v opts w0) = (if t < x then Inl ErrWrongType else Inr True) \<and> store_ok (tabs (snd (Set key db v opts w0))))"
proof -
  note race = Set_racing [OF assms(1,2,4,5), of v]
  then have T': "map_of (keysT T') (key, db) = Some (''string'', ExpiresAt opts)" "map_of (stringsT T') (key, db) = Some v"
    "listsT T' = listsT (tabs w)"
    using assms(6) by (simp_all add: update_conv')
  then have "\<not> rows_ok T' (key, db)" using assms(3) by (simp add: rows_ok_def)
  then have "\<not> store_ok T'" using store_okD(2) by blast
  moreover have "fst (Set key db v opts w0) = (if t < x then Inl ErrWrongType else Inr True) \<and>
      store_ok (tabs (snd (Set key db v opts w0)))" if c: "calm t w0" and w0: "tabs w0 = tabs w" for t w0
  proof
    have "(fst (Set key db v opts w0), view t (tabs (snd (Set key db v opts w0)))) =
        typed_spec ''string'' (key, db) (set_spec t (key, db) v opts) (view t (tabs w))"
      using refines_Set [of t key db v opts] c w0 assms(1) unfolding refines_def by metis
    then show "fst (Set key db v opts w0) = (if t < x then Inl ErrWrongType else Inr True)"
      using assms(2,5) by (simp add: typed_spec_def set_spec_def view_def alive_def content_def prod_eq_iff split: if_splits)
    show "store_ok (tabs (snd (Set key db v opts w0)))"
      using call_ok [OF call_Set calm_steady [OF c]] assms(1) w0 by simp
  qed
  ultimately show ?thesis using race T' by blast
qed

text \<open>A list key that expires at millisecond 10, and a clock that passes from 9 to 10 after its first reading.\<close>

definition expiring_list :: world where
  "expiring_list = (quiet 0)
     \<lparr>tabs := empty_tables\<lparr>keysT := [((''k'', 0), ''list'', Some 10)], listsT := [(((''k'', 0), 0), ''x'')]\<rparr>,
      env := (env (quiet 0))\<lparr>clock := (\<lambda>n. if n = 0 then 9000000 else 10000000)\<rparr>\<rparr>"

theorem set_race_breaks_types_witness:
  "store_ok (tabs expiring_list) \<and> fst (Set ''k'' 0 ''v'' noSetOptions expiring_list) = Inr True \<and>
   \<not> store_ok (tabs (snd (Set ''k'' 0 ''v'' noSetOptions expiring_list)))"
proof -
  have ok: "store_ok (tabs expiring_list)"
    by (auto simp: expiring_list_def store_ok_def schema_ok_def pk_ok_def fk_ok_def rows_ok_def empty_tables_def)
  have "passes 10 expiring_list" by (simp add: passes_def expiring_list_def quiet_def)
  with set_race_breaks_types [OF ok _ _ _ _ refl, of "''k''" 0 10 noSetOptions "''v''"] ok show ?thesis
    by (simp add: expiring_list_def noSetOptions_def)
qed

end
