(* ===== verification/Go_Format.thy ===== *)
theory Go_Format
  imports Go_Float
begin

text \<open>
  The formatting functions of Go's standard library that the command layer calls:
  \<^verbatim>\<open>fmt.Sprintf("%g", f)\<close> on a \<^verbatim>\<open>float64\<close>, \<^verbatim>\<open>strconv.Quote\<close> (inside the message of a
  \<^verbatim>\<open>strconv.NumError\<close>) and \<^verbatim>\<open>time.Duration.Seconds\<close>.
\<close>

section \<open>Floating-point numbers\<close>

text \<open>
  The shortest decimal that parses back to the value. With \<open>n\<close> significant digits the two candidates
  are the neighbours of the magnitude \<open>m\<close> on the decimal grid of that precision; a candidate is good
  if it rounds to \<open>m\<close>. When both are good the nearer one is taken. The result is the digits as an
  integer and the power of ten they are scaled by; 17 digits are always enough for a binary64 value.
\<close>

definition pow10 :: "int \<Rightarrow> rat" where
  "pow10 e = pow_rat 10 e"

text \<open>The decimal exponent: the largest \<open>e\<close> with \<open>10 ^ e \<le> m\<close>, searched from the binary one.\<close>

fun log10_up :: "nat \<Rightarrow> int \<Rightarrow> rat \<Rightarrow> int" where
  "log10_up 0 e m = e"
| "log10_up (Suc n) e m = (if pow10 (e + 1) \<le> m then log10_up n (e + 1) m else e)"

definition floor_log10 :: "rat \<Rightarrow> int" where
  "floor_log10 m = (let e = floor_log2 m * 30103 div 100000 - 1 in log10_up 4 e m)"

definition shortest_at :: "rat \<Rightarrow> int \<Rightarrow> nat \<Rightarrow> (int \<times> int) option" where
  "shortest_at m e n =
     (let q = pow10 (e + 1 - int n);
          lo = \<lfloor>m / q\<rfloor>; hi = \<lceil>m / q\<rceil>;
          okdown = (round64 False (of_int lo * q) = Finite False m);
          okup = (round64 False (of_int hi * q) = Finite False m)
      in if okdown \<and> okup then Some (round_half_even (m / q), e + 1 - int n)
         else if okdown then Some (lo, e + 1 - int n)
         else if okup then Some (hi, e + 1 - int n)
         else None)"

fun shortest_loop :: "rat \<Rightarrow> int \<Rightarrow> nat \<Rightarrow> nat \<Rightarrow> (int \<times> int) option" where
  "shortest_loop m e n 0 = None"
| "shortest_loop m e n (Suc k) =
     (case shortest_at m e n of None \<Rightarrow> shortest_loop m e (Suc n) k | Some r \<Rightarrow> Some r)"

text \<open>The significant digits without trailing zeros, and the position of the decimal point
  (\<^verbatim>\<open>digs.d\<close> and \<^verbatim>\<open>digs.dp\<close> of Go's \<^verbatim>\<open>decimalSlice\<close>).\<close>

definition decimal :: "rat \<Rightarrow> string \<times> int" where
  "decimal m =
     (if m = 0 then ([], 0)
      else case shortest_loop m (floor_log10 m) 1 17 of
          None \<Rightarrow> ([], 0)
        | Some (d, e) \<Rightarrow>
            let ds = nat_digits (nat d)
            in (rev (dropWhile (\<lambda>c. c = CHR ''0'') (rev ds)), int (length ds) + e))"

definition two_digits :: "nat \<Rightarrow> string" where
  "two_digits n = (if n < 10 then ''0'' @ nat_digits n else nat_digits n)"

text \<open>\<^verbatim>\<open>fmtE\<close> and \<^verbatim>\<open>fmtF\<close> with the precision that shows every digit.\<close>

definition fmtE :: "string \<Rightarrow> int \<Rightarrow> string" where
  "fmtE ds dp =
     (let e = (if ds = [] then 0 else dp - 1)
      in (if ds = [] then ''0'' else take 1 ds) @
         (if length ds > 1 then ''.'' @ drop 1 ds else []) @
         ''e'' @ (if e < 0 then ''-'' else ''+'') @ two_digits (nat \<bar>e\<bar>))"

definition fmtF :: "string \<Rightarrow> int \<Rightarrow> string" where
  "fmtF ds dp =
     (let prec = nat (max (int (length ds) - dp) 0)
      in (if dp > 0 then take (nat dp) ds @ replicate (nat dp - length ds) (CHR ''0'') else ''0'') @
         (if prec > 0
          then ''.'' @ replicate (nat (- dp)) (CHR ''0'') @ drop (nat dp) ds
          else []))"

definition formatFloat :: "float64 \<Rightarrow> string" where
  "formatFloat x =
     (case x of
        NaN \<Rightarrow> ''NaN''
      | Infinity neg \<Rightarrow> if neg then ''-Inf'' else ''+Inf''
      | Finite neg m \<Rightarrow>
          (case decimal m of
             (ds, dp) \<Rightarrow>
               (if neg then ''-'' else []) @
               (if dp - 1 < - 4 \<or> dp - 1 \<ge> 6 then fmtE ds dp else fmtF ds dp)))"

section \<open>Quoting\<close>

text \<open>\<^verbatim>\<open>strconv.Quote\<close> on ASCII; the treatment of other strings (UTF-8 decoding and the table of
  printable characters) is a parameter.\<close>

definition hex_digit :: "nat \<Rightarrow> char" where
  "hex_digit d = (if d < 10 then char_of (48 + d) else char_of (87 + d))"

definition quote_char :: "char \<Rightarrow> string" where
  "quote_char c =
     (let n = (of_char c :: nat) in
      if n = 34 \<or> n = 92 then [CHR 0x5C, c]
      else if 32 \<le> n \<and> n < 127 then [c]
      else if n = 7 then [CHR 0x5C, CHR ''a'']
      else if n = 8 then [CHR 0x5C, CHR ''b'']
      else if n = 12 then [CHR 0x5C, CHR ''f'']
      else if n = 10 then [CHR 0x5C, CHR ''n'']
      else if n = 13 then [CHR 0x5C, CHR ''r'']
      else if n = 9 then [CHR 0x5C, CHR ''t'']
      else if n = 11 then [CHR 0x5C, CHR ''v'']
      else [CHR 0x5C, CHR ''x'', hex_digit (n div 16), hex_digit (n mod 16)])"

definition Quote :: "(string \<Rightarrow> string) \<Rightarrow> string \<Rightarrow> string" where
  "Quote uq s = (if ascii s then [CHR 0x22] @ concat (map quote_char s) @ [CHR 0x22] else uq s)"

section \<open>Durations\<close>

text \<open>\<^verbatim>\<open>int(d.Seconds())\<close> for a duration of \<open>d \<ge> 0\<close> nanoseconds: the whole seconds and the fraction
  are added as \<^verbatim>\<open>float64\<close> values, and the conversion to \<^verbatim>\<open>int\<close> truncates.\<close>

definition seconds_int :: "int \<Rightarrow> int" where
  "seconds_int d =
     (let whole = \<bar>d\<bar> div 1000000000; part = \<bar>d\<bar> mod 1000000000;
          sum = f_add (round64 False (of_int whole))
                      (round64 False (of_int part / 1000000000))
      in if d < 0 then - \<lfloor>f_real sum\<rfloor> else \<lfloor>f_real sum\<rfloor>)"

end
