(* ===== verification/Commands_Core.thy ===== *)
theory Commands_Core
  imports Resp Go_Format Store_Laws
begin

text \<open>
  The frame of the command layer: \<^verbatim>\<open>src/internal/commands/clientconn.go\<close>, \<^verbatim>\<open>context.go\<close>, the registry
  and the dispatcher (\<^verbatim>\<open>registry.go\<close>), the wrappers \<^verbatim>\<open>withStore\<close> and \<^verbatim>\<open>withOptionalStore\<close>, and the
  helpers the handlers share.

  A handler takes the context, the arguments and the connection's state, and runs in a \<^typ>\<open>world\<close>.
  It gives a \<open>Reply\<close>, or \<open>Crash\<close> where the Go code panics (an index out of range in \<^verbatim>\<open>args[i]\<close>, the
  glob matcher's panic). \<open>Deep\<close> is not a behaviour of the code: it marks that the model's fuel for
  the recursion of \<^verbatim>\<open>EXEC\<close> through \<^verbatim>\<open>Dispatch\<close> is used up; the theory Multi shows when it cannot
  occur.
\<close>

named_theorems run_rules \<open>rules for what the bodies of handlers do to the store\<close>

section \<open>State\<close>

record ClientConn =
  DB :: int
  InMulti :: bool
  QueuedCmds :: "Value list list"
  Authenticated :: bool

definition NewClientConn :: "bool \<Rightarrow> ClientConn" where
  "NewClientConn authenticated =
     \<lparr>DB = 0, InMulti = False, QueuedCmds = [], Authenticated = authenticated\<rparr>"

text \<open>
  The context: whether it carries a store (\<^verbatim>\<open>WithStore\<close>), and what is outside the program: the case
  mapping and the quoting of non-ASCII strings, the driver's text of a constraint violation, and the
  time at which the process started.
\<close>

record ctx =
  hasStore :: bool
  upperU :: "string \<Rightarrow> string"
  lowerU :: "string \<Rightarrow> string"
  quoteU :: "string \<Rightarrow> string"
  constraintText :: "string \<Rightarrow> string"
  startTime :: int

definition WithStore :: "ctx \<Rightarrow> ctx" where
  "WithStore c = c\<lparr>hasStore := True\<rparr>"

datatype reply = Reply Value | Crash | Deep

type_synonym body = "world \<Rightarrow> reply \<times> world"
type_synonym Handler = "ctx \<Rightarrow> Value list \<Rightarrow> ClientConn \<Rightarrow> world \<Rightarrow> reply \<times> ClientConn \<times> world"
type_synonym storeHandler = "ctx \<Rightarrow> int \<Rightarrow> Value list \<Rightarrow> body"

section \<open>Errors\<close>

definition WrongTypeText :: string where
  "WrongTypeText = ''WRONGTYPE Operation against a key holding the wrong kind of value''"

definition SyntaxText :: string where
  "SyntaxText = ''ERR syntax error''"

definition NotIntText :: string where
  "NotIntText = ''ERR value is not an integer or out of range''"

text \<open>\<^verbatim>\<open>err.Error()\<close>\<close>

definition num_error_text :: "num_error \<Rightarrow> string" where
  "num_error_text e = (case e of ErrSyntax \<Rightarrow> ''invalid syntax'' | ErrRange \<Rightarrow> ''value out of range'')"

definition errorText :: "ctx \<Rightarrow> error \<Rightarrow> string" where
  "errorText c e =
     (case e of
        ErrWrongType \<Rightarrow> WrongTypeText
      | ErrNoKey \<Rightarrow> ''ERR no such key''
      | ErrText s \<Rightarrow> s
      | ErrNum fn s ne \<Rightarrow>
          ''strconv.'' @ fn @ '': parsing '' @ Quote (quoteU c) s @ '': '' @ num_error_text ne
      | ErrSql s \<Rightarrow> s
      | ErrConstraint s \<Rightarrow> constraintText c s)"

definition storeErr :: "ctx \<Rightarrow> error \<Rightarrow> Value" where
  "storeErr c e = (if e = ErrWrongType then Error WrongTypeText else Error (''ERR '' @ errorText c e))"

definition boolInt :: "bool \<Rightarrow> Value" where
  "boolInt b = (if b then Integer 1 else Integer 0)"

definition strSlice :: "string list \<Rightarrow> Value" where
  "strSlice vals = Array (map BulkString vals)"

definition argsToStrings :: "Value list \<Rightarrow> string list" where
  "argsToStrings args = map str args"

section \<open>Bodies of handlers\<close>

definition reply :: "Value \<Rightarrow> body" where
  "reply v w = (Reply v, w)"

definition crash :: body where
  "crash w = (Crash, w)"

text \<open>\<^verbatim>\<open>x, err := m; if err != nil { return storeErr(err) }\<close>\<close>

definition call :: "ctx \<Rightarrow> 'a act \<Rightarrow> ('a \<Rightarrow> body) \<Rightarrow> body" where
  "call c m k w = (case m w of (Inl e, w') \<Rightarrow> (Reply (storeErr c e), w') | (Inr a, w') \<Rightarrow> k a w')"

text \<open>\<^verbatim>\<open>x, err := m\<close> where the error is treated differently.\<close>

definition outcome :: "'a act \<Rightarrow> (error + 'a \<Rightarrow> body) \<Rightarrow> body" where
  "outcome m k w = (case m w of (r, w') \<Rightarrow> k r w')"

text \<open>\<^verbatim>\<open>args[i].Str()\<close> and \<^verbatim>\<open>args[i:]\<close>\<close>

definition arg :: "Value list \<Rightarrow> nat \<Rightarrow> (string \<Rightarrow> body) \<Rightarrow> body" where
  "arg args i k = (if i < length args then k (str (args ! i)) else crash)"

definition args_from :: "Value list \<Rightarrow> nat \<Rightarrow> (Value list \<Rightarrow> body) \<Rightarrow> body" where
  "args_from args i k = (if i \<le> length args then k (drop i args) else crash)"

text \<open>\<^verbatim>\<open>n, err := strconv.ParseInt(s, 10, 64); if err != nil { return \<dots> }\<close>\<close>

definition parse_int :: "string \<Rightarrow> (int \<Rightarrow> body) \<Rightarrow> body" where
  "parse_int s k = (case ParseInt s of None \<Rightarrow> reply (Error NotIntText) | Some n \<Rightarrow> k n)"

definition withStore :: "storeHandler \<Rightarrow> Handler" where
  "withStore h c args cc w =
     (if \<not> hasStore c then (Reply (Error ''ERR store not available''), cc, w)
      else case h c (DB cc) args w of (r, w') \<Rightarrow> (r, cc, w'))"

text \<open>The handler sees in the context whether there is a store.\<close>

definition withOptionalStore :: "storeHandler \<Rightarrow> Handler" where
  "withOptionalStore h c args cc w = (case h c (DB cc) args w of (r, w') \<Rightarrow> (r, cc, w'))"

text \<open>A handler that neither uses the store nor changes the connection.\<close>

definition plain :: "(ctx \<Rightarrow> Value list \<Rightarrow> body) \<Rightarrow> Handler" where
  "plain h c args cc w = (case h c args w of (r, w') \<Rightarrow> (r, cc, w'))"

section \<open>Registry and dispatcher\<close>

record Cmd =
  Name :: string
  MinArgs :: nat
  MaxArgs :: int
  Exec :: Handler

type_synonym registry = "(string \<times> Cmd) list"

definition Register :: "ctx \<Rightarrow> Cmd \<Rightarrow> registry \<Rightarrow> registry" where
  "Register c cmd reg = AList.update (ToUpper (upperU c) (Name cmd)) cmd reg"

definition arity_text :: "string \<Rightarrow> string" where
  "arity_text name = ''ERR wrong number of arguments for '' @ [CHR 0x27] @ name @ [CHR 0x27] @ '' command''"

definition unknown_text :: "string \<Rightarrow> string" where
  "unknown_text name = ''ERR unknown command '' @ [CHR 0x60] @ name @ [CHR 0x60]"

text \<open>\<^verbatim>\<open>Dispatch\<close>, with the registry as an argument.\<close>

definition DispatchIn :: "registry \<Rightarrow> Handler" where
  "DispatchIn reg c args cc w =
     (case args of
        [] \<Rightarrow> (Reply (Error ''ERR empty command''), cc, w)
      | a # _ \<Rightarrow>
          let name = ToUpper (upperU c) (str a) in
          case map_of reg name of
            None \<Rightarrow> (Reply (Error (unknown_text (ToLower (lowerU c) name))), cc, w)
          | Some cmd \<Rightarrow>
              if length args < MinArgs cmd
                then (Reply (Error (arity_text (ToLower (lowerU c) name))), cc, w)
              else if MaxArgs cmd \<ge> 0 \<and> int (length args) > MaxArgs cmd
                then (Reply (Error (arity_text (ToLower (lowerU c) name))), cc, w)
              else Exec cmd c args cc w)"

text \<open>\<^verbatim>\<open>All\<close>: the values of the registry, in the map's iteration order.\<close>

definition All :: "(string \<times> 'c) list \<Rightarrow> 'c list act" where
  "All reg = range_map (map snd reg)"

end
