(* ===== verification/Cmd_Strings.thy ===== *)
theory Cmd_Strings
  imports Commands_Core
begin

text \<open>
  The handlers of the key and string commands, \<^verbatim>\<open>src/internal/commands/strings.go\<close>.
\<close>

definition cmdGet :: storeHandler where
  "cmdGet c db args =
     arg args 1 (\<lambda>key.
     call c (Get key db) (\<lambda>(val, found).
     if \<not> found then reply NullBulkString else reply (BulkString val)))"

text \<open>The option loop of \<^verbatim>\<open>SET\<close>. It gives the reply of an early return, or the options.\<close>

definition expire_text :: string where
  "expire_text = ''ERR invalid expire time in '' @ [CHR 0x27] @ ''set'' @ [CHR 0x27] @ '' command''"

fun set_options :: "ctx \<Rightarrow> Value list \<Rightarrow> SetOptions \<Rightarrow> (Value + SetOptions) act" where
  "set_options c [] opts = ret (Inr opts)"
| "set_options c (a # rest) opts =
     (let u = ToUpper (upperU c) (str a) in
      if u = ''EX'' then
        (case rest of
           [] \<Rightarrow> ret (Inl (Error SyntaxText))
         | b # rest' \<Rightarrow>
             (case ParseInt (str b) of
                None \<Rightarrow> ret (Inl (Error expire_text))
              | Some secs \<Rightarrow>
                  if secs \<le> 0 then ret (Inl (Error expire_text))
                  else
                    seq nowNs (\<lambda>now.
                    set_options c rest'
                      (opts\<lparr>ExpiresAt := Some ((now + wrap64 (secs * 1000000000)) div 1000000)\<rparr>))))
      else if u = ''PX'' then
        (case rest of
           [] \<Rightarrow> ret (Inl (Error SyntaxText))
         | b # rest' \<Rightarrow>
             (case ParseInt (str b) of
                None \<Rightarrow> ret (Inl (Error expire_text))
              | Some ms \<Rightarrow>
                  if ms \<le> 0 then ret (Inl (Error expire_text))
                  else
                    seq nowMs (\<lambda>now.
                    set_options c rest' (opts\<lparr>ExpiresAt := Some (wrap64 (now + ms))\<rparr>))))
      else if u = ''NX'' then set_options c rest (opts\<lparr>NX := True\<rparr>)
      else if u = ''XX'' then set_options c rest (opts\<lparr>XX := True\<rparr>)
      else ret (Inl (Error SyntaxText)))"

definition cmdSet :: storeHandler where
  "cmdSet c db args =
     arg args 1 (\<lambda>key.
     arg args 2 (\<lambda>val.
     call c (set_options c (drop 3 args) noSetOptions) (\<lambda>r.
     case r of
       Inl v \<Rightarrow> reply v
     | Inr opts \<Rightarrow>
         call c (Set key db val opts) (\<lambda>ok.
         if \<not> ok then reply NullBulkString else reply (SimpleString ''OK'')))))"

definition cmdDel :: storeHandler where
  "cmdDel c db args =
     args_from args 1 (\<lambda>rest.
     call c (Del (map str rest) db) (\<lambda>n. reply (Integer n)))"

definition cmdExists :: storeHandler where
  "cmdExists c db args =
     args_from args 1 (\<lambda>rest.
     call c (Exists (map str rest) db) (\<lambda>n. reply (Integer n)))"

definition cmdExpire :: storeHandler where
  "cmdExpire c db args =
     arg args 2 (\<lambda>s. parse_int s (\<lambda>secs.
     arg args 1 (\<lambda>key.
     call c (Expire key db secs) (\<lambda>ok. reply (boolInt ok)))))"

definition cmdPExpire :: storeHandler where
  "cmdPExpire c db args =
     arg args 2 (\<lambda>s. parse_int s (\<lambda>ms.
     arg args 1 (\<lambda>key.
     call c (PExpire key db ms) (\<lambda>ok. reply (boolInt ok)))))"

definition cmdTTL :: storeHandler where
  "cmdTTL c db args =
     arg args 1 (\<lambda>key. call c (TTL key db) (\<lambda>n. reply (Integer n)))"

definition cmdPTTL :: storeHandler where
  "cmdPTTL c db args =
     arg args 1 (\<lambda>key. call c (PTTL key db) (\<lambda>n. reply (Integer n)))"

definition cmdPersist :: storeHandler where
  "cmdPersist c db args =
     arg args 1 (\<lambda>key. call c (Persist key db) (\<lambda>ok. reply (boolInt ok)))"

definition cmdType :: storeHandler where
  "cmdType c db args =
     arg args 1 (\<lambda>key. call c (Type key db) (\<lambda>ty. reply (SimpleString ty)))"

definition cmdRename :: storeHandler where
  "cmdRename c db args =
     arg args 1 (\<lambda>src.
     arg args 2 (\<lambda>dst.
     outcome (Rename src dst db) (\<lambda>r.
     case r of
       Inl e \<Rightarrow> if e = ErrNoKey then reply (Error ''ERR no such key'') else reply (storeErr c e)
     | Inr _ \<Rightarrow> reply (SimpleString ''OK''))))"

text \<open>\<^verbatim>\<open>Keys\<close> gives \<^const>\<open>None\<close> where the glob matcher panics.\<close>

definition cmdKeys :: storeHandler where
  "cmdKeys c db args =
     arg args 1 (\<lambda>pat.
     call c (Keys pat db) (\<lambda>r.
     case r of None \<Rightarrow> crash | Some ks \<Rightarrow> reply (Array (map BulkString ks))))"

definition cmdDBSize :: storeHandler where
  "cmdDBSize c db args = call c (DBSize db) (\<lambda>n. reply (Integer n))"

definition cmdFlushDB :: storeHandler where
  "cmdFlushDB c db args = call c (FlushDB db) (\<lambda>_. reply (SimpleString ''OK''))"

definition cmdFlushAll :: storeHandler where
  "cmdFlushAll c db args = call c FlushAll (\<lambda>_. reply (SimpleString ''OK''))"

definition cmdRandomKey :: storeHandler where
  "cmdRandomKey c db args =
     call c (RandomKey db) (\<lambda>key.
     if key = '''' then reply NullBulkString else reply (BulkString key))"

definition cmdSelect :: Handler where
  "cmdSelect c args cc w =
     (if 1 < length args then
        (case Atoi (str (args ! 1)) of
           None \<Rightarrow> (Reply (Error ''ERR DB index is out of range''), cc, w)
         | Some n \<Rightarrow>
             if n < 0 \<or> n > 15 then (Reply (Error ''ERR DB index is out of range''), cc, w)
             else (Reply (SimpleString ''OK''), cc\<lparr>DB := n\<rparr>, w))
      else (Crash, cc, w))"

definition cmdIncr :: storeHandler where
  "cmdIncr c db args =
     arg args 1 (\<lambda>key. call c (IncrBy key db 1) (\<lambda>n. reply (Integer n)))"

definition cmdIncrBy :: storeHandler where
  "cmdIncrBy c db args =
     arg args 2 (\<lambda>s. parse_int s (\<lambda>delta.
     arg args 1 (\<lambda>key.
     call c (IncrBy key db delta) (\<lambda>n. reply (Integer n)))))"

definition cmdDecr :: storeHandler where
  "cmdDecr c db args =
     arg args 1 (\<lambda>key. call c (IncrBy key db (- 1)) (\<lambda>n. reply (Integer n)))"

definition cmdDecrBy :: storeHandler where
  "cmdDecrBy c db args =
     arg args 2 (\<lambda>s. parse_int s (\<lambda>delta.
     arg args 1 (\<lambda>key.
     call c (IncrBy key db (wrap64 (- delta))) (\<lambda>n. reply (Integer n)))))"

text \<open>The loop of \<^verbatim>\<open>MGET\<close>: an error of one key is answered like a missing key.\<close>

definition mget_loop :: "int \<Rightarrow> Value list \<Rightarrow> Value list act" where
  "mget_loop db ks =
     each (\<lambda>a elems.
       seq (attempt (Get (str a) db)) (\<lambda>r.
       ret (elems @ [case r of
           Inr (val, found) \<Rightarrow> if \<not> found then NullBulkString else BulkString val
         | Inl _ \<Rightarrow> NullBulkString]))) ks []"

definition cmdMGet :: storeHandler where
  "cmdMGet c db args =
     args_from args 1 (\<lambda>ks.
     call c (mget_loop db ks) (\<lambda>elems. reply (Array elems)))"

fun mset_loop :: "ctx \<Rightarrow> int \<Rightarrow> Value list \<Rightarrow> body" where
  "mset_loop c db [] = reply (SimpleString ''OK'')"
| "mset_loop c db [a] = crash"
| "mset_loop c db (a # b # rest) =
     call c (Set (str a) db (str b) noSetOptions) (\<lambda>_. mset_loop c db rest)"

definition cmdMSet :: storeHandler where
  "cmdMSet c db args =
     (if length args mod 2 = 0 then reply (Error (arity_text ''mset''))
      else mset_loop c db (drop 1 args))"

definition cmdSetNX :: storeHandler where
  "cmdSetNX c db args =
     arg args 1 (\<lambda>key.
     arg args 2 (\<lambda>val.
     call c (Set key db val (noSetOptions\<lparr>NX := True\<rparr>)) (\<lambda>ok. reply (boolInt ok))))"

definition cmdGetSet :: storeHandler where
  "cmdGetSet c db args =
     arg args 1 (\<lambda>key.
     call c (Get key db) (\<lambda>(old, found).
     arg args 2 (\<lambda>val.
     call c (Set key db val noSetOptions) (\<lambda>_.
     if \<not> found then reply NullBulkString else reply (BulkString old)))))"

definition cmdAppend :: storeHandler where
  "cmdAppend c db args =
     arg args 1 (\<lambda>key.
     arg args 2 (\<lambda>val.
     call c (Append key db val) (\<lambda>n. reply (Integer n))))"

definition cmdStrLen :: storeHandler where
  "cmdStrLen c db args =
     arg args 1 (\<lambda>key. call c (StrLen key db) (\<lambda>n. reply (Integer n)))"

lemmas cmd_string_defs = cmdGet_def cmdSet_def cmdDel_def cmdExists_def cmdExpire_def
  cmdPExpire_def cmdTTL_def cmdPTTL_def cmdPersist_def cmdType_def cmdRename_def cmdKeys_def
  cmdDBSize_def cmdFlushDB_def cmdFlushAll_def cmdRandomKey_def cmdIncr_def cmdIncrBy_def
  cmdDecr_def cmdDecrBy_def cmdMGet_def cmdMSet_def cmdSetNX_def cmdGetSet_def cmdAppend_def
  cmdStrLen_def

text \<open>The registrations of \<^verbatim>\<open>init\<close>.\<close>

definition cmd :: "string \<Rightarrow> nat \<Rightarrow> int \<Rightarrow> Handler \<Rightarrow> Cmd" where
  "cmd name lo hi h = \<lparr>Name = name, MinArgs = lo, MaxArgs = hi, Exec = h\<rparr>"

definition init_strings :: "Cmd list" where
  "init_strings =
     [cmd ''GET'' 2 2 (withStore cmdGet),
      cmd ''SET'' 3 (- 1) (withStore cmdSet),
      cmd ''DEL'' 2 (- 1) (withStore cmdDel),
      cmd ''EXISTS'' 2 (- 1) (withStore cmdExists),
      cmd ''EXPIRE'' 3 3 (withStore cmdExpire),
      cmd ''PEXPIRE'' 3 3 (withStore cmdPExpire),
      cmd ''TTL'' 2 2 (withStore cmdTTL),
      cmd ''PTTL'' 2 2 (withStore cmdPTTL),
      cmd ''PERSIST'' 2 2 (withStore cmdPersist),
      cmd ''TYPE'' 2 2 (withStore cmdType),
      cmd ''RENAME'' 3 3 (withStore cmdRename),
      cmd ''KEYS'' 2 2 (withStore cmdKeys),
      cmd ''DBSIZE'' 1 1 (withStore cmdDBSize),
      cmd ''FLUSHDB'' 1 2 (withStore cmdFlushDB),
      cmd ''FLUSHALL'' 1 2 (withStore cmdFlushAll),
      cmd ''RANDOMKEY'' 1 1 (withStore cmdRandomKey),
      cmd ''SELECT'' 2 2 cmdSelect,
      cmd ''INCR'' 2 2 (withStore cmdIncr),
      cmd ''INCRBY'' 3 3 (withStore cmdIncrBy),
      cmd ''DECR'' 2 2 (withStore cmdDecr),
      cmd ''DECRBY'' 3 3 (withStore cmdDecrBy),
      cmd ''MGET'' 2 (- 1) (withStore cmdMGet),
      cmd ''MSET'' 3 (- 1) (withStore cmdMSet),
      cmd ''SETNX'' 3 3 (withStore cmdSetNX),
      cmd ''GETSET'' 3 3 (withStore cmdGetSet),
      cmd ''APPEND'' 3 3 (withStore cmdAppend),
      cmd ''STRLEN'' 2 2 (withStore cmdStrLen)]"

end
