(* ===== verification/Cmd_Data.thy ===== *)
theory Cmd_Data
  imports Cmd_Strings
begin

text \<open>
  The handlers of the hash, list, set and sorted-set commands: \<^verbatim>\<open>hashes.go\<close>, \<^verbatim>\<open>lists.go\<close>, \<^verbatim>\<open>sets.go\<close>
  and \<^verbatim>\<open>zsets.go\<close> under \<^verbatim>\<open>src/internal/commands\<close>.
\<close>

section \<open>Hashes\<close>

text \<open>The loop \<^verbatim>\<open>for i := 2; i < len(args); i += 2\<close> that collects field and value; \<^const>\<open>None\<close> is an
  index out of range.\<close>

fun field_pairs :: "Value list \<Rightarrow> (string \<times> string) list option" where
  "field_pairs [] = Some []"
| "field_pairs [a] = None"
| "field_pairs (a # b # rest) =
     (case field_pairs rest of None \<Rightarrow> None | Some ps \<Rightarrow> Some ((str a, str b) # ps))"

definition cmdHSet :: storeHandler where
  "cmdHSet c db args =
     (if (int (length args) - 2) mod 2 \<noteq> 0 then reply (Error (arity_text ''hset''))
      else
        arg args 1 (\<lambda>key.
        case field_pairs (drop 2 args) of
          None \<Rightarrow> crash
        | Some ps \<Rightarrow> call c (HSet key db (go_map_of ps)) (\<lambda>n. reply (Integer n))))"

definition cmdHGet :: storeHandler where
  "cmdHGet c db args =
     arg args 1 (\<lambda>key.
     arg args 2 (\<lambda>field.
     call c (HGet key db field) (\<lambda>(val, found).
     if \<not> found then reply NullBulkString else reply (BulkString val))))"

definition cmdHDel :: storeHandler where
  "cmdHDel c db args =
     args_from args 2 (\<lambda>rest.
     arg args 1 (\<lambda>key.
     call c (HDel key db (map str rest)) (\<lambda>n. reply (Integer n))))"

definition cmdHExists :: storeHandler where
  "cmdHExists c db args =
     arg args 1 (\<lambda>key.
     arg args 2 (\<lambda>field.
     call c (HExists key db field) (\<lambda>ok. reply (boolInt ok))))"

text \<open>The reply lists the entries of the Go map in its iteration order.\<close>

definition cmdHGetAll :: storeHandler where
  "cmdHGetAll c db args =
     arg args 1 (\<lambda>key.
     call c (HGetAll key db) (\<lambda>m.
     call c (range_map m) (\<lambda>entries.
     reply (Array (concat (map (\<lambda>(f, v). [BulkString f, BulkString v]) entries))))))"

definition cmdHKeys :: storeHandler where
  "cmdHKeys c db args =
     arg args 1 (\<lambda>key. call c (HKeys key db) (\<lambda>ks. reply (strSlice ks)))"

definition cmdHVals :: storeHandler where
  "cmdHVals c db args =
     arg args 1 (\<lambda>key. call c (HVals key db) (\<lambda>vals. reply (strSlice vals)))"

definition cmdHLen :: storeHandler where
  "cmdHLen c db args =
     arg args 1 (\<lambda>key. call c (HLen key db) (\<lambda>n. reply (Integer n)))"

definition cmdHMGet :: storeHandler where
  "cmdHMGet c db args =
     args_from args 2 (\<lambda>rest.
     arg args 1 (\<lambda>key.
     call c (HMGet key db (map str rest)) (\<lambda>vals.
     reply (Array (map (\<lambda>v. case v of None \<Rightarrow> NullBulkString | Some s \<Rightarrow> BulkString s) vals)))))"

definition cmdHMSet :: storeHandler where
  "cmdHMSet c db args =
     (if (int (length args) - 2) mod 2 \<noteq> 0 then reply (Error (arity_text ''hmset''))
      else
        arg args 1 (\<lambda>key.
        case field_pairs (drop 2 args) of
          None \<Rightarrow> crash
        | Some ps \<Rightarrow> call c (HSet key db (go_map_of ps)) (\<lambda>_. reply (SimpleString ''OK''))))"

lemmas cmd_hash_defs = cmdHSet_def cmdHGet_def cmdHDel_def cmdHExists_def cmdHGetAll_def
  cmdHKeys_def cmdHVals_def cmdHLen_def cmdHMGet_def cmdHMSet_def

definition init_hashes :: "Cmd list" where
  "init_hashes =
     [cmd ''HSET'' 4 (- 1) (withStore cmdHSet),
      cmd ''HGET'' 3 3 (withStore cmdHGet),
      cmd ''HDEL'' 3 (- 1) (withStore cmdHDel),
      cmd ''HEXISTS'' 3 3 (withStore cmdHExists),
      cmd ''HGETALL'' 2 2 (withStore cmdHGetAll),
      cmd ''HKEYS'' 2 2 (withStore cmdHKeys),
      cmd ''HVALS'' 2 2 (withStore cmdHVals),
      cmd ''HLEN'' 2 2 (withStore cmdHLen),
      cmd ''HMGET'' 3 (- 1) (withStore cmdHMGet),
      cmd ''HMSET'' 4 (- 1) (withStore cmdHMSet)]"

section \<open>Lists\<close>

definition cmdLPush :: storeHandler where
  "cmdLPush c db args =
     args_from args 2 (\<lambda>rest.
     arg args 1 (\<lambda>key.
     call c (LPush key db (argsToStrings rest)) (\<lambda>n. reply (Integer n))))"

definition cmdRPush :: storeHandler where
  "cmdRPush c db args =
     args_from args 2 (\<lambda>rest.
     arg args 1 (\<lambda>key.
     call c (RPush key db (argsToStrings rest)) (\<lambda>n. reply (Integer n))))"

definition cmdLPop :: storeHandler where
  "cmdLPop c db args =
     arg args 1 (\<lambda>key.
     call c (LPop key db) (\<lambda>(val, found).
     if \<not> found then reply NullBulkString else reply (BulkString val)))"

definition cmdRPop :: storeHandler where
  "cmdRPop c db args =
     arg args 1 (\<lambda>key.
     call c (RPop key db) (\<lambda>(val, found).
     if \<not> found then reply NullBulkString else reply (BulkString val)))"

definition cmdLLen :: storeHandler where
  "cmdLLen c db args =
     arg args 1 (\<lambda>key. call c (LLen key db) (\<lambda>n. reply (Integer n)))"

text \<open>Both bounds are parsed before either error is looked at.\<close>

definition parse_range :: "Value list \<Rightarrow> (int \<Rightarrow> int \<Rightarrow> body) \<Rightarrow> body" where
  "parse_range args k =
     arg args 2 (\<lambda>s.
     arg args 3 (\<lambda>t.
     case (ParseInt s, ParseInt t) of
       (Some start, Some stop) \<Rightarrow> k start stop
     | _ \<Rightarrow> reply (Error NotIntText)))"

definition cmdLRange :: storeHandler where
  "cmdLRange c db args =
     parse_range args (\<lambda>start stop.
     arg args 1 (\<lambda>key.
     call c (LRange key db start stop) (\<lambda>vals. reply (strSlice vals))))"

definition cmdLIndex :: storeHandler where
  "cmdLIndex c db args =
     arg args 2 (\<lambda>s. parse_int s (\<lambda>idx.
     arg args 1 (\<lambda>key.
     call c (LIndex key db idx) (\<lambda>(val, found).
     if \<not> found then reply NullBulkString else reply (BulkString val)))))"

definition cmdLSet :: storeHandler where
  "cmdLSet c db args =
     arg args 2 (\<lambda>s. parse_int s (\<lambda>idx.
     arg args 1 (\<lambda>key.
     arg args 3 (\<lambda>val.
     call c (LSet key db idx val) (\<lambda>_. reply (SimpleString ''OK''))))))"

definition cmdLInsert :: storeHandler where
  "cmdLInsert c db args =
     arg args 2 (\<lambda>pos.
     let before = (ToUpper (upperU c) pos = ''BEFORE'') in
     if \<not> before \<and> ToUpper (upperU c) pos \<noteq> ''AFTER'' then reply (Error SyntaxText)
     else
       arg args 1 (\<lambda>key.
       arg args 3 (\<lambda>pivot.
       arg args 4 (\<lambda>val.
       call c (LInsert key db before pivot val) (\<lambda>n. reply (Integer n))))))"

definition cmdLRem :: storeHandler where
  "cmdLRem c db args =
     arg args 2 (\<lambda>s. parse_int s (\<lambda>cnt.
     arg args 1 (\<lambda>key.
     arg args 3 (\<lambda>val.
     call c (LRem key db cnt val) (\<lambda>n. reply (Integer n))))))"

lemmas cmd_list_defs = cmdLPush_def cmdRPush_def cmdLPop_def cmdRPop_def cmdLLen_def cmdLRange_def
  cmdLIndex_def cmdLSet_def cmdLInsert_def cmdLRem_def

definition init_lists :: "Cmd list" where
  "init_lists =
     [cmd ''LPUSH'' 3 (- 1) (withStore cmdLPush),
      cmd ''RPUSH'' 3 (- 1) (withStore cmdRPush),
      cmd ''LPOP'' 2 2 (withStore cmdLPop),
      cmd ''RPOP'' 2 2 (withStore cmdRPop),
      cmd ''LLEN'' 2 2 (withStore cmdLLen),
      cmd ''LRANGE'' 4 4 (withStore cmdLRange),
      cmd ''LINDEX'' 3 3 (withStore cmdLIndex),
      cmd ''LSET'' 4 4 (withStore cmdLSet),
      cmd ''LINSERT'' 5 5 (withStore cmdLInsert),
      cmd ''LREM'' 4 4 (withStore cmdLRem)]"

section \<open>Sets\<close>

definition cmdSAdd :: storeHandler where
  "cmdSAdd c db args =
     arg args 1 (\<lambda>key.
     args_from args 2 (\<lambda>rest.
     call c (SAdd key db (argsToStrings rest)) (\<lambda>n. reply (Integer n))))"

definition cmdSRem :: storeHandler where
  "cmdSRem c db args =
     arg args 1 (\<lambda>key.
     args_from args 2 (\<lambda>rest.
     call c (SRem key db (argsToStrings rest)) (\<lambda>n. reply (Integer n))))"

definition cmdSMembers :: storeHandler where
  "cmdSMembers c db args =
     arg args 1 (\<lambda>key. call c (SMembers key db) (\<lambda>members. reply (strSlice members)))"

definition cmdSIsMember :: storeHandler where
  "cmdSIsMember c db args =
     arg args 1 (\<lambda>key.
     arg args 2 (\<lambda>member.
     call c (SIsMember key db member) (\<lambda>ok. reply (boolInt ok))))"

definition cmdSCard :: storeHandler where
  "cmdSCard c db args =
     arg args 1 (\<lambda>key. call c (SCard key db) (\<lambda>n. reply (Integer n)))"

definition cmdSUnion :: storeHandler where
  "cmdSUnion c db args =
     args_from args 1 (\<lambda>rest.
     call c (SUnion (argsToStrings rest) db) (\<lambda>members. reply (strSlice members)))"

definition cmdSInter :: storeHandler where
  "cmdSInter c db args =
     args_from args 1 (\<lambda>rest.
     call c (SInter (argsToStrings rest) db) (\<lambda>members. reply (strSlice members)))"

definition cmdSDiff :: storeHandler where
  "cmdSDiff c db args =
     args_from args 1 (\<lambda>rest.
     call c (SDiff (argsToStrings rest) db) (\<lambda>members. reply (strSlice members)))"

lemmas cmd_set_defs = cmdSAdd_def cmdSRem_def cmdSMembers_def cmdSIsMember_def cmdSCard_def
  cmdSUnion_def cmdSInter_def cmdSDiff_def

definition init_sets :: "Cmd list" where
  "init_sets =
     [cmd ''SADD'' 3 (- 1) (withStore cmdSAdd),
      cmd ''SREM'' 3 (- 1) (withStore cmdSRem),
      cmd ''SMEMBERS'' 2 2 (withStore cmdSMembers),
      cmd ''SISMEMBER'' 3 3 (withStore cmdSIsMember),
      cmd ''SCARD'' 2 2 (withStore cmdSCard),
      cmd ''SUNION'' 2 (- 1) (withStore cmdSUnion),
      cmd ''SINTER'' 2 (- 1) (withStore cmdSInter),
      cmd ''SDIFF'' 2 (- 1) (withStore cmdSDiff)]"

section \<open>Sorted sets\<close>

text \<open>The option loop of \<^verbatim>\<open>ZADD\<close>: the arguments up to the first one that is no option.\<close>

fun zadd_options :: "ctx \<Rightarrow> Value list \<Rightarrow> ZAddOptions \<Rightarrow> ZAddOptions \<times> Value list" where
  "zadd_options c [] opts = (opts, [])"
| "zadd_options c (a # rest) opts =
     (let u = ToUpper (upperU c) (str a) in
      if u = ''NX'' then zadd_options c rest (opts\<lparr>zNX := True\<rparr>)
      else if u = ''XX'' then zadd_options c rest (opts\<lparr>zXX := True\<rparr>)
      else (opts, a # rest))"

text \<open>The loop over score and member: \<open>Inl True\<close> is an index out of range, \<open>Inl False\<close> a score that
  does not parse.\<close>

fun score_pairs :: "Value list \<Rightarrow> bool + (string \<times> float64) list" where
  "score_pairs [] = Inr []"
| "score_pairs (a # rest) =
     (case ParseFloat (str a) of
        Inl _ \<Rightarrow> Inl False
      | Inr score \<Rightarrow>
          (case rest of
             [] \<Rightarrow> Inl True
           | b # rest' \<Rightarrow>
               (case score_pairs rest' of Inl e \<Rightarrow> Inl e | Inr ps \<Rightarrow> Inr ((str b, score) # ps))))"

definition NotFloatText :: string where
  "NotFloatText = ''ERR value is not a valid float''"

definition cmdZAdd :: storeHandler where
  "cmdZAdd c db args =
     (case zadd_options c (drop 2 args) \<lparr>zNX = False, zXX = False\<rparr> of
        (opts, rest) \<Rightarrow>
          if length rest mod 2 \<noteq> 0 then reply (Error SyntaxText)
          else
            (case score_pairs rest of
               Inl True \<Rightarrow> crash
             | Inl False \<Rightarrow> reply (Error NotFloatText)
             | Inr ps \<Rightarrow>
                 arg args 1 (\<lambda>key.
                 call c (ZAdd key db (go_map_of ps) opts) (\<lambda>n. reply (Integer n)))))"

definition cmdZRem :: storeHandler where
  "cmdZRem c db args =
     arg args 1 (\<lambda>key.
     args_from args 2 (\<lambda>rest.
     call c (ZRem key db (argsToStrings rest)) (\<lambda>n. reply (Integer n))))"

definition cmdZScore :: storeHandler where
  "cmdZScore c db args =
     arg args 1 (\<lambda>key.
     arg args 2 (\<lambda>member.
     call c (ZScore key db member) (\<lambda>(score, found).
     if \<not> found then reply NullBulkString else reply (BulkString (formatFloat score)))))"

definition cmdZRank :: storeHandler where
  "cmdZRank c db args =
     arg args 1 (\<lambda>key.
     arg args 2 (\<lambda>member.
     call c (ZRank key db member) (\<lambda>(rank, found).
     if \<not> found then reply NullBulkString else reply (Integer rank))))"

definition cmdZRange :: storeHandler where
  "cmdZRange c db args =
     parse_range args (\<lambda>start stop.
     arg args 1 (\<lambda>key.
     call c (ZRange key db start stop) (\<lambda>members. reply (strSlice members))))"

definition cmdZRangeByScore :: storeHandler where
  "cmdZRangeByScore c db args =
     arg args 1 (\<lambda>key.
     arg args 2 (\<lambda>lo.
     arg args 3 (\<lambda>hi.
     call c (ZRangeByScore (lowerU c) key db lo hi) (\<lambda>members. reply (strSlice members)))))"

definition cmdZCard :: storeHandler where
  "cmdZCard c db args =
     arg args 1 (\<lambda>key. call c (ZCard key db) (\<lambda>n. reply (Integer n)))"

definition cmdZCount :: storeHandler where
  "cmdZCount c db args =
     arg args 1 (\<lambda>key.
     arg args 2 (\<lambda>lo.
     arg args 3 (\<lambda>hi.
     call c (ZCount (lowerU c) key db lo hi) (\<lambda>n. reply (Integer n)))))"

definition cmdZIncrBy :: storeHandler where
  "cmdZIncrBy c db args =
     arg args 2 (\<lambda>s.
     case ParseFloat s of
       Inl _ \<Rightarrow> reply (Error NotFloatText)
     | Inr delta \<Rightarrow>
         arg args 1 (\<lambda>key.
         arg args 3 (\<lambda>member.
         call c (ZIncrBy key db delta member) (\<lambda>newScore.
         reply (BulkString (formatFloat newScore))))))"

lemmas cmd_zset_defs = cmdZAdd_def cmdZRem_def cmdZScore_def cmdZRank_def cmdZRange_def
  cmdZRangeByScore_def cmdZCard_def cmdZCount_def cmdZIncrBy_def

definition init_zsets :: "Cmd list" where
  "init_zsets =
     [cmd ''ZADD'' 4 (- 1) (withStore cmdZAdd),
      cmd ''ZREM'' 3 (- 1) (withStore cmdZRem),
      cmd ''ZSCORE'' 3 3 (withStore cmdZScore),
      cmd ''ZRANK'' 3 3 (withStore cmdZRank),
      cmd ''ZRANGE'' 4 4 (withStore cmdZRange),
      cmd ''ZRANGEBYSCORE'' 4 (- 1) (withStore cmdZRangeByScore),
      cmd ''ZCARD'' 2 2 (withStore cmdZCard),
      cmd ''ZCOUNT'' 4 4 (withStore cmdZCount),
      cmd ''ZINCRBY'' 4 4 (withStore cmdZIncrBy)]"

end
