(* ===== verification/Commands.thy ===== *)
theory Commands
  imports Cmd_Data
begin

text \<open>
  The rest of the command layer: the connection commands (\<^verbatim>\<open>server.go\<close>), \<^verbatim>\<open>INFO\<close> (\<^verbatim>\<open>info.go\<close>),
  transactions (\<^verbatim>\<open>multi.go\<close>), and the registry with all registrations (\<^verbatim>\<open>registry.go\<close>).
\<close>

section \<open>Connection commands\<close>

definition cmdPing :: "ctx \<Rightarrow> Value list \<Rightarrow> body" where
  "cmdPing c args =
     (if length args = 2 then arg args 1 (\<lambda>s. reply (BulkString s)) else reply (SimpleString ''PONG''))"

definition cmdEcho :: "ctx \<Rightarrow> Value list \<Rightarrow> body" where
  "cmdEcho c args = arg args 1 (\<lambda>s. reply (BulkString s))"

definition cmdQuit :: "ctx \<Rightarrow> Value list \<Rightarrow> body" where
  "cmdQuit c args = reply (SimpleString ''OK'')"

text \<open>
  \<^verbatim>\<open>COMMAND\<close> reads the registry that it is itself registered in. It only uses the name and the arities
  of the registered commands, the \<open>signatures\<close> below.
\<close>

type_synonym signature = "string \<times> nat \<times> int"

definition signature_of :: "Cmd \<Rightarrow> signature" where
  "signature_of cm = (Name cm, MinArgs cm, MaxArgs cm)"

definition command_entry :: "ctx \<Rightarrow> signature \<Rightarrow> Value" where
  "command_entry c s =
     (case s of
        (name, lo, hi) \<Rightarrow>
          Array [BulkString (ToLower (lowerU c) name),
                 Integer (if hi = - 1 then - int lo else int lo),
                 Array [], Integer 0, Integer 0, Integer 0])"

definition cmdCommand :: "(string \<times> signature) list \<Rightarrow> ctx \<Rightarrow> Value list \<Rightarrow> body" where
  "cmdCommand reg c args =
     (if length args \<ge> 2 \<and> ToUpper (upperU c) (str (args ! 1)) = ''COUNT''
      then reply (Integer (int (length reg)))
      else
        call c (All reg) (\<lambda>cmds.
        reply (Array (map (command_entry c) (sort_key fst cmds)))))"

definition init_server :: "(string \<times> signature) list \<Rightarrow> Cmd list" where
  "init_server reg =
     [cmd ''PING'' 1 2 (plain cmdPing),
      cmd ''ECHO'' 2 2 (plain cmdEcho),
      cmd ''QUIT'' 1 1 (plain cmdQuit),
      cmd ''COMMAND'' 1 (- 1) (plain (cmdCommand reg))]"

section \<open>INFO\<close>

definition line :: "string \<Rightarrow> string" where
  "line s = s @ crlf"

definition keyspace_lines :: "string act" where
  "keyspace_lines =
     each (\<lambda>db sb.
       seq (attempt (DBSize (int db))) (\<lambda>r.
       ret (case r of
              Inr n \<Rightarrow>
                if n > 0
                then sb @ line (''db'' @ FormatInt (int db) @ '':keys='' @ FormatInt n @ '',expires=0'')
                else sb
            | Inl _ \<Rightarrow> sb))) [0..<16] []"

text \<open>\<open>wants\<close> is the condition \<^verbatim>\<open>section == "" || section == name\<close>.\<close>

definition wants :: "string \<Rightarrow> string \<Rightarrow> bool" where
  "wants sec name \<longleftrightarrow> sec = '''' \<or> sec = name"

definition info_server :: "ctx \<Rightarrow> string act" where
  "info_server c =
     seq nowNs (\<lambda>now.
     ret (line ''# Server'' @ line ''redis_version:7.0.0-sql-resp'' @
          line (''uptime_in_seconds:'' @ FormatInt (seconds_int (now - startTime c))) @
          line ''tcp_port:6379'' @ line ''''))"

definition cmdInfo :: storeHandler where
  "cmdInfo c db args =
     (let sec = (if length args \<ge> 2 then ToLower (lowerU c) (str (args ! 1)) else '''') in
      call c (if wants sec ''server'' then info_server c else ret []) (\<lambda>s1.
      let s2 = (if wants sec ''clients''
                then line ''# Clients'' @ line ''connected_clients:1'' @ line '''' else []);
          s3 = (if wants sec ''memory''
                then line ''# Memory'' @ line ''used_memory:0'' @ line ''used_memory_human:0B'' @ line ''''
                else []);
          s4 = (if wants sec ''replication''
                then line ''# Replication'' @ line ''role:master'' @ line ''connected_slaves:0'' @ line ''''
                else []) in
      call c (if wants sec ''keyspace'' \<and> hasStore c
              then seq keyspace_lines (\<lambda>ls. ret (line ''# Keyspace'' @ ls @ line ''''))
              else ret []) (\<lambda>s5.
      reply (BulkString (s1 @ s2 @ s3 @ s4 @ s5)))))"

definition init_info :: "Cmd list" where
  "init_info = [cmd ''INFO'' 1 2 (withOptionalStore cmdInfo)]"

section \<open>Transactions\<close>

definition cmdMulti :: Handler where
  "cmdMulti c args cc w =
     (if InMulti cc then (Reply (Error ''ERR MULTI calls can not be nested''), cc, w)
      else (Reply (SimpleString ''OK''), cc\<lparr>InMulti := True, QueuedCmds := []\<rparr>, w))"

definition cmdDiscard :: Handler where
  "cmdDiscard c args cc w =
     (if \<not> InMulti cc then (Reply (Error ''ERR DISCARD without MULTI''), cc, w)
      else (Reply (SimpleString ''OK''), cc\<lparr>InMulti := False, QueuedCmds := []\<rparr>, w))"

text \<open>The loop of \<^verbatim>\<open>EXEC\<close>; a panic of a command ends it.\<close>

fun exec_loop :: "Handler \<Rightarrow> ctx \<Rightarrow> Value list list \<Rightarrow> Value list
    \<Rightarrow> ClientConn \<Rightarrow> world \<Rightarrow> reply \<times> ClientConn \<times> world" where
  "exec_loop disp c [] results cc w = (Reply (Array results), cc, w)"
| "exec_loop disp c (args # queued) results cc w =
     (case disp c args cc w of
        (Reply v, cc', w') \<Rightarrow> exec_loop disp c queued (results @ [v]) cc' w'
      | (r, cc', w') \<Rightarrow> (r, cc', w'))"

definition cmdExec :: "Handler \<Rightarrow> Handler" where
  "cmdExec disp c args cc w =
     (if \<not> InMulti cc then (Reply (Error ''ERR EXEC without MULTI''), cc, w)
      else exec_loop disp c (QueuedCmds cc) [] (cc\<lparr>InMulti := False, QueuedCmds := []\<rparr>) w)"

definition init_multi :: "Handler \<Rightarrow> Cmd list" where
  "init_multi disp =
     [cmd ''MULTI'' 1 1 cmdMulti,
      cmd ''EXEC'' 1 1 (cmdExec disp),
      cmd ''DISCARD'' 1 1 cmdDiscard]"

section \<open>The registry\<close>

text \<open>All registrations, in the order of the files of the package; \<open>disp\<close> is the dispatcher that
  \<^verbatim>\<open>EXEC\<close> calls.\<close>

definition commands :: "Handler \<Rightarrow> (string \<times> signature) list \<Rightarrow> Cmd list" where
  "commands disp reg =
     init_hashes @ init_info @ init_lists @ init_multi disp @ init_server reg @ init_sets @
     init_strings @ init_zsets"

definition signatures :: "ctx \<Rightarrow> (string \<times> signature) list" where
  "signatures c =
     map (apsnd signature_of)
       (fold (Register c) (commands (\<lambda>c args cc w. (Crash, cc, w)) []) [])"

definition registry :: "ctx \<Rightarrow> Handler \<Rightarrow> registry" where
  "registry c disp = fold (Register c) (commands disp (signatures c)) []"

text \<open>\<open>Dispatch n\<close> is \<^verbatim>\<open>Dispatch\<close> where calls through \<^verbatim>\<open>EXEC\<close> may nest less than \<open>n\<close> deep.\<close>

primrec Dispatch :: "nat \<Rightarrow> Handler" where
  "Dispatch 0 = (\<lambda>c args cc w. (Deep, cc, w))"
| "Dispatch (Suc n) = (\<lambda>c. DispatchIn (registry c (Dispatch n)) c)"

declare Dispatch.simps [simp del]

definition upperStr :: "string \<Rightarrow> string" where
  "upperStr s = map upper_char s"

definition lowerStr :: "string \<Rightarrow> string" where
  "lowerStr s = map lower_char s"

definition QueueOrDispatch :: "nat \<Rightarrow> Handler" where
  "QueueOrDispatch n c args cc w =
     (if \<not> InMulti cc then Dispatch n c args cc w
      else
        let name = (if length args > 0 then upperStr (str (args ! 0)) else '''') in
        if name = ''EXEC'' \<or> name = ''DISCARD'' \<or> name = ''QUIT'' then Dispatch n c args cc w
        else if name = ''MULTI''
          then (Reply (Error ''ERR MULTI calls can not be nested''), cc, w)
        else
          case map_of (registry c (Dispatch n)) name of
            None \<Rightarrow> (Reply (Error (unknown_text (lowerStr name))), cc, w)
          | Some cm \<Rightarrow>
              if length args < MinArgs cm
                then (Reply (Error (arity_text (lowerStr name))), cc, w)
              else (Reply (SimpleString ''QUEUED''), cc\<lparr>QueuedCmds := QueuedCmds cc @ [args]\<rparr>, w))"

end
