(* ===== verification/Server.thy ===== *)
theory Server
  imports Commands Pubsub
begin

text \<open>
  The connection handler, \<^verbatim>\<open>src/internal/server/server.go\<close>. A connection is the bytes its client has
  sent and the handler has not yet read (all that the client will ever send: reading past them is the
  end of the stream), the state the command handlers see, and the values written to it. All
  connections share the broker and the store. \<open>serve\<close> handles one decoded value, \<open>iterate\<close> is one
  turn of the loop in \<^verbatim>\<open>handleConn\<close>; a panic ends the process, as no goroutine recovers from it.

  The subscriber object of a connection is identified by the connection's number. A write to a
  connection that is closed has no effect (its error is ignored in the code).
\<close>

text \<open>\<^verbatim>\<open>Config\<close> of the server; \<open>TLSConfig\<close> and \<open>Store\<close> say whether the pointer is set.\<close>

record ServerConfig =
  Addr :: string
  Password :: string
  TLSConfig :: bool
  Store :: bool

record conn =
  cc :: ClientConn
  input :: string
  sent :: "Value list"
  subscribedChannels :: "string list"
  isOpen :: bool

record server =
  conns :: "nat \<Rightarrow> conn option"
  broker :: "nat Broker"
  world_of :: world
  crashed :: bool

definition new_server :: "world \<Rightarrow> server" where
  "new_server w = \<lparr>conns = Map.empty, broker = New, world_of = w, crashed = False\<rparr>"

section \<open>Writing\<close>

definition on_conn :: "nat \<Rightarrow> (conn \<Rightarrow> conn) \<Rightarrow> server \<Rightarrow> server" where
  "on_conn i f st = st\<lparr>conns := (conns st)(i := map_option f (conns st i))\<rparr>"

definition send :: "Value \<Rightarrow> conn \<Rightarrow> conn" where
  "send v k = (if isOpen k then k\<lparr>sent := sent k @ [v]\<rparr> else k)"

definition Write :: "nat \<Rightarrow> Value \<Rightarrow> server \<Rightarrow> server" where
  "Write i v = on_conn i (send v)"

definition Deliver :: "nat \<times> string \<times> string \<Rightarrow> server \<Rightarrow> server" where
  "Deliver m = (case m of (i, channel, message) \<Rightarrow>
     Write i (Array [BulkString ''message'', BulkString channel, BulkString message]))"

section \<open>Requests\<close>

text \<open>The elements of a value of another type than array are nil; the value itself is the request.\<close>

definition toArgs :: "Value \<Rightarrow> Value list" where
  "toArgs v = (if vtyp v = CHR ''*'' then elems v else [v])"

definition handleAuth :: "ServerConfig \<Rightarrow> Value list \<Rightarrow> ClientConn \<Rightarrow> Value \<times> ClientConn" where
  "handleAuth cfg args k =
     (if length args < 2 then (Error (arity_text ''auth''), k)
      else if Password cfg = '''' then (SimpleString ''OK'', k\<lparr>Authenticated := True\<rparr>)
      else if str (args ! 1) = Password cfg then (SimpleString ''OK'', k\<lparr>Authenticated := True\<rparr>)
      else (Error ''WRONGPASS invalid username-password pair or user is disabled.'', k))"

text \<open>The iteration order of the broker's map, when all channels are left.\<close>

definition map_order :: "server \<Rightarrow> nat list" where
  "map_order st = orders (env (world_of st)) (tick (world_of st))"

definition subscribe_one :: "nat \<Rightarrow> Value \<Rightarrow> server \<Rightarrow> server" where
  "subscribe_one i a st =
     (case Subscribe (str a) i (broker st) of
        (n, b) \<Rightarrow>
          Write i (Array [BulkString ''subscribe'', BulkString (str a), Integer (int n)])
            (on_conn i (\<lambda>k. k\<lparr>subscribedChannels := List.insert (str a) (subscribedChannels k)\<rparr>)
              (st\<lparr>broker := b\<rparr>)))"

definition unsubscribe_one :: "nat \<Rightarrow> Value \<Rightarrow> server \<Rightarrow> server" where
  "unsubscribe_one i a st =
     (case Unsubscribe (map_order st) (str a) i (broker st) of
        (n, b) \<Rightarrow>
          Write i (Array [BulkString ''unsubscribe'', BulkString (str a), Integer (int n)])
            (on_conn i (\<lambda>k. k\<lparr>subscribedChannels := removeAll (str a) (subscribedChannels k)\<rparr>)
              (st\<lparr>broker := b\<rparr>)))"

definition leave_all :: "nat \<Rightarrow> server \<Rightarrow> server" where
  "leave_all i st = st\<lparr>broker := snd (Unsubscribe (map_order st) '''' i (broker st))\<rparr>"

definition unsubscribe_all :: "nat \<Rightarrow> server \<Rightarrow> server" where
  "unsubscribe_all i st =
     Write i (Array [BulkString ''unsubscribe'', NullBulkString, Integer 0])
       (on_conn i (\<lambda>k. k\<lparr>subscribedChannels := []\<rparr>) (leave_all i st))"

definition publish :: "nat \<Rightarrow> Value list \<Rightarrow> server \<Rightarrow> server" where
  "publish i args st =
     (if length args < 3 then Write i (Error (arity_text ''publish'')) st
      else
        (case Publish (str (args ! 1)) (str (args ! 2)) (broker st) of
           (n, ms) \<Rightarrow> Write i (Integer (int n)) (fold Deliver ms st)))"

text \<open>Returning from \<^verbatim>\<open>handleConn\<close>: the subscriptions are left and the connection is closed.\<close>

definition disconnect :: "nat \<Rightarrow> server \<Rightarrow> server" where
  "disconnect i st = on_conn i (\<lambda>k. k\<lparr>isOpen := False\<rparr>) (leave_all i st)"

definition with_store :: "ServerConfig \<Rightarrow> ctx \<Rightarrow> ctx" where
  "with_store cfg c = (if Store cfg then WithStore c else c\<lparr>hasStore := False\<rparr>)"

definition run_command :: "ServerConfig \<Rightarrow> ctx \<Rightarrow> nat \<Rightarrow> Value list \<Rightarrow> conn \<Rightarrow> server \<Rightarrow> server" where
  "run_command cfg c i args k st =
     (case QueueOrDispatch 2 (with_store cfg c) args (cc k) (world_of st) of
        (Reply r, k', w') \<Rightarrow>
          let st1 = Write i r (on_conn i (\<lambda>k. k\<lparr>cc := k'\<rparr>) (st\<lparr>world_of := w'\<rparr>)) in
          if ToUpper (upperU c) (str (args ! 0)) = ''QUIT'' then disconnect i st1 else st1
      | (_, k', w') \<Rightarrow> st\<lparr>world_of := w', crashed := True\<rparr>)"

definition serve :: "ServerConfig \<Rightarrow> ctx \<Rightarrow> nat \<Rightarrow> Value \<Rightarrow> conn \<Rightarrow> server \<Rightarrow> server" where
  "serve cfg c i v k st =
     (let args = toArgs v in
      if length args = 0 then st
      else
        let name = ToUpper (upperU c) (str (args ! 0)) in
        if \<not> Authenticated (cc k) \<and> name \<noteq> ''AUTH'' \<and> name \<noteq> ''QUIT''
          then Write i (Error ''NOAUTH Authentication required.'') st
        else if name = ''AUTH'' then
          (case handleAuth cfg args (cc k) of
             (r, k') \<Rightarrow> Write i r (on_conn i (\<lambda>k. k\<lparr>cc := k'\<rparr>) st))
        else if name = ''SUBSCRIBE'' then fold (subscribe_one i) (drop 1 args) st
        else if name = ''UNSUBSCRIBE'' then
          (if length args = 1 then unsubscribe_all i st
           else fold (unsubscribe_one i) (drop 1 args) st)
        else if name = ''PUBLISH'' then publish i args st
        else run_command cfg c i args k st)"

section \<open>The loop of a connection\<close>

definition iterate :: "ServerConfig \<Rightarrow> ctx \<Rightarrow> nat \<Rightarrow> server \<Rightarrow> server" where
  "iterate cfg c i st =
     (case conns st i of
        None \<Rightarrow> st
      | Some k \<Rightarrow>
          if \<not> isOpen k \<or> crashed st then st
          else case ReadValue (input k) of
              Err e \<Rightarrow> disconnect i (on_conn i (\<lambda>k. k\<lparr>input := []\<rparr>) st)
            | Panic \<Rightarrow> st\<lparr>crashed := True\<rparr>
            | Ok v rest \<Rightarrow> serve cfg c i v k (on_conn i (\<lambda>k. k\<lparr>input := rest\<rparr>) st))"

definition new_conn :: "ServerConfig \<Rightarrow> string \<Rightarrow> conn" where
  "new_conn cfg inp =
     \<lparr>cc = NewClientConn (Password cfg = ''''), input = inp, sent = [], subscribedChannels = [],
      isOpen = True\<rparr>"

text \<open>\<^verbatim>\<open>serve\<close> accepts a connection and starts its handler.\<close>

definition accept :: "ServerConfig \<Rightarrow> nat \<Rightarrow> string \<Rightarrow> server \<Rightarrow> server" where
  "accept cfg i inp st = st\<lparr>conns := (conns st)(i \<mapsto> new_conn cfg inp)\<rparr>"

text \<open>One tick of the background goroutine of \<^verbatim>\<open>main\<close>; its error is only logged.\<close>

definition sweep :: "server \<Rightarrow> server" where
  "sweep st = st\<lparr>world_of := snd (SweepExpired (world_of st))\<rparr>"

text \<open>The goroutines of the process: new connections, turns of the loops of the connections in any
  order, the background sweep of \<^verbatim>\<open>main\<close>, and whatever the environment does to the clock, to failures
  and to orders. Interleaving is at the granularity of requests.\<close>

inductive server_step :: "ServerConfig \<Rightarrow> ctx \<Rightarrow> server \<Rightarrow> server \<Rightarrow> bool" for cfg c where
  step_accept: "conns st i = None \<Longrightarrow> \<not> crashed st \<Longrightarrow> server_step cfg c st (accept cfg i inp st)"
| step_conn: "server_step cfg c st (iterate cfg c i st)"
| step_sweep: "\<not> crashed st \<Longrightarrow> server_step cfg c st (sweep st)"
| step_env: "tabs w = tabs (world_of st) \<Longrightarrow> server_step cfg c st (st\<lparr>world_of := w\<rparr>)"

inductive server_reachable :: "ServerConfig \<Rightarrow> ctx \<Rightarrow> server \<Rightarrow> bool" for cfg c where
  start: "tabs w = empty_tables \<Longrightarrow> server_reachable cfg c (new_server w)"
| move: "server_reachable cfg c st \<Longrightarrow> server_step cfg c st st' \<Longrightarrow> server_reachable cfg c st'"

end
