(* ===== verification/Command_Laws.thy ===== *)
theory Command_Laws
  imports Commands Store_Safety
begin

text \<open>
  What the handlers do to the store: every handler changes the tables only through operations of the
  store, on keys that its arguments name in the selected database (\<^verbatim>\<open>FLUSHDB\<close> and \<^verbatim>\<open>FLUSHALL\<close> apart).
  The rules are proved once for the combinators that handlers are built from.
\<close>

section \<open>Runs of store operations\<close>

text \<open>\<open>store_run K\<close>: a sequence of calls of the store about keys of \<open>K\<close>, and interactions with the
  environment that leave the tables alone.\<close>

inductive store_run :: "key_id set \<Rightarrow> world \<Rightarrow> world \<Rightarrow> bool" where
  run_refl: "store_run K w w"
| run_call: "store_run K w w' \<Longrightarrow> store_call K' w' w'' \<Longrightarrow> K' \<subseteq> K \<Longrightarrow> store_run K w w''"
| run_tick: "store_run K w w' \<Longrightarrow> tabs w'' = tabs w' \<Longrightarrow> env w'' = env w' \<Longrightarrow> store_run K w w''"

lemma run_trans: "store_run K w' w'' \<Longrightarrow> store_run K w w' \<Longrightarrow> store_run K w w''"
  by (induction rule: store_run.induct) (auto intro: run_call run_tick)

lemma run_mono: "store_run K w w' \<Longrightarrow> K \<subseteq> K' \<Longrightarrow> store_run K' w w'"
  by (induction rule: store_run.induct) (auto intro: run_refl run_call run_tick)

lemma run_schema: "store_run K w w' \<Longrightarrow> schema_step (tabs w) (tabs w')"
proof (induction rule: store_run.induct)
  case (run_call K w w' K' w'')
  then show ?case using call_schema [of K' w' w''] by (simp add: schema_step_def)
qed (simp_all add: schema_step_def)

lemma run_frame: "store_run K w w' \<Longrightarrow> frame K (tabs w) (tabs w')"
proof (induction rule: store_run.induct)
  case (run_call K w w' K' w'')
  then have "frame K (tabs w') (tabs w'')"
    using call_frame [of K' w' w''] unfolding frame_def by blast
  with run_call.IH show ?case by (auto simp: frame_def)
qed (simp_all add: frame_def)

lemma run_reachable: "store_run K w w' \<Longrightarrow> reachable w \<Longrightarrow> reachable w'"
  by (induction rule: store_run.induct) (auto intro: reachable.call reachable.other)

section \<open>Computations that only run store operations\<close>

definition runs :: "key_id set \<Rightarrow> (world \<Rightarrow> 'r \<times> world) \<Rightarrow> bool" where
  "runs K f \<longleftrightarrow> (\<forall>w. store_run K w (snd (f w)))"

lemma runsD: "runs K f \<Longrightarrow> store_run K w (snd (f w))"
  by (simp add: runs_def)

lemma runs_op: "(\<And>w. store_call K' w (snd (m w))) \<Longrightarrow> K' \<subseteq> K \<Longrightarrow> runs K m"
  unfolding runs_def using run_call [OF run_refl] by blast

lemma runs_mono: "runs K f \<Longrightarrow> K \<subseteq> K' \<Longrightarrow> runs K' f"
  unfolding runs_def using run_mono by blast

lemma runs_tick:
  "(\<And>w. tabs (snd (f w)) = tabs w \<and> env (snd (f w)) = env w) \<Longrightarrow> runs K f"
  unfolding runs_def using run_tick [OF run_refl] by blast

lemma runs_reply [run_rules]: "runs K (reply v)" and runs_crash [run_rules]: "runs K crash"
  and runs_ret [run_rules]: "runs K (ret a)" and runs_nowNs [run_rules]: "runs K nowNs"
  and runs_nowMs [run_rules]: "runs K nowMs"
  and runs_range_map [run_rules]: "runs K (range_map xs)"
  by (rule runs_tick; simp add: reply_def crash_def act_defs bump_def nowMs_def)+

lemma runs_bind:
  assumes "runs K m" "\<And>a. runs K (k a)"
  shows "store_run K w (snd (case m w of (r, w') \<Rightarrow> k r w'))"
  using run_trans [OF runsD [OF assms(2)] runsD [OF assms(1)], of w "fst (m w)"]
  by (simp add: case_prod_beta)

lemma runs_seq [run_rules]:
  assumes "runs K m" "\<And>a. runs K (k a)" shows "runs K (seq m k)"
  unfolding runs_def
proof
  fix w
  have "store_run K w (snd (case m w of (r, w') \<Rightarrow> (case r of Inl e \<Rightarrow> fail e | Inr a \<Rightarrow> k a) w'))"
    by (rule runs_bind [OF assms(1)])
      (auto split: sum.split intro: assms(2) runs_tick simp: fail_def)
  then show "store_run K w (snd (seq m k w))"
    by (simp add: seq_def fail_def split: prod.splits sum.splits)
qed

lemma runs_attempt [run_rules]: "runs K m \<Longrightarrow> runs K (attempt m)"
  unfolding runs_def attempt_def by (auto split: prod.split) (metis snd_conv)

lemma runs_each [run_rules]: "(\<And>x a. x \<in> set xs \<Longrightarrow> runs K (f x a)) \<Longrightarrow> runs K (each f xs a)"
  by (induction xs arbitrary: a) (simp_all add: runs_ret runs_seq)

lemma runs_outcome [run_rules]:
  assumes "runs K m" "\<And>r. runs K (k r)" shows "runs K (outcome m k)"
  using runs_bind [OF assms] by (simp add: runs_def outcome_def)

lemma runs_call [run_rules]:
  assumes "runs K m" "\<And>a. runs K (k a)" shows "runs K (call c m k)"
proof -
  have "call c m k = outcome m (\<lambda>r. case r of Inl e \<Rightarrow> reply (storeErr c e) | Inr a \<Rightarrow> k a)"
    by (auto simp: fun_eq_iff call_def outcome_def reply_def split: prod.splits sum.splits)
  then show ?thesis
    using assms by (auto intro!: runs_outcome runs_reply split: sum.split)
qed

lemma runs_parse_int [run_rules]: "(\<And>n. runs K (k n)) \<Longrightarrow> runs K (parse_int s k)"
  by (auto simp: parse_int_def runs_reply split: option.split)

text \<open>The keys that the arguments after the command's name can name.\<close>

definition named_keys :: "int \<Rightarrow> Value list \<Rightarrow> key_id set" where
  "named_keys db args = (\<lambda>a. (str a, db)) ` set (drop 1 args)"

lemma named_keysI: "a \<in> set (drop 1 args) \<Longrightarrow> (str a, db) \<in> named_keys db args"
  by (simp add: named_keys_def)

lemma runs_arg [run_rules]:
  assumes "\<And>s. (s, db) \<in> named_keys db args \<Longrightarrow> runs K (k s)" "0 < i"
  shows "runs K (arg args i k)"
proof (cases "i < length args")
  case True
  then have "args ! i \<in> set (drop 1 args)"
    using assms(2) by (auto simp: in_set_conv_nth intro!: exI [of _ "i - 1"])
  then show ?thesis using True assms(1) named_keysI by (simp add: arg_def)
qed (simp add: arg_def runs_crash)

lemma runs_args_from [run_rules]:
  assumes "\<And>rest. (\<lambda>a. (str a, db)) ` set rest \<subseteq> named_keys db args \<Longrightarrow> runs K (k rest)" "0 < i"
  shows "runs K (args_from args i k)"
proof (cases "i \<le> length args")
  case True
  have "set (drop i args) \<subseteq> set (drop 1 args)" using assms(2) by (simp add: set_drop_subset_set_drop)
  then show ?thesis using True assms(1) by (auto simp: args_from_def named_keys_def)
qed (simp add: args_from_def runs_crash)

lemma runs_parse_range [run_rules]: "(\<And>m n. runs K (k m n)) \<Longrightarrow> runs K (parse_range args k)"
  unfolding parse_range_def
  by (intro run_rules) (auto simp: runs_reply split: option.split)

lemma runs_if [run_rules]: "(b \<Longrightarrow> runs K f) \<Longrightarrow> (\<not> b \<Longrightarrow> runs K g) \<Longrightarrow> runs K (if b then f else g)"
  and runs_case_prod [run_rules]: "(\<And>x y. runs K (h x y)) \<Longrightarrow> runs K (case p of (x, y) \<Rightarrow> h x y)"
  and runs_case_option [run_rules]:
    "runs K f \<Longrightarrow> (\<And>x. runs K (h1 x)) \<Longrightarrow> runs K (case q of None \<Rightarrow> f | Some x \<Rightarrow> h1 x)"
  and runs_case_sum [run_rules]:
    "(\<And>x. runs K (h1 x)) \<Longrightarrow> (\<And>y. runs K (h2 y)) \<Longrightarrow> runs K (case r of Inl x \<Rightarrow> h1 x | Inr y \<Rightarrow> h2 y)"
  by (auto split: prod.split option.split sum.split)

lemmas op_runs = call_Get [THEN runs_op] call_Set [THEN runs_op] call_Del [THEN runs_op]
  call_Exists [THEN runs_op] call_ExpireAt [THEN runs_op] call_Expire [THEN runs_op]
  call_PExpire [THEN runs_op] call_TTL [THEN runs_op] call_PTTL [THEN runs_op]
  call_Persist [THEN runs_op] call_Type [THEN runs_op] call_SweepExpired [THEN runs_op]
  call_DBSize [THEN runs_op] call_FlushDB [THEN runs_op] call_FlushAll [THEN runs_op]
  call_Rename [THEN runs_op] call_RandomKey [THEN runs_op] call_Keys [THEN runs_op]
  call_IncrBy [THEN runs_op] call_Append [THEN runs_op] call_StrLen [THEN runs_op]
  call_LPush [THEN runs_op] call_RPush [THEN runs_op] call_LPop [THEN runs_op]
  call_RPop [THEN runs_op] call_LLen [THEN runs_op] call_LRange [THEN runs_op]
  call_LIndex [THEN runs_op] call_LSet [THEN runs_op] call_LInsert [THEN runs_op]
  call_LRem [THEN runs_op] call_HSet [THEN runs_op] call_HGet [THEN runs_op]
  call_HDel [THEN runs_op] call_HExists [THEN runs_op] call_HGetAll [THEN runs_op]
  call_HKeys [THEN runs_op] call_HVals [THEN runs_op] call_HLen [THEN runs_op]
  call_HMGet [THEN runs_op] call_SAdd [THEN runs_op] call_SRem [THEN runs_op]
  call_SMembers [THEN runs_op] call_SIsMember [THEN runs_op] call_SCard [THEN runs_op]
  call_SUnion [THEN runs_op] call_SInter [THEN runs_op] call_SDiff [THEN runs_op]
  call_ZAdd [THEN runs_op] call_ZRem [THEN runs_op] call_ZScore [THEN runs_op]
  call_ZRank [THEN runs_op] call_ZRange [THEN runs_op] call_ZRangeByScore [THEN runs_op]
  call_ZCard [THEN runs_op] call_ZCount [THEN runs_op] call_ZIncrBy [THEN runs_op]
 

lemma runs_set_options [run_rules]: "runs K (set_options c args opts)"
  by (induction c args opts rule: set_options.induct)
    (auto simp: Let_def runs_ret runs_nowNs runs_nowMs intro!: runs_seq split: list.split option.split)

section \<open>Handlers\<close>

text \<open>A handler is confined if it only runs store operations on keys its arguments name.\<close>

definition confined :: "storeHandler \<Rightarrow> bool" where
  "confined h \<longleftrightarrow> (\<forall>c db args. runs (named_keys db args) (h c db args))"

lemma confinedI: "(\<And>c db args. runs (named_keys db args) (h c db args)) \<Longrightarrow> confined h"
  by (simp add: confined_def)

lemma runs_mset_loop:
  "(\<lambda>a. (str a, db)) ` set args \<subseteq> K \<Longrightarrow> runs K (mset_loop c db args)"
  by (induction c db args rule: mset_loop.induct) (auto intro!: run_rules op_runs)

lemma runs_mget_loop:
  "(\<lambda>a. (str a, db)) ` set args \<subseteq> K \<Longrightarrow> runs K (mget_loop db args)"
  unfolding mget_loop_def by (intro run_rules op_runs) auto

lemma confined_strings:
  "confined cmdGet" "confined cmdSet" "confined cmdDel" "confined cmdExists" "confined cmdExpire"
  "confined cmdPExpire" "confined cmdTTL" "confined cmdPTTL" "confined cmdPersist" "confined cmdType"
  "confined cmdRename" "confined cmdKeys" "confined cmdDBSize" "confined cmdRandomKey"
  "confined cmdIncr" "confined cmdIncrBy" "confined cmdDecr" "confined cmdDecrBy" "confined cmdMGet"
  "confined cmdMSet" "confined cmdSetNX" "confined cmdGetSet" "confined cmdAppend" "confined cmdStrLen"
  unfolding cmd_string_defs
  by (intro confinedI run_rules op_runs runs_mget_loop runs_mset_loop; (auto simp: named_keys_def)?)+

lemma confined_hashes:
  "confined cmdHSet" "confined cmdHGet" "confined cmdHDel" "confined cmdHExists" "confined cmdHGetAll"
  "confined cmdHKeys" "confined cmdHVals" "confined cmdHLen" "confined cmdHMGet" "confined cmdHMSet"
  unfolding cmd_hash_defs by (intro confinedI run_rules op_runs; (auto simp: named_keys_def)?)+

lemma confined_lists:
  "confined cmdLPush" "confined cmdRPush" "confined cmdLPop" "confined cmdRPop" "confined cmdLLen"
  "confined cmdLRange" "confined cmdLIndex" "confined cmdLSet" "confined cmdLInsert" "confined cmdLRem"
  unfolding cmd_list_defs Let_def by (intro confinedI run_rules op_runs; (auto simp: named_keys_def)?)+

lemma confined_sets:
  "confined cmdSAdd" "confined cmdSRem" "confined cmdSMembers" "confined cmdSIsMember"
  "confined cmdSCard" "confined cmdSUnion" "confined cmdSInter" "confined cmdSDiff"
  unfolding cmd_set_defs
  by (intro confinedI run_rules op_runs; (auto simp: named_keys_def argsToStrings_def)?)+

lemma confined_zsets:
  "confined cmdZAdd" "confined cmdZRem" "confined cmdZScore" "confined cmdZRank" "confined cmdZRange"
  "confined cmdZRangeByScore" "confined cmdZCard" "confined cmdZCount" "confined cmdZIncrBy"
  unfolding cmd_zset_defs
  by (intro confinedI run_rules op_runs; (auto simp: named_keys_def split: bool.split)?)+

lemma confined_info: "confined cmdInfo"
  unfolding cmdInfo_def Let_def info_server_def keyspace_lines_def
  by (intro confinedI run_rules op_runs) auto

lemmas confined_handlers = confined_strings confined_hashes confined_lists confined_sets
  confined_zsets confined_info

lemma flush_runs:
  "runs {kd. snd kd = db} (cmdFlushDB c db args)" "runs UNIV (cmdFlushAll c db args)"
  unfolding cmd_string_defs by (intro run_rules op_runs; simp)+

lemma plain_runs:
  "runs K (cmdPing c args)" "runs K (cmdEcho c args)" "runs K (cmdQuit c args)"
  "runs K (cmdCommand reg c args)"
  unfolding cmdPing_def cmdEcho_def cmdQuit_def cmdCommand_def All_def
  by (intro run_rules; simp)+

section \<open>The registry\<close>

lemma ascii_upperI: "ascii s \<Longrightarrow> map upper_char s = s \<Longrightarrow> ToUpper u s = s"
  by (simp add: ToUpper_def)

lemma update_new: "k \<notin> fst ` set al \<Longrightarrow> AList.update k v al = al @ [(k, v)]"
  by (induction al) auto

lemma fold_Register:
  assumes "\<forall>cm \<in> set cms. ToUpper (upperU c) (Name cm) = Name cm"
    and "distinct (map fst reg @ map Name cms)"
  shows "fold (Register c) cms reg = reg @ map (\<lambda>cm. (Name cm, cm)) cms"
  using assms
proof (induction cms arbitrary: reg)
  case (Cons cm cms)
  then have "Register c cm reg = reg @ [(Name cm, cm)]"
    by (auto simp: Register_def image_def intro!: update_new)
  with Cons show ?case by simp
qed simp

definition command_names :: "string list" where
  "command_names = map Name (commands (\<lambda>c args cc w. (Crash, cc, w)) [])"

lemma Name_cmd [simp]: "Name (cmd name lo hi h) = name" "MinArgs (cmd name lo hi h) = lo"
  "MaxArgs (cmd name lo hi h) = hi" "Exec (cmd name lo hi h) = h"
  by (simp_all add: cmd_def)

lemmas init_defs = init_hashes_def init_info_def init_lists_def init_multi_def init_server_def
  init_sets_def init_strings_def init_zsets_def

lemma map_signature_of: "map signature_of (commands disp reg) = map signature_of (commands disp' reg')"
  by (simp add: commands_def init_multi_def init_server_def signature_of_def)

lemma map_Name_commands: "map Name (commands disp reg) = command_names"
  using arg_cong [OF map_signature_of, of "map fst"]
  by (simp add: command_names_def comp_def signature_of_def)

lemma command_names_distinct: "distinct command_names"
  by (simp add: command_names_def commands_def init_defs)

lemma command_names_letters:
  "\<forall>s \<in> set command_names. \<forall>ch \<in> set s. 65 \<le> (of_char ch :: nat) \<and> (of_char ch :: nat) \<le> 90"
  by (simp add: command_names_def commands_def init_defs)

lemma command_name_ok:
  assumes "s \<in> set command_names"
  shows "ascii s" "map upper_char s = s" "CHR 0x0A \<notin> set s"
proof -
  have letter: "65 \<le> (of_char ch :: nat) \<and> (of_char ch :: nat) \<le> 90" if "ch \<in> set s" for ch
    using that assms command_names_letters by blast
  then show "ascii s" by (fastforce simp: ascii_def)
  have "upper_char ch = ch" if "ch \<in> set s" for ch
    using letter [OF that] by (simp add: upper_char_def)
  then show "map upper_char s = s" by (simp add: map_idI)
  show "CHR 0x0A \<notin> set s" using letter [of "CHR 0x0A"] by auto
qed

lemma registry_eq:
  "registry c disp = map (\<lambda>cm. (Name cm, cm)) (commands disp (signatures c))"
proof -
  have "\<forall>cm \<in> set (commands disp reg). ToUpper u (Name cm) = Name cm" for reg u
  proof
    fix cm assume "cm \<in> set (commands disp reg)"
    then have "Name cm \<in> set command_names"
      unfolding map_Name_commands [of disp reg, symmetric] by simp
    then show "ToUpper u (Name cm) = Name cm" using command_name_ok ascii_upperI by blast
  qed
  then show ?thesis
    unfolding registry_def by (subst fold_Register) (simp_all add: map_Name_commands command_names_distinct)
qed

lemma map_of_by_name:
  "distinct (map Name cms) \<Longrightarrow>
     map_of (map (\<lambda>cm. (Name cm, cm)) cms) name = Some cm \<longleftrightarrow> cm \<in> set cms \<and> Name cm = name"
  by (induction cms) (auto simp: image_iff)

lemma registry_lookup:
  "map_of (registry c disp) name = Some cm \<longleftrightarrow>
     cm \<in> set (commands disp (signatures c)) \<and> Name cm = name"
  unfolding registry_eq by (rule map_of_by_name) (simp add: map_Name_commands command_names_distinct)

end
