(* ===== verification/Requests.thy ===== *)
theory Requests
  imports Command_Laws
begin

text \<open>
  What one request does to a connection and to the store. \<open>dispatch_relation\<close> is the contract for a
  relation between the state before and after a command: it has to allow the few changes that
  handlers make themselves; then \<^verbatim>\<open>Dispatch\<close> satisfies it. \<open>request_relation\<close> adds the queueing of
  a command; then every request satisfies it. Their interpretations are the invariants
  of the connection state and the fact that the tables change through store operations only.
\<close>

section \<open>Commands that may be queued\<close>

definition queueable :: "Value list \<Rightarrow> bool" where
  "queueable args \<longleftrightarrow> args \<noteq> [] \<and>
     (let name = upperStr (str (args ! 0)) in
      name \<in> set command_names \<and> name \<notin> {''EXEC'', ''DISCARD'', ''QUIT'', ''MULTI''})"

definition queue_ok :: "ClientConn \<Rightarrow> bool" where
  "queue_ok cc \<longleftrightarrow> (\<forall>q \<in> set (QueuedCmds cc). queueable q) \<and> (\<not> InMulti cc \<longrightarrow> QueuedCmds cc = [])"

section \<open>The contract\<close>

locale dispatch_relation =
  fixes S :: "ClientConn \<times> world \<Rightarrow> ClientConn \<times> world \<Rightarrow> bool"
  assumes S_refl: "S s s"
    and S_trans: "S s s' \<Longrightarrow> S s' s'' \<Longrightarrow> S s s''"
    and S_store: "store_run UNIV w w' \<Longrightarrow> S (cc, w) (cc, w')"
    and S_select: "0 \<le> n \<Longrightarrow> n \<le> 15 \<Longrightarrow> S (cc, w) (cc\<lparr>DB := n\<rparr>, w)"
    and S_multi: "S (cc, w) (cc\<lparr>InMulti := b, QueuedCmds := []\<rparr>, w)"
begin

definition tame :: "Handler \<Rightarrow> bool" where
  "tame h \<longleftrightarrow> (\<forall>c args cc w. S (cc, w) (snd (h c args cc w)))"

lemma tame_store: "(\<And>c db args. runs UNIV (h c db args)) \<Longrightarrow> tame (withStore h)"
  unfolding tame_def withStore_def
  by (auto intro: S_refl S_store dest: runsD split: prod.split) (metis S_store runsD snd_conv)

lemma tame_optional: "(\<And>c db args. runs UNIV (h c db args)) \<Longrightarrow> tame (withOptionalStore h)"
  unfolding tame_def withOptionalStore_def by (auto split: prod.split) (metis S_store runsD snd_conv)

lemma tame_plain: "(\<And>c args. runs UNIV (h c args)) \<Longrightarrow> tame (plain h)"
  unfolding tame_def plain_def by (auto split: prod.split) (metis S_store runsD snd_conv)

lemma tame_confined: "confined h \<Longrightarrow> tame (withStore h)" "confined h \<Longrightarrow> tame (withOptionalStore h)"
  by (auto simp: confined_def intro!: tame_store tame_optional runs_mono [OF _ subset_UNIV])

lemma tame_flush: "tame (withStore cmdFlushDB)" "tame (withStore cmdFlushAll)"
  by (auto intro!: tame_store flush_runs(2) runs_mono [OF flush_runs(1)])

lemma tame_conn: "tame cmdSelect" "tame cmdMulti" "tame cmdDiscard"
  unfolding tame_def cmdSelect_def cmdMulti_def cmdDiscard_def
  by (auto intro: S_refl S_select S_multi split: option.split)

lemma exec_loop_S:
  assumes "tame disp"
  shows "S (cc, w) (snd (exec_loop disp c qs rs cc w))"
proof (induction qs arbitrary: rs cc w)
  case (Cons q qs)
  obtain r cc' w' where d: "disp c q cc w = (r, cc', w')" by (cases "disp c q cc w") auto
  have "S (cc, w) (cc', w')" using assms [unfolded tame_def, rule_format, of cc w c q] d by simp
  then show ?case using S_trans [OF _ Cons.IH] d by (auto split: reply.split)
qed (simp add: S_refl)

lemma tame_exec: "tame disp \<Longrightarrow> tame (cmdExec disp)"
  unfolding tame_def [of "cmdExec disp"] cmdExec_def
  using S_trans [OF S_multi exec_loop_S] by (auto intro: S_refl)

lemma tame_commands:
  assumes "tame disp" "cm \<in> set (commands disp reg)" shows "tame (Exec cm)"
  using assms(2)
  by (auto simp: commands_def init_defs tame_confined confined_handlers tame_flush tame_conn
      tame_exec [OF assms(1)] intro!: tame_plain plain_runs)

lemma tame_dispatch_in:
  assumes "\<And>cm name. map_of reg name = Some cm \<Longrightarrow> tame (Exec cm)"
  shows "S (cc, w) (snd (DispatchIn reg c args cc w))"
  using assms unfolding DispatchIn_def tame_def
  by (auto simp: Let_def S_refl split: list.split option.split)

lemma tame_Dispatch: "tame (Dispatch n)"
proof (induction n)
  case 0
  then show ?case by (simp add: tame_def Dispatch.simps S_refl)
next
  case (Suc n)
  then have "tame (Exec cm)" if "map_of (registry c (Dispatch n)) name = Some cm" for cm name c
    using that tame_commands by (auto simp: registry_lookup)
  then show ?case
    by (subst tame_def) (auto simp: Dispatch.simps intro: tame_dispatch_in)
qed

end

lemma queueable_registered:
  assumes "map_of (registry c disp) (upperStr (str a)) = Some cm"
    and "upperStr (str a) \<notin> {''EXEC'', ''DISCARD'', ''QUIT'', ''MULTI''}"
  shows "queueable (a # rest)"
proof -
  have "upperStr (str a) \<in> Name ` set (commands disp (signatures c))"
    using assms(1) by (metis imageI registry_lookup)
  then have "upperStr (str a) \<in> set command_names"
    by (metis map_Name_commands set_map)
  then show ?thesis using assms(2) by (simp add: queueable_def Let_def)
qed

locale request_relation = dispatch_relation +
  assumes S_queue: "InMulti cc \<Longrightarrow> queueable args \<Longrightarrow>
    S (cc, w) (cc\<lparr>QueuedCmds := QueuedCmds cc @ [args]\<rparr>, w)"
begin

lemma request_S: "S (cc, w) (snd (QueueOrDispatch n c args cc w))"
proof (cases "InMulti cc")
  case True
  have "map_of (registry c disp) '''' = None" for disp
    by (rule ccontr) (auto simp: registry_lookup commands_def init_defs)
  then show ?thesis
    using tame_Dispatch [of n, unfolded tame_def] True
    by (cases args) (auto simp: QueueOrDispatch_def Let_def S_refl split: option.split
        intro!: S_queue queueable_registered)
next
  case False
  then show ?thesis using tame_Dispatch [of n, unfolded tame_def] by (simp add: QueueOrDispatch_def)
qed

end

interpretation store_side: request_relation "\<lambda>s s'. store_run UNIV (snd s) (snd s')"
  by unfold_locales (simp_all add: run_refl, erule (1) run_trans)

interpretation database: request_relation
  "\<lambda>s s'. 0 \<le> DB (fst s) \<and> DB (fst s) \<le> 15 \<longrightarrow> 0 \<le> DB (fst s') \<and> DB (fst s') \<le> 15"
  by unfold_locales auto

interpretation login: request_relation "\<lambda>s s'. Authenticated (fst s') = Authenticated (fst s)"
  by unfold_locales auto

interpretation queue: request_relation "\<lambda>s s'. queue_ok (fst s) \<longrightarrow> queue_ok (fst s')"
  proof
  show "queue_ok (fst s) \<longrightarrow> queue_ok (fst s)" for s :: "ClientConn \<times> world" by simp
  show "queue_ok (fst s) \<longrightarrow> queue_ok (fst s'')"
    if "queue_ok (fst s) \<longrightarrow> queue_ok (fst s')" "queue_ok (fst s') \<longrightarrow> queue_ok (fst s'')"
    for s s' s'' :: "ClientConn \<times> world" using that by blast
qed (simp_all add: queue_ok_def)

interpretation drained: dispatch_relation
  "\<lambda>s s'. QueuedCmds (fst s) = [] \<longrightarrow> QueuedCmds (fst s') = []"
  by unfold_locales simp_all

end
