(* ===== verification/Reply_Types.thy ===== *)
theory Reply_Types
  imports Command_Laws
begin

text \<open>
  The type of every reply. A handler that \<open>answers T\<close> always gives a reply (it does not panic), and
  the reply is an error or has a RESP type of \<open>T\<close>. The main lemma is that every registered command,
  called with the number of arguments it is registered for, answers with the type that
  \<open>reply_types\<close> lists, where \<^verbatim>\<open>KEYS\<close> alone may panic instead.
\<close>

named_theorems answer_rules \<open>rules for the replies of the bodies of handlers\<close>

definition answers :: "char set \<Rightarrow> body \<Rightarrow> bool" where
  "answers T b \<longleftrightarrow> (\<forall>w. \<exists>v. fst (b w) = Reply v \<and> vtyp v \<in> insert CHR ''-'' T)"

section \<open>Rules\<close>

lemma vtyp_simps [simp]:
  "vtyp (SimpleString s) = CHR ''+''" "vtyp (Error s) = CHR ''-''" "vtyp (Integer n) = CHR '':''"
  "vtyp (BulkString s) = CHR ''$''" "vtyp NullBulkString = CHR ''$''" "vtyp (Array vs) = CHR ''*''"
  "vtyp (boolInt b) = CHR '':''" "vtyp (strSlice ss) = CHR ''*''" "vtyp (storeErr c e) = CHR ''-''"
  by (simp_all add: value_defs boolInt_def strSlice_def storeErr_def)

lemma answers_reply [answer_rules]: "vtyp v \<in> insert CHR ''-'' T \<Longrightarrow> answers T (reply v)"
  by (simp add: answers_def reply_def)

lemma answers_call [answer_rules]: "(\<And>a. answers T (k a)) \<Longrightarrow> answers T (call c m k)"
  unfolding answers_def call_def by (auto split: prod.split sum.split)

lemma answers_outcome [answer_rules]: "(\<And>r. answers T (k r)) \<Longrightarrow> answers T (outcome m k)"
  unfolding answers_def outcome_def by (auto split: prod.split)

lemma answers_arg [answer_rules]: "i < length args \<Longrightarrow> (\<And>s. answers T (k s)) \<Longrightarrow> answers T (arg args i k)"
  by (simp add: arg_def)

lemma answers_args_from [answer_rules]:
  "i \<le> length args \<Longrightarrow> (\<And>s. answers T (k s)) \<Longrightarrow> answers T (args_from args i k)"
  by (simp add: args_from_def)

lemma answers_if [answer_rules]:
  "(b \<Longrightarrow> answers T f) \<Longrightarrow> (\<not> b \<Longrightarrow> answers T g) \<Longrightarrow> answers T (if b then f else g)"
  and answers_case_prod [answer_rules]:
  "(\<And>x y. answers T (h x y)) \<Longrightarrow> answers T (case p of (x, y) \<Rightarrow> h x y)"
  and answers_case_sum [answer_rules]:
  "(\<And>x. answers T (h1 x)) \<Longrightarrow> (\<And>y. answers T (h2 y)) \<Longrightarrow>
     answers T (case r of Inl x \<Rightarrow> h1 x | Inr y \<Rightarrow> h2 y)"
  by (auto split: prod.split sum.split)

lemma answers_parse_int [answer_rules]: "(\<And>n. answers T (k n)) \<Longrightarrow> answers T (parse_int s k)"
  by (auto simp: parse_int_def intro: answers_reply split: option.split)

lemma answers_parse_range [answer_rules]:
  "3 < length args \<Longrightarrow> (\<And>m n. answers T (k m n)) \<Longrightarrow> answers T (parse_range args k)"
  unfolding parse_range_def
  by (intro answers_arg) (auto intro: answers_reply split: option.split)

lemma answers_mset_loop [answer_rules]: "even (length args) \<Longrightarrow> CHR ''+'' \<in> T \<Longrightarrow> answers T (mset_loop c db args)"
  by (induction c db args rule: mset_loop.induct) (auto intro!: answer_rules)

lemma field_pairs_even: "even (length args) \<Longrightarrow> \<exists>ps. field_pairs args = Some ps"
  by (induction args rule: field_pairs.induct) auto

lemma score_pairs_even: "even (length args) \<Longrightarrow> score_pairs args \<noteq> Inl True"
  by (induction args rule: induct_list012) (auto split: sum.split)

lemma set_options_error: "fst (set_options c args opts w) = Inr (Inl v) \<Longrightarrow> vtyp v = CHR ''-''"
proof (induction "length args" arbitrary: args opts w rule: less_induct)
  case less
  show ?case
  proof (cases args)
    case (Cons a rest)
    with less.prems show ?thesis
      unfolding Cons set_options.simps(2) Let_def
      by (auto simp: Cons act_defs nowMs_def simp del: set_options.simps
          split: if_splits list.splits option.splits dest!: less.hyps [rotated])
  qed (use less.prems in \<open>simp add: ret_def\<close>)
qed

lemma answers_set_options:
  assumes "\<And>opts. answers T (k (Inr opts))" "\<And>v. vtyp v = CHR ''-'' \<Longrightarrow> answers T (k (Inl v))"
  shows "answers T (call c (set_options c args opts) k)"
proof -
  have "answers T (k r)" if "fst (set_options c args opts w) = Inr r" for r w
    using that assms set_options_error by (cases r) auto
  then show ?thesis unfolding answers_def call_def
    by (auto split: prod.split sum.split) (metis fst_conv)
qed

section \<open>Handlers\<close>

definition replies :: "char set \<Rightarrow> nat \<Rightarrow> storeHandler \<Rightarrow> bool" where
  "replies T n h \<longleftrightarrow> (\<forall>c db args. n \<le> length args \<longrightarrow> answers T (h c db args))"

lemma repliesI: "(\<And>c db args. n \<le> length args \<Longrightarrow> answers T (h c db args)) \<Longrightarrow> replies T n h"
  by (simp add: replies_def)

abbreviation "simple \<equiv> {CHR ''+''}"
abbreviation "number \<equiv> {CHR '':''}"
abbreviation "bulk \<equiv> {CHR ''$''}"
abbreviation "array \<equiv> {CHR ''*''}"

lemma replies_strings:
  "replies bulk 2 cmdGet" "replies number 2 cmdDel"
  "replies number 2 cmdExists" "replies number 3 cmdExpire" "replies number 3 cmdPExpire"
  "replies number 2 cmdTTL" "replies number 2 cmdPTTL" "replies number 2 cmdPersist" "replies simple 2 cmdType"
  "replies simple 3 cmdRename" "replies number 1 cmdDBSize" "replies simple 1 cmdFlushDB"
  "replies simple 1 cmdFlushAll" "replies bulk 1 cmdRandomKey" "replies number 2 cmdIncr"
  "replies number 3 cmdIncrBy" "replies number 2 cmdDecr" "replies number 3 cmdDecrBy" "replies array 2 cmdMGet"
  "replies number 3 cmdSetNX" "replies bulk 3 cmdGetSet" "replies number 3 cmdAppend" "replies number 2 cmdStrLen"
  unfolding cmd_string_defs by (intro repliesI answer_rules; simp)+

lemma replies_set: "replies {CHR ''+'', CHR ''$''} 3 cmdSet"
  unfolding cmdSet_def
  by (intro repliesI answers_arg answers_set_options) (auto intro!: answer_rules)

lemma replies_mset: "replies simple 3 cmdMSet"
  unfolding cmdMSet_def by (intro repliesI answers_if answers_reply answers_mset_loop; simp) presburger

lemma replies_keys:
  "1 < length args \<Longrightarrow> fst (cmdKeys c db args w) = Crash \<or>
     (\<exists>v. fst (cmdKeys c db args w) = Reply v \<and> vtyp v \<in> insert CHR ''-'' array)"
  by (auto simp: cmdKeys_def arg_def call_def reply_def crash_def split: prod.split sum.split option.split)

lemma replies_hashes:
  "replies bulk 3 cmdHGet" "replies number 3 cmdHDel" "replies number 3 cmdHExists" "replies array 2 cmdHGetAll"
  "replies array 2 cmdHKeys" "replies array 2 cmdHVals" "replies number 2 cmdHLen" "replies array 3 cmdHMGet"
  unfolding cmd_hash_defs by (intro repliesI answer_rules; simp)+

lemma answers_field_pairs:
  assumes "2 \<le> length args" "(int (length args) - 2) mod 2 = 0" "\<And>ps. answers T (k ps)"
  shows "answers T (case field_pairs (drop 2 args) of None \<Rightarrow> crash | Some ps \<Rightarrow> k ps)"
proof -
  have "even (length (drop 2 args))" using assms(1,2) by simp presburger
  then show ?thesis using field_pairs_even assms(3) by fastforce
qed

lemma replies_hset: "replies number 4 cmdHSet" "replies simple 4 cmdHMSet"
  unfolding cmdHSet_def cmdHMSet_def
  by (intro repliesI answers_if answers_arg answers_field_pairs answers_call answers_reply; simp)+

lemma replies_lists:
  "replies number 3 cmdLPush" "replies number 3 cmdRPush" "replies bulk 2 cmdLPop" "replies bulk 2 cmdRPop"
  "replies number 2 cmdLLen" "replies array 4 cmdLRange" "replies bulk 3 cmdLIndex" "replies simple 4 cmdLSet"
  "replies number 5 cmdLInsert" "replies number 4 cmdLRem"
  unfolding cmd_list_defs Let_def by (intro repliesI answer_rules; simp)+

lemma replies_sets:
  "replies number 3 cmdSAdd" "replies number 3 cmdSRem" "replies array 2 cmdSMembers"
  "replies number 3 cmdSIsMember" "replies number 2 cmdSCard" "replies array 2 cmdSUnion"
  "replies array 2 cmdSInter" "replies array 2 cmdSDiff"
  unfolding cmd_set_defs by (intro repliesI answer_rules; simp)+

lemma replies_zadd: "replies number 4 cmdZAdd"
proof (rule repliesI)
  fix c db args assume "4 \<le> length (args :: Value list)"
  moreover obtain opts rest where "zadd_options c (drop 2 args) \<lparr>zNX = False, zXX = False\<rparr> = (opts, rest)"
    by fastforce
  ultimately show "answers number (cmdZAdd c db args)"
    using score_pairs_even [of rest] unfolding cmdZAdd_def
    by (auto intro!: answer_rules simp: even_iff_mod_2_eq_zero split: sum.split bool.split)
qed

lemma replies_zsets:
  "replies number 3 cmdZRem" "replies bulk 3 cmdZScore" "replies {CHR '':'', CHR ''$''} 3 cmdZRank"
  "replies array 4 cmdZRange" "replies array 4 cmdZRangeByScore" "replies number 2 cmdZCard"
  "replies number 4 cmdZCount" "replies bulk 4 cmdZIncrBy" "replies bulk 1 cmdInfo"
  unfolding cmd_zset_defs cmdInfo_def Let_def by (intro repliesI answer_rules; simp)+

lemmas replies_handlers = replies_strings replies_set replies_mset replies_hashes replies_hset replies_lists
  replies_sets replies_zadd replies_zsets

section \<open>Registered commands\<close>

text \<open>The RESP types of the replies of each command that are not errors.\<close>

definition reply_types :: "string \<Rightarrow> char set" where
  "reply_types name =
     (if name \<in> {''TYPE'', ''RENAME'', ''FLUSHDB'', ''FLUSHALL'', ''SELECT'', ''MSET'', ''HMSET'',
          ''LSET'', ''QUIT'', ''MULTI'', ''DISCARD''} then simple
      else if name \<in> {''DEL'', ''EXISTS'', ''EXPIRE'', ''PEXPIRE'', ''TTL'', ''PTTL'', ''PERSIST'',
          ''DBSIZE'', ''INCR'', ''INCRBY'', ''DECR'', ''DECRBY'', ''SETNX'', ''APPEND'', ''STRLEN'',
          ''HSET'', ''HDEL'', ''HEXISTS'', ''HLEN'', ''LPUSH'', ''RPUSH'', ''LLEN'', ''LINSERT'',
          ''LREM'', ''SADD'', ''SREM'', ''SISMEMBER'', ''SCARD'', ''ZADD'', ''ZREM'', ''ZCARD'',
          ''ZCOUNT''} then number
      else if name \<in> {''GET'', ''RANDOMKEY'', ''GETSET'', ''HGET'', ''LPOP'', ''RPOP'', ''LINDEX'',
          ''ZSCORE'', ''ZINCRBY'', ''ECHO'', ''INFO''} then bulk
      else if name \<in> {''KEYS'', ''MGET'', ''HGETALL'', ''HKEYS'', ''HVALS'', ''HMGET'', ''LRANGE'',
          ''SMEMBERS'', ''SUNION'', ''SINTER'', ''SDIFF'', ''ZRANGE'', ''ZRANGEBYSCORE'', ''EXEC''}
        then array
      else if name \<in> {''SET'', ''PING''} then {CHR ''+'', CHR ''$''}
      else if name = ''ZRANK'' then {CHR '':'', CHR ''$''}
      else if name = ''COMMAND'' then {CHR '':'', CHR ''*''}
      else {})"

text \<open>A result is well typed if it is a reply of type \<open>T\<close> or an error.\<close>

definition typed_result :: "char set \<Rightarrow> reply \<times> 's \<Rightarrow> bool" where
  "typed_result T r \<longleftrightarrow> (\<exists>v. fst r = Reply v \<and> vtyp v \<in> insert CHR ''-'' T)"

lemma replies_withStore:
  "replies T n h \<Longrightarrow> n \<le> length args \<Longrightarrow> typed_result T (withStore h c args cc w)"
  "replies T n h \<Longrightarrow> n \<le> length args \<Longrightarrow> typed_result T (withOptionalStore h c args cc w)"
  unfolding replies_def answers_def typed_result_def withStore_def withOptionalStore_def
  by (auto split: prod.split) (metis fst_conv)+

lemma replies_plain:
  "1 \<le> length args \<Longrightarrow> typed_result {CHR ''+'', CHR ''$''} (plain cmdPing c args cc w)"
  "2 \<le> length args \<Longrightarrow> typed_result bulk (plain cmdEcho c args cc w)"
  "typed_result simple (plain cmdQuit c args cc w)"
  "typed_result {CHR '':'', CHR ''*''} (plain (cmdCommand reg) c args cc w)"
  by (auto simp: typed_result_def plain_def cmdPing_def cmdEcho_def cmdQuit_def cmdCommand_def
      All_def arg_def reply_def call_def range_map_def)

lemma replies_conn:
  "2 \<le> length args \<Longrightarrow> typed_result simple (cmdSelect c args cc w)"
  "typed_result simple (cmdMulti c args cc w)" "typed_result simple (cmdDiscard c args cc w)"
  by (auto simp: typed_result_def cmdSelect_def cmdMulti_def cmdDiscard_def split: option.split)

lemma reply_types_keys: "reply_types ''KEYS'' = array"
  by (simp add: reply_types_def)

lemma replies_keys_cmd:
  assumes "2 \<le> length args"
  shows "typed_result (reply_types ''KEYS'') (withStore cmdKeys c args cc w) \<or>
    fst (withStore cmdKeys c args cc w) = Crash"
  using replies_keys [of args c "DB cc" w] assms
  by (auto simp: withStore_def typed_result_def reply_types_keys split: prod.split)

definition well_typed :: "Cmd \<Rightarrow> bool" where
  "well_typed cm \<longleftrightarrow> Name cm \<in> {''EXEC'', ''KEYS''} \<or>
     (\<forall>c args cc w. MinArgs cm \<le> length args \<longrightarrow>
        typed_result (reply_types (Name cm)) (Exec cm c args cc w))"

lemma well_typed_exempt: "well_typed (cmd ''KEYS'' lo hi h)" "well_typed (cmd ''EXEC'' lo hi h)"
  by (simp_all add: well_typed_def)

lemma well_typed_store:
  "replies (reply_types name) lo h \<Longrightarrow> well_typed (cmd name lo hi (withStore h))"
  "replies (reply_types name) lo h \<Longrightarrow> well_typed (cmd name lo hi (withOptionalStore h))"
  by (auto simp: well_typed_def intro: replies_withStore)

lemma well_typed_conn:
  "well_typed (cmd ''SELECT'' 2 hi cmdSelect)" "well_typed (cmd ''MULTI'' lo hi cmdMulti)"
  "well_typed (cmd ''DISCARD'' lo hi cmdDiscard)" "well_typed (cmd ''PING'' 1 hi (plain cmdPing))"
  "well_typed (cmd ''ECHO'' 2 hi (plain cmdEcho))" "well_typed (cmd ''QUIT'' lo hi (plain cmdQuit))"
  "well_typed (cmd ''COMMAND'' lo hi (plain (cmdCommand reg)))"
  using replies_conn replies_plain by (simp_all add: well_typed_def reply_types_def)

lemma well_typed_inits:
  "list_all well_typed init_strings" "list_all well_typed init_hashes" "list_all well_typed init_lists"
  "list_all well_typed init_sets" "list_all well_typed init_zsets" "list_all well_typed init_info"
  "list_all well_typed (init_multi disp)" "list_all well_typed (init_server reg)"
  unfolding init_defs list.pred_inject
  by (intro conjI TrueI well_typed_exempt well_typed_conn well_typed_store;
      simp add: reply_types_def replies_handlers del: One_nat_def)+

lemma replies_commands:
  assumes "cm \<in> set (commands disp reg)" "MinArgs cm \<le> length args"
    and "Name cm \<noteq> ''EXEC''" "Name cm \<noteq> ''KEYS''"
  shows "typed_result (reply_types (Name cm)) (Exec cm c args cc w)"
proof -
  have "well_typed cm"
    using assms(1) well_typed_inits by (auto simp: commands_def list_all_iff)
  then show ?thesis using assms(2-) by (simp add: well_typed_def)
qed

end
