(* ===== verification/Transactions.thy ===== *)
theory Transactions
  imports Requests Reply_Types
begin

text \<open>
  \<^verbatim>\<open>Dispatch\<close> and \<^verbatim>\<open>MULTI\<close>/\<^verbatim>\<open>EXEC\<close>: the recursion of \<^verbatim>\<open>EXEC\<close> through \<^verbatim>\<open>Dispatch\<close> ends after two
  levels, every command replies with its type and changes only what it names, a request
  that reaches the queue is queued or refused, and \<^verbatim>\<open>EXEC\<close> does
  what the queued commands do when they are sent one after the other.
\<close>

definition name_of :: "ctx \<Rightarrow> Value list \<Rightarrow> string" where
  "name_of c args = ToUpper (upperU c) (str (hd args))"

section \<open>The depth of the recursion\<close>

lemma commands_indep:
  "cm \<in> set (commands disp reg) \<Longrightarrow> Name cm \<noteq> ''EXEC'' \<Longrightarrow> cm \<in> set (commands disp' reg)"
  by (auto simp: commands_def init_multi_def)

lemma lookup_indep:
  assumes "name \<noteq> ''EXEC''"
  shows "map_of (registry c disp) name = map_of (registry c disp') name"
proof -
  have "map_of (registry c d') name = Some cm" if "map_of (registry c d) name = Some cm" for d d' cm
    using that assms commands_indep [of cm d "signatures c" d'] by (simp add: registry_lookup)
  then show ?thesis by (metis not_None_eq)
qed

lemma lookup_exec: "map_of (registry c disp) ''EXEC'' = Some (cmd ''EXEC'' 1 1 (cmdExec disp))"
  by (simp add: registry_lookup commands_def init_multi_def)

lemma lookup_keys: "map_of (registry c disp) ''KEYS'' = Some (cmd ''KEYS'' 2 2 (withStore cmdKeys))"
  by (simp add: registry_lookup commands_def init_strings_def)

lemma DispatchIn_Cons:
  "DispatchIn reg c (a # rest) cc w =
     (case map_of reg (name_of c (a # rest)) of
        None \<Rightarrow> (Reply (Error (unknown_text (ToLower (lowerU c) (name_of c (a # rest))))), cc, w)
      | Some cm \<Rightarrow>
          if length (a # rest) < MinArgs cm \<or> MaxArgs cm \<ge> 0 \<and> int (length (a # rest)) > MaxArgs cm
          then (Reply (Error (arity_text (ToLower (lowerU c) (name_of c (a # rest))))), cc, w)
          else Exec cm c (a # rest) cc w)"
  by (auto simp: DispatchIn_def name_of_def Let_def split: option.split)

lemma Dispatch_Nil [simp]: "Dispatch (Suc n) c [] cc w = (Reply (Error ''ERR empty command''), cc, w)"
  by (simp add: Dispatch.simps DispatchIn_def)

lemmas Dispatch_Cons = Dispatch.simps(2) [THEN fun_cong, THEN fun_cong, THEN fun_cong, THEN fun_cong,
    of _ _ "_ # _", unfolded DispatchIn_Cons]

lemma Dispatch_level:
  assumes "QueuedCmds cc = [] \<or> name_of c args \<noteq> ''EXEC''"
  shows "Dispatch (Suc n) c args cc w = Dispatch (Suc m) c args cc w"
proof (cases args)
  case (Cons a rest)
  show ?thesis
  proof (cases "name_of c args = ''EXEC''")
    case True
    then show ?thesis using assms
      by (simp add: Cons Dispatch_Cons lookup_exec cmdExec_def)
  next
    case False
    then show ?thesis
      using lookup_indep [OF False, of c "Dispatch n" "Dispatch m"]
      by (simp add: Cons Dispatch_Cons)
  qed
qed simp

lemma exec_loop_level:
  "QueuedCmds cc = [] \<Longrightarrow>
     exec_loop (Dispatch (Suc n)) c qs rs cc w = exec_loop (Dispatch (Suc m)) c qs rs cc w"
proof (induction qs arbitrary: rs cc w)
  case (Cons q qs)
  obtain r cc' w' where d: "Dispatch (Suc m) c q cc w = (r, cc', w')"
    by (cases "Dispatch (Suc m) c q cc w") auto
  moreover from Cons.prems have "Dispatch (Suc n) c q cc w = Dispatch (Suc m) c q cc w"
    by (intro Dispatch_level) simp
  moreover have "QueuedCmds cc' = []"
    using drained.tame_Dispatch [of "Suc m", unfolded drained.tame_def, rule_format, of cc w c q]
      Cons.prems d by simp
  ultimately show ?case using Cons.IH by (simp split: reply.split)
qed simp

lemma Dispatch_fuel: "Dispatch (Suc (Suc n)) c args cc w = Dispatch (Suc (Suc m)) c args cc w"
proof (cases "QueuedCmds cc = [] \<or> name_of c args \<noteq> ''EXEC''")
  case True
  then show ?thesis by (rule Dispatch_level)
next
  case False
  then show ?thesis
  proof (cases args)
    case (Cons a rest)
    have "exec_loop (Dispatch (Suc n)) c (QueuedCmds cc) [] (cc\<lparr>InMulti := False, QueuedCmds := []\<rparr>) w
      = exec_loop (Dispatch (Suc m)) c (QueuedCmds cc) [] (cc\<lparr>InMulti := False, QueuedCmds := []\<rparr>) w"
      by (rule exec_loop_level) simp
    with False Cons show ?thesis by (simp add: Dispatch_Cons lookup_exec cmdExec_def)
  qed simp
qed

section \<open>Replies\<close>

lemma Dispatch_typed:
  assumes "args \<noteq> []" "name_of c args \<noteq> ''EXEC''"
  shows "typed_result (reply_types (name_of c args)) (Dispatch (Suc n) c args cc w) \<or>
    name_of c args = ''KEYS'' \<and> fst (Dispatch (Suc n) c args cc w) = Crash"
proof -
  from assms obtain a rest where args: "args = a # rest" by (cases args) auto
  show ?thesis
  proof (cases "map_of (registry c (Dispatch n)) (name_of c args)")
    case None
    then show ?thesis by (simp add: args Dispatch_Cons typed_result_def)
  next
    case (Some cm)
    then have cm: "cm \<in> set (commands (Dispatch n) (signatures c))" "Name cm = name_of c args"
      by (simp_all add: registry_lookup)
    show ?thesis
    proof (cases "length args < MinArgs cm \<or> MaxArgs cm \<ge> 0 \<and> int (length args) > MaxArgs cm")
      case True
      with Some show ?thesis by (auto simp: args Dispatch_Cons typed_result_def)
    next
      case False
      then have run: "Dispatch (Suc n) c args cc w = Exec cm c args cc w" and "MinArgs cm \<le> length args"
        using Some by (auto simp: args Dispatch_Cons)
      show ?thesis
      proof (cases "Name cm = ''KEYS''")
        case False
        then show ?thesis using replies_commands [OF cm(1), of args c cc w] assms(2) cm(2) run
            \<open>MinArgs cm \<le> length args\<close> by simp
      next
        case True
        then have "cm = cmd ''KEYS'' 2 2 (withStore cmdKeys)"
          using Some cm(2) lookup_keys by (metis option.inject)
        then show ?thesis
          using replies_keys_cmd [of args c cc w] run cm(2) \<open>MinArgs cm \<le> length args\<close> by simp
      qed
    qed
  qed
qed

text \<open>A reply has the type listed for its request, or is an error.\<close>

definition typed_reply :: "ctx \<Rightarrow> Value list \<Rightarrow> Value \<Rightarrow> bool" where
  "typed_reply c args v \<longleftrightarrow> vtyp v \<in> insert CHR ''-'' (reply_types (name_of c args))"

lemma reply_types_exec: "reply_types ''EXEC'' = {CHR ''*''}"
  by (simp add: reply_types_def)

lemma Dispatch_exec_drained:
  "QueuedCmds cc = [] \<Longrightarrow> name_of c args = ''EXEC'' \<Longrightarrow>
     \<exists>v. fst (Dispatch (Suc n) c args cc w) = Reply v \<and> typed_reply c args v"
  by (cases args) (simp_all add: Dispatch_Cons lookup_exec cmdExec_def typed_reply_def reply_types_exec)

lemma Dispatch_drained:
  assumes "QueuedCmds cc = []"
  shows "(\<exists>v. fst (Dispatch (Suc n) c args cc w) = Reply v \<and> typed_reply c args v) \<or>
    name_of c args = ''KEYS'' \<and> fst (Dispatch (Suc n) c args cc w) = Crash"
proof (cases "args = [] \<or> name_of c args = ''EXEC''")
  case True
  then show ?thesis using Dispatch_exec_drained [OF assms, of c args n w] by (cases args) (simp_all add: typed_reply_def)
next
  case False
  then show ?thesis using Dispatch_typed [of args c n cc w] by (auto simp: typed_result_def typed_reply_def)
qed

lemma exec_loop_result:
  assumes "QueuedCmds cc = []"
  shows "(\<exists>vs. list_all2 (typed_reply c) qs vs \<and>
      fst (exec_loop (Dispatch (Suc n)) c qs rs cc w) = Reply (Array (rs @ vs))) \<or>
    (\<exists>q \<in> set qs. name_of c q = ''KEYS'') \<and> fst (exec_loop (Dispatch (Suc n)) c qs rs cc w) = Crash"
  using assms
proof (induction qs arbitrary: rs cc w)
  case (Cons q qs)
  obtain r cc' w' where d: "Dispatch (Suc n) c q cc w = (r, cc', w')"
    by (cases "Dispatch (Suc n) c q cc w") auto
  have "QueuedCmds cc' = []"
    using drained.tame_Dispatch [of "Suc n", unfolded drained.tame_def, rule_format, of cc w c q]
      Cons.prems d by simp
  note IH = Cons.IH [OF this, of "rs @ [v]" w' for v]
  show ?case
  proof (cases r)
    case (Reply v)
    have v: "typed_reply c q v" using Dispatch_drained [OF Cons.prems, of n c q w] d Reply by simp
    show ?thesis
    proof (rule disjE [OF IH [of v]], goal_cases)
      case 1
      then obtain vs where "list_all2 (typed_reply c) (q # qs) (v # vs)"
        "fst (exec_loop (Dispatch (Suc n)) c (q # qs) rs cc w) = Reply (Array (rs @ (v # vs)))"
        using d Reply v by auto
      then show ?case by blast
    next
      case 2
      then show ?case using d Reply by simp
    qed
  qed (use Dispatch_drained [OF Cons.prems, of n c q w] d in simp_all)
qed simp

section \<open>Transactions\<close>

lemma wrappers_conn:
  "fst (snd (withStore h c args cc w)) = cc" "fst (snd (withOptionalStore h c args cc w)) = cc"
  "fst (snd (plain g c args cc w)) = cc"
  by (simp_all add: withStore_def withOptionalStore_def plain_def split: prod.split)

lemma select_multi: "InMulti (fst (snd (cmdSelect c args cc w))) = InMulti cc"
  by (simp add: cmdSelect_def split: option.split)

lemma command_multi:
  "cm \<in> set (commands disp reg) \<Longrightarrow> Name cm \<notin> {''MULTI'', ''EXEC'', ''DISCARD''} \<Longrightarrow>
     InMulti (fst (snd (Exec cm c args cc w))) = InMulti cc"
  by (auto simp: commands_def init_defs wrappers_conn select_multi)

lemma upper_char_ascii: "(of_char (upper_char ch) :: nat) < 128 \<Longrightarrow> (of_char ch :: nat) < 128"
  by (auto simp: upper_char_def split: if_splits)

lemma ToUpper_upperStr: "ascii (upperStr s) \<Longrightarrow> ToUpper u s = upperStr s"
  by (auto simp: ToUpper_def upperStr_def ascii_def dest: upper_char_ascii)

lemma name_of_upper:
  "upperStr (str (hd args)) \<in> set command_names \<Longrightarrow> name_of c args = upperStr (str (hd args))"
  using command_name_ok(1) by (auto simp: name_of_def intro!: ToUpper_upperStr)

lemma queueable_name:
  assumes "queueable q"
  shows "q \<noteq> []" "name_of c q \<notin> {''EXEC'', ''DISCARD'', ''QUIT'', ''MULTI''}"
  using assms name_of_upper [of q c] by (auto simp: queueable_def Let_def hd_conv_nth)

lemma queueable_multi:
  assumes "queueable q"
  shows "InMulti (fst (snd (Dispatch (Suc n) c q cc w))) = InMulti cc"
proof -
  from queueable_name(1) [OF assms] queueable_name(2) [OF assms, of c] obtain a rest where q: "q = a # rest"
    and n: "name_of c q \<notin> {''MULTI'', ''EXEC'', ''DISCARD''}" by (cases q) auto
  show ?thesis
    using n command_multi [of _ "Dispatch n" "signatures c" c q cc w]
    by (auto simp: q Dispatch_Cons registry_lookup split: option.split)
qed

text \<open>Sending commands one after the other; \<^const>\<open>None\<close> when one of them panics.\<close>

fun send_all :: "ctx \<Rightarrow> Value list list \<Rightarrow> ClientConn \<Rightarrow> world
    \<Rightarrow> (Value list \<times> ClientConn \<times> world) option" where
  "send_all c [] cc w = Some ([], cc, w)"
| "send_all c (q # qs) cc w =
     (case QueueOrDispatch 2 c q cc w of
        (Reply v, cc', w') \<Rightarrow> map_option (apfst ((#) v)) (send_all c qs cc' w')
      | _ \<Rightarrow> None)"

lemma exec_loop_send_all:
  assumes "\<not> InMulti cc" "QueuedCmds cc = []" "\<forall>q \<in> set qs. queueable q"
  shows "exec_loop (Dispatch (Suc n)) c qs rs cc w = (Reply (Array us), s) \<longleftrightarrow>
    (\<exists>vs. us = rs @ vs \<and> send_all c qs cc w = Some (vs, s))"
  using assms
proof (induction qs arbitrary: rs cc w)
  case Nil
  then show ?case by (cases s) (auto simp: Array_def)
next
  case (Cons q qs)
  have step: "QueueOrDispatch 2 c q cc w = Dispatch (Suc n) c q cc w"
    using Cons.prems Dispatch_level [of cc c q 1 w n] by (simp add: QueueOrDispatch_def numeral_2_eq_2)
  obtain r cc' w' where d: "Dispatch (Suc n) c q cc w = (r, cc', w')"
    by (cases "Dispatch (Suc n) c q cc w") auto
  have "QueuedCmds cc' = []"
    using drained.tame_Dispatch [of "Suc n", unfolded drained.tame_def, rule_format, of cc w c q]
      Cons.prems d by simp
  moreover have "\<not> InMulti cc'" using queueable_multi [of q n c cc w] Cons.prems d by simp
  ultimately have IH: "exec_loop (Dispatch (Suc n)) c qs (rs @ [v]) cc' w' = (Reply (Array us), s) \<longleftrightarrow>
      (\<exists>vs. us = (rs @ [v]) @ vs \<and> send_all c qs cc' w' = Some (vs, s))" for v
    using Cons.IH Cons.prems(3) by simp
  show ?case
    using IH by (cases r; cases s) (auto simp: step d)
qed

section \<open>The keys a command touches\<close>

definition touched :: "string \<Rightarrow> int \<Rightarrow> Value list \<Rightarrow> key_id set" where
  "touched name db args =
     (if name = ''FLUSHALL'' then UNIV
      else if name = ''FLUSHDB'' then {kd. snd kd = db}
      else named_keys db args)"

lemma wrappers_run:
  assumes "\<And>c db args. runs (touched name db args) (h c db args)"
  shows "store_run (touched name (DB cc) args) w (snd (snd (withStore h c args cc w)))"
    "store_run (touched name (DB cc) args) w (snd (snd (withOptionalStore h c args cc w)))"
  using runsD [OF assms [of "DB cc" args c], of w]
  by (auto simp: withStore_def withOptionalStore_def run_refl split: prod.split)

definition scoped :: "Cmd \<Rightarrow> bool" where
  "scoped cm \<longleftrightarrow> Name cm = ''EXEC'' \<or> (\<forall>c args cc w.
     store_run (touched (Name cm) (DB cc) args) w (snd (snd (Exec cm c args cc w))))"

lemma scoped_exempt: "scoped (cmd ''EXEC'' lo hi h)"
  by (simp add: scoped_def)

lemma scoped_store:
  assumes "confined h" "name \<notin> {''FLUSHALL'', ''FLUSHDB''}"
  shows "scoped (cmd name lo hi (withStore h))" "scoped (cmd name lo hi (withOptionalStore h))"
proof -
  have "runs (touched name db args) (h c db args)" for c db args
    using assms by (simp add: touched_def confined_def)
  from wrappers_run [OF this]
  show "scoped (cmd name lo hi (withStore h))" "scoped (cmd name lo hi (withOptionalStore h))"
    by (simp_all add: scoped_def)
qed

lemma scoped_flush:
  "scoped (cmd ''FLUSHDB'' lo hi (withStore cmdFlushDB))"
  "scoped (cmd ''FLUSHALL'' lo hi (withStore cmdFlushAll))"
  using wrappers_run(1) [of "''FLUSHDB''" cmdFlushDB] wrappers_run(1) [of "''FLUSHALL''" cmdFlushAll]
  by (simp_all add: scoped_def touched_def flush_runs)

lemma scoped_plain:
  assumes "\<And>K c args. runs K (h c args)" shows "scoped (cmd name lo hi (plain h))"
  using runsD [OF assms] by (auto simp: scoped_def plain_def split: prod.split) (metis snd_conv)

lemma scoped_conn:
  "scoped (cmd name lo hi cmdSelect)" "scoped (cmd name lo hi cmdMulti)"
  "scoped (cmd name lo hi cmdDiscard)"
  by (auto simp: scoped_def cmdSelect_def cmdMulti_def cmdDiscard_def run_refl split: option.split)

lemma scoped_inits:
  "list_all scoped init_strings" "list_all scoped init_hashes" "list_all scoped init_lists"
  "list_all scoped init_sets" "list_all scoped init_zsets" "list_all scoped init_info"
  "list_all scoped (init_multi disp)" "list_all scoped (init_server reg)"
  unfolding init_defs list.pred_inject
  by (intro conjI TrueI scoped_exempt scoped_conn scoped_flush scoped_plain plain_runs scoped_store;
      simp add: confined_handlers)+

lemma command_touched:
  assumes "cm \<in> set (commands disp reg)" "Name cm \<noteq> ''EXEC''"
  shows "store_run (touched (Name cm) (DB cc) args) w (snd (snd (Exec cm c args cc w)))"
proof -
  have "scoped cm"
    using assms(1) scoped_inits by (auto simp: commands_def list_all_iff)
  then show ?thesis using assms(2) by (simp add: scoped_def)
qed

lemma Dispatch_touched:
  assumes "name_of c args \<noteq> ''EXEC''"
  shows "store_run (touched (name_of c args) (DB cc) args) w
    (snd (snd (Dispatch (Suc n) c args cc w)))"
proof (cases args)
  case (Cons a rest)
  then show ?thesis
    using command_touched [of _ "Dispatch n" "signatures c" cc args w c] assms
    by (auto simp: Cons Dispatch_Cons registry_lookup run_refl split: option.split) metis+
qed (simp add: run_refl)

text \<open>A queued command: the database that is selected when it runs can be any.\<close>

definition touched_anywhere :: "ctx \<Rightarrow> Value list \<Rightarrow> key_id set" where
  "touched_anywhere c q =
     (if name_of c q \<in> {''FLUSHALL'', ''FLUSHDB''} then UNIV else {kd. fst kd \<in> str ` set (drop 1 q)})"

definition affected :: "ctx \<Rightarrow> ClientConn \<Rightarrow> Value list \<Rightarrow> key_id set" where
  "affected c cc args =
     (if name_of c args = ''EXEC'' then (\<Union>q \<in> set (QueuedCmds cc). touched_anywhere c q)
      else touched (name_of c args) (DB cc) args)"

lemma touched_subset: "touched (name_of c q) db q \<subseteq> touched_anywhere c q"
  by (auto simp: touched_def touched_anywhere_def named_keys_def)

lemma drained_touched:
  assumes "QueuedCmds cc = []"
  shows "store_run (touched_anywhere c q) w (snd (snd (Dispatch (Suc n) c q cc w)))"
proof (cases "name_of c q = ''EXEC''")
  case True
  then show ?thesis using assms by (cases q) (simp_all add: Dispatch_Cons lookup_exec cmdExec_def run_refl)
next
  case False
  then show ?thesis using run_mono [OF Dispatch_touched touched_subset] by blast
qed

lemma exec_loop_touched:
  assumes "QueuedCmds cc = []"
  shows "store_run (\<Union>q \<in> set qs. touched_anywhere c q) w (snd (snd (exec_loop (Dispatch (Suc n)) c qs rs cc w)))"
  using assms
proof (induction qs arbitrary: rs cc w)
  case (Cons q qs)
  obtain r cc' w' where d: "Dispatch (Suc n) c q cc w = (r, cc', w')"
    by (cases "Dispatch (Suc n) c q cc w") auto
  have "QueuedCmds cc' = []"
    using drained.tame_Dispatch [of "Suc n", unfolded drained.tame_def, rule_format, of cc w c q]
      Cons.prems d by simp
  from Cons.IH [OF this] have "store_run (\<Union>q \<in> set (q # qs). touched_anywhere c q) w'
      (snd (snd (exec_loop (Dispatch (Suc n)) c qs rs' cc' w')))" for rs'
    by (rule run_mono) auto
  moreover have "store_run (\<Union>q \<in> set (q # qs). touched_anywhere c q) w w'"
    using run_mono [OF drained_touched [OF Cons.prems, of c q w n]] d by auto
  ultimately show ?case using d by (cases r) (simp_all, blast intro: run_trans)
qed (simp add: run_refl)

lemma Dispatch_affected: "store_run (affected c cc args) w (snd (snd (Dispatch (Suc (Suc n)) c args cc w)))"
proof (cases "name_of c args = ''EXEC''")
  case True
  show ?thesis
  proof (cases args)
    case (Cons a rest)
    show ?thesis
      using True exec_loop_touched [of "cc\<lparr>InMulti := False, QueuedCmds := []\<rparr>" c "QueuedCmds cc" w n "[]"]
      by (simp add: Cons Dispatch_Cons lookup_exec cmdExec_def affected_def run_refl)
  qed (simp add: run_refl)
qed (simp add: affected_def Dispatch_touched)

section \<open>A concrete connection\<close>

definition base_ctx :: ctx where
  "base_ctx = \<lparr>hasStore = True, upperU = (\<lambda>s. s), lowerU = (\<lambda>s. s), quoteU = (\<lambda>s. s),
     constraintText = (\<lambda>s. s), startTime = 0\<rparr>"

definition in_multi :: "Value list list \<Rightarrow> ClientConn" where
  "in_multi qs = (NewClientConn True)\<lparr>InMulti := True, QueuedCmds := qs\<rparr>"

lemma lookup_ping: "map_of (registry c disp) ''PING'' = Some (cmd ''PING'' 1 2 (plain cmdPing))"
  by (simp add: registry_lookup commands_def init_server_def)

lemma name_simps [simp]:
  "upperStr ''ping'' = ''PING''" "upperStr ''exec'' = ''EXEC''" "upperStr ''get'' = ''GET''"
  "name_of base_ctx (BulkString ''ping'' # rest) = ''PING''"
  "name_of base_ctx (BulkString ''get'' # rest) = ''GET''"
  "name_of base_ctx (BulkString ''del'' # rest) = ''DEL''"
  by (simp_all add: name_of_def BulkString_def base_ctx_def) code_simp+

section \<open>Theorems\<close>

text \<open>C22. \<^verbatim>\<open>Dispatch\<close> always returns: two levels of the recursion through \<^verbatim>\<open>EXEC\<close> are enough for every
  state and every queue (a nested \<^verbatim>\<open>EXEC\<close> finds an empty queue), and more fuel changes nothing.\<close>

theorem dispatch_terminates:
  "fst (Dispatch 2 c args cc w) \<noteq> Deep \<and> Dispatch (Suc (Suc n)) c args cc w = Dispatch 2 c args cc w"
proof
  show "Dispatch (Suc (Suc n)) c args cc w = Dispatch 2 c args cc w"
    using Dispatch_fuel [of n c args cc w 0] by (simp add: numeral_2_eq_2)
  show "fst (Dispatch 2 c args cc w) \<noteq> Deep"
  proof (cases "args = [] \<or> name_of c args \<noteq> ''EXEC''")
    case True
    then show ?thesis using Dispatch_typed [of args c 1 cc w]
      by (cases "args = []") (auto simp: numeral_2_eq_2 typed_result_def)
  next
    case False
    then obtain a rest where "args = a # rest" by (cases args) auto
    with False show ?thesis
      using exec_loop_result [of "cc\<lparr>InMulti := False, QueuedCmds := []\<rparr>" c "QueuedCmds cc" 0 "[]" w]
      by (auto simp: numeral_2_eq_2 Dispatch_Cons lookup_exec cmdExec_def)
  qed
qed

text \<open>C20. The type of every reply: a request, with whatever arguments, on whatever state and in whatever environment, is
  answered by an error or by a value of the type listed for its command (an unknown command by an error). \<^verbatim>\<open>EXEC\<close> is
  answered by an error, or by an array with one element for each queued command, in order, which is an error or
  has the type listed for that command. Only \<^verbatim>\<open>KEYS\<close>, and \<^verbatim>\<open>EXEC\<close> of a queue with a \<^verbatim>\<open>KEYS\<close>, can panic instead.\<close>

theorem dispatch_reply_types:
  assumes "args \<noteq> []"
  shows "(\<exists>v. fst (Dispatch 2 c args cc w) = Reply v \<and>
      vtyp v \<in> insert CHR ''-'' (reply_types (name_of c args)) \<and>
      (name_of c args = ''EXEC'' \<longrightarrow> IsError v \<or>
        list_all2 (\<lambda>q r. vtyp r \<in> insert CHR ''-'' (reply_types (name_of c q))) (QueuedCmds cc) (elems v))) \<or>
    (name_of c args = ''KEYS'' \<or> name_of c args = ''EXEC'' \<and> (\<exists>q \<in> set (QueuedCmds cc). name_of c q = ''KEYS'')) \<and>
      fst (Dispatch 2 c args cc w) = Crash"
proof (cases "name_of c args = ''EXEC''")
  case True
  obtain a rest where "args = a # rest" using assms by (cases args) auto
  with True show ?thesis
    using exec_loop_result [of "cc\<lparr>InMulti := False, QueuedCmds := []\<rparr>" c "QueuedCmds cc" 0 "[]" w]
    by (auto simp: numeral_2_eq_2 Dispatch_Cons lookup_exec cmdExec_def reply_types_exec typed_reply_def [abs_def]
        IsError_def Array_def)
next
  case False
  then show ?thesis using Dispatch_typed [OF assms False, of 1 cc w] by (auto simp: typed_result_def numeral_2_eq_2)
qed

theorem dispatch_reply_types_witness:
  "\<exists>v. fst (Dispatch 2 base_ctx [BulkString ''get'', BulkString ''k''] (NewClientConn True) (quiet 0)) = Reply v \<and>
     vtyp v \<in> {CHR ''-'', CHR ''$''}"
  using dispatch_reply_types [of "[BulkString ''get'', BulkString ''k'']" base_ctx "NewClientConn True" "quiet 0"]
  by (simp add: reply_types_def)

text \<open>Between \<^verbatim>\<open>MULTI\<close> and the end of the transaction a request that reaches \<^verbatim>\<open>QueueOrDispatch\<close> is queued or refused.\<close>

lemma queue_or_refuse:
  assumes "InMulti cc" "upperStr (str (hd args)) \<notin> {''EXEC'', ''DISCARD'', ''QUIT''}" "args \<noteq> []"
  shows "\<exists>v. QueueOrDispatch n c args cc w = (Reply v, cc, w) \<and> IsError v \<or>
    QueueOrDispatch n c args cc w =
      (Reply (SimpleString ''QUEUED''), cc\<lparr>QueuedCmds := QueuedCmds cc @ [args]\<rparr>, w) \<and> queueable args"
proof (cases "map_of (registry c (Dispatch n)) (upperStr (str (hd args)))")
  case None
  with assms show ?thesis by (auto simp: QueueOrDispatch_def Let_def hd_conv_nth IsError_def)
next
  case (Some cm)
  have "queueable args" if "upperStr (str (hd args)) \<noteq> ''MULTI''"
    using queueable_registered [of c "Dispatch n" "hd args" cm "tl args"] assms Some that by simp
  with Some assms show ?thesis by (auto simp: QueueOrDispatch_def Let_def hd_conv_nth IsError_def)
qed

text \<open>C18. \<^verbatim>\<open>EXEC\<close> is the queued commands sent one after the other outside a transaction: it replies with
  the array of exactly their replies, in their order, and leaves the connection and the store as they
  do; it fails to reply (a panic) exactly if one of them does.\<close>

theorem exec_is_sequence:
  assumes "InMulti cc" "queue_ok cc" "upperStr (str a) = ''EXEC''"
  shows "QueueOrDispatch 2 c [a] cc w = (Reply (Array vs), s) \<longleftrightarrow>
    send_all c (QueuedCmds cc) (cc\<lparr>InMulti := False, QueuedCmds := []\<rparr>) w = Some (vs, s)"
proof -
  have "''EXEC'' \<in> set command_names" by (simp add: command_names_def commands_def init_multi_def)
  then have "name_of c [a] = ''EXEC''" using assms(3) name_of_upper [of "[a]" c] by simp
  then have "QueueOrDispatch 2 c [a] cc w =
      exec_loop (Dispatch (Suc 0)) c (QueuedCmds cc) [] (cc\<lparr>InMulti := False, QueuedCmds := []\<rparr>) w"
    using assms by (simp add: QueueOrDispatch_def numeral_2_eq_2 Dispatch_Cons lookup_exec cmdExec_def)
  then show ?thesis
    using exec_loop_send_all [of "cc\<lparr>InMulti := False, QueuedCmds := []\<rparr>" "QueuedCmds cc" 0 c "[]" w vs s]
      assms(2) by (simp add: queue_ok_def)
qed

theorem exec_is_sequence_witness:
  "QueueOrDispatch 2 base_ctx [BulkString ''exec''] (in_multi [[BulkString ''ping'']]) (quiet 0) =
     (Reply (Array [SimpleString ''PONG'']), NewClientConn True, quiet 0)"
proof -
  have conn: "(in_multi [[BulkString ''ping'']])\<lparr>InMulti := False, QueuedCmds := []\<rparr> = NewClientConn True"
    by (simp add: in_multi_def NewClientConn_def)
  have "queue_ok (in_multi [[BulkString ''ping'']])"
    by (simp add: in_multi_def queue_ok_def queueable_def BulkString_def command_names_def commands_def init_server_def)
  moreover have "send_all base_ctx [[BulkString ''ping'']] (NewClientConn True) (quiet 0) =
      Some ([SimpleString ''PONG''], NewClientConn True, quiet 0)"
    by (simp add: QueueOrDispatch_def NewClientConn_def numeral_2_eq_2 Dispatch_Cons lookup_ping
        plain_def cmdPing_def reply_def)
  ultimately show ?thesis
    using exec_is_sequence [of "in_multi [[BulkString ''ping'']]" "BulkString ''exec''" base_ctx "quiet 0"
        "[SimpleString ''PONG'']" "(NewClientConn True, quiet 0)"] conn
    by (simp add: in_multi_def BulkString_def)
qed

text \<open>C19. Isolation of commands: on whatever state and in whatever environment, a command changes only rows of keys that its
  arguments name in the selected database, where \<^verbatim>\<open>FLUSHDB\<close> may change the whole selected database and \<^verbatim>\<open>FLUSHALL\<close>
  everything. \<^verbatim>\<open>EXEC\<close> changes only rows of keys that the arguments of a queued command name, in whatever database is
  selected when it runs, unless a \<^verbatim>\<open>FLUSHDB\<close> or \<^verbatim>\<open>FLUSHALL\<close> is queued.\<close>

theorem commands_isolated:
  assumes "kd \<notin> (if name_of c args = ''EXEC'' then (\<Union>q \<in> set (QueuedCmds cc). touched_anywhere c q)
    else touched (name_of c args) (DB cc) args)"
  shows "slice kd (tabs (snd (snd (Dispatch 2 c args cc w)))) = slice kd (tabs w)"
  using run_frame [OF Dispatch_affected [of c cc args w 0]] assms
  unfolding frame_def affected_def [symmetric] by (cases kd) (simp add: numeral_2_eq_2)

theorem commands_isolated_witness:
  "slice (''a'', 1) (tabs (snd (snd (Dispatch 2 base_ctx [BulkString ''del'', BulkString ''a'']
     (NewClientConn True) (quiet 0))))) = slice (''a'', 1) (tabs (quiet 0))"
  by (rule commands_isolated) (simp add: touched_def named_keys_def NewClientConn_def)

end
