(* ===== verification/Server_Laws.thy ===== *)
theory Server_Laws
  imports Server Transactions Resp_Codec
begin

text \<open>
  Properties of the connection handler: the invariant of all states the server reaches, what a client
  can do before it has logged in, that every request is answered, what is deferred inside \<^verbatim>\<open>MULTI\<close>, what a publication
  delivers, that the loop of a connection ends with its input, and how the reply to an unknown command can be split.
\<close>

section \<open>Frame lemmas\<close>

lemma str_BulkString [simp]: "str (BulkString s) = s"
  by (simp add: BulkString_def)

lemma on_conn_fields [simp]:
  "broker (on_conn i f st) = broker st" "world_of (on_conn i f st) = world_of st"
  "crashed (on_conn i f st) = crashed st"
  "conns (on_conn i f st) j = (if j = i then map_option f (conns st i) else conns st j)"
  by (simp_all add: on_conn_def)

lemma Write_fields [simp]:
  "broker (Write i v st) = broker st" "world_of (Write i v st) = world_of st"
  "crashed (Write i v st) = crashed st"
  "conns (Write i v st) j = (if j = i then map_option (send v) (conns st i) else conns st j)"
  by (simp_all add: Write_def)

lemma leave_all_fields [simp]:
  "world_of (leave_all i st) = world_of st" "crashed (leave_all i st) = crashed st"
  "conns (leave_all i st) = conns st"
  "broker (leave_all i st) = snd (Unsubscribe (map_order st) '''' i (broker st))"
  by (simp_all add: leave_all_def)

lemma disconnect_fields [simp]:
  "world_of (disconnect i st) = world_of st" "crashed (disconnect i st) = crashed st"
  "broker (disconnect i st) = snd (Unsubscribe (map_order st) '''' i (broker st))"
  "conns (disconnect i st) j =
     (if j = i then map_option (\<lambda>k. k\<lparr>isOpen := False\<rparr>) (conns st i) else conns st j)"
  by (simp_all add: disconnect_def)

lemma send_simps [simp]:
  "cc (send v k) = cc k" "input (send v k) = input k" "isOpen (send v k) = isOpen k"
  "isOpen k \<Longrightarrow> sent (send v k) = sent k @ [v]"
  by (simp_all add: send_def)

section \<open>The invariant\<close>

text \<open>A connection that has not logged in is in its initial state.\<close>

definition conn_ok :: "conn \<Rightarrow> bool" where
  "conn_ok k \<longleftrightarrow> 0 \<le> DB (cc k) \<and> DB (cc k) \<le> 15 \<and> queue_ok (cc k) \<and>
     (\<not> Authenticated (cc k) \<longrightarrow> cc k = NewClientConn False)"

definition server_ok :: "server \<Rightarrow> bool" where
  "server_ok st \<longleftrightarrow> reachable (world_of st) \<and> broker_ok (broker st) \<and>
     (\<forall>i k. conns st i = Some k \<longrightarrow> conn_ok k)"

lemma server_okD:
  assumes "server_ok st"
  shows "reachable (world_of st)" "broker_ok (broker st)" "conns st i = Some k \<Longrightarrow> conn_ok k"
  using assms by (simp_all add: server_ok_def)

lemma conn_ok_cc: "cc k' = cc k \<Longrightarrow> conn_ok k' = conn_ok k"
  by (simp add: conn_ok_def)

lemma conn_ok_new: "conn_ok (new_conn cfg inp)"
  by (simp add: conn_ok_def new_conn_def NewClientConn_def queue_ok_def)

lemma ok_on_conn:
  assumes "server_ok st" "\<And>k. conn_ok k \<Longrightarrow> conn_ok (f k)" shows "server_ok (on_conn i f st)"
  using assms by (auto simp: server_ok_def split: if_splits)

lemma ok_keeps_cc:
  "server_ok st \<Longrightarrow> (\<And>k. cc (f k) = cc k) \<Longrightarrow> server_ok (on_conn i f st)"
  by (rule ok_on_conn) (simp_all add: conn_ok_def)

lemma ok_Write [simp, intro]: "server_ok st \<Longrightarrow> server_ok (Write i v st)"
  unfolding Write_def by (rule ok_keeps_cc) simp_all

lemma ok_broker: "server_ok st \<Longrightarrow> broker_ok b \<Longrightarrow> server_ok (st\<lparr>broker := b\<rparr>)"
  by (simp add: server_ok_def)

lemma ok_leave_all [simp, intro]: "server_ok st \<Longrightarrow> server_ok (leave_all i st)"
  unfolding leave_all_def by (simp add: ok_broker server_ok_def broker_ok_Unsubscribe)

lemma ok_disconnect: "server_ok st \<Longrightarrow> server_ok (disconnect i st)"
  unfolding disconnect_def by (simp add: ok_keeps_cc)

lemma ok_subscribe_one: "server_ok st \<Longrightarrow> server_ok (subscribe_one i a st)"
  unfolding subscribe_one_def
  using broker_ok_Subscribe [of "broker st" "str a" i] server_okD(2) [of st]
  by (auto split: prod.split intro!: ok_Write ok_keeps_cc ok_broker)

lemma ok_unsubscribe_one: "server_ok st \<Longrightarrow> server_ok (unsubscribe_one i a st)"
  unfolding unsubscribe_one_def
  using broker_ok_Unsubscribe [of "broker st" "map_order st" "str a" i] server_okD(2) [of st]
  by (auto split: prod.split intro!: ok_Write ok_keeps_cc ok_broker)

lemma ok_unsubscribe_all: "server_ok st \<Longrightarrow> server_ok (unsubscribe_all i st)"
  unfolding unsubscribe_all_def by (simp add: ok_keeps_cc)

lemma ok_fold: "(\<And>a st. server_ok st \<Longrightarrow> server_ok (f a st)) \<Longrightarrow> server_ok st \<Longrightarrow> server_ok (fold f as st)"
  by (induction as arbitrary: st) simp_all

lemma ok_publish: "server_ok st \<Longrightarrow> server_ok (publish i args st)"
  unfolding publish_def
  by (auto split: prod.split intro!: ok_Write ok_fold [of Deliver] simp: Deliver_def)

section \<open>Commands of a connection\<close>

lemma with_store_upper [simp]: "upperU (with_store cfg c) = upperU c"
  by (simp add: with_store_def WithStore_def)

lemma name_of_with_store [simp]: "name_of (with_store cfg c) args = name_of c args"
  by (simp add: name_of_def)

lemma name_of_nth: "args \<noteq> [] \<Longrightarrow> ToUpper (upperU c) (str (args ! 0)) = name_of c args"
  by (simp add: name_of_def hd_conv_nth)

lemma lookup_quit: "map_of (registry c disp) ''QUIT'' = Some (cmd ''QUIT'' 1 1 (plain cmdQuit))"
  by (simp add: registry_lookup commands_def init_server_def)

lemma quit_effect:
  assumes "args \<noteq> []" "name_of c args = ''QUIT''"
  shows "\<exists>v. QueueOrDispatch 2 c args (NewClientConn a) w = (Reply v, NewClientConn a, w)"
  using assms by (cases args) (simp_all add: QueueOrDispatch_def NewClientConn_def numeral_2_eq_2
      Dispatch_Cons lookup_quit plain_def cmdQuit_def reply_def)

lemma request_conn_ok:
  assumes "conn_ok k" "QueueOrDispatch 2 c args (cc k) w = (r, k', w')" "args \<noteq> []"
    and "Authenticated (cc k) \<or> name_of c args = ''QUIT''"
  shows "conn_ok (k2\<lparr>cc := k'\<rparr>)"
proof (cases "Authenticated (cc k)")
  case True
  then show ?thesis
    using assms database.request_S [where cc = "cc k" and w = w and n = 2 and c = c and args = args]
      login.request_S [where cc = "cc k" and w = w and n = 2 and c = c and args = args]
      queue.request_S [where cc = "cc k" and w = w and n = 2 and c = c and args = args]
    by (simp add: conn_ok_def)
next
  case False
  then show ?thesis using assms quit_effect [of args c False w] by (auto simp: conn_ok_def)
qed

lemma request_reachable:
  assumes "QueueOrDispatch 2 c args k w = (r, k', w')" "reachable w"
  shows "reachable w'"
  using run_reachable [OF store_side.request_S [where cc = k and w = w and n = 2 and c = c and args = args,
        simplified]] assms by simp

lemma ok_world: "server_ok st \<Longrightarrow> reachable w \<Longrightarrow> server_ok (st\<lparr>world_of := w\<rparr>)"
  and ok_crashed: "server_ok st \<Longrightarrow> server_ok (st\<lparr>crashed := b\<rparr>)"
  by (simp_all add: server_ok_def)

lemma ok_run_command:
  assumes "server_ok st" "conn_ok k" "args \<noteq> []"
    and "Authenticated (cc k) \<or> name_of c args = ''QUIT''"
  shows "server_ok (run_command cfg c i args k st)"
proof -
  obtain r k' w' where run: "QueueOrDispatch 2 (with_store cfg c) args (cc k) (world_of st) = (r, k', w')"
    by (cases "QueueOrDispatch 2 (with_store cfg c) args (cc k) (world_of st)") auto
  have "reachable w'" by (rule request_reachable [OF run server_okD(1) [OF assms(1)]])
  moreover have "conn_ok (k2\<lparr>cc := k'\<rparr>)" for k2
    by (rule request_conn_ok [OF assms(2) run]) (use assms in simp_all)
  ultimately show ?thesis
    using assms(1) unfolding run_command_def run
    by (auto simp: Let_def split: reply.split
        intro!: ok_disconnect ok_Write ok_on_conn ok_world ok_crashed [OF ok_world, simplified])
qed

lemma ok_auth: "conn_ok k \<Longrightarrow> conn_ok (k2\<lparr>cc := snd (handleAuth cfg args (cc k))\<rparr>)"
  by (auto simp: conn_ok_def handleAuth_def queue_ok_def)

lemma ok_serve:
  assumes "server_ok st" "conn_ok k"
  shows "server_ok (serve cfg c i v k st)"
  using assms ok_auth [OF assms(2)]
  by (auto simp: serve_def Let_def name_of_nth case_prod_beta
      intro!: ok_Write ok_fold ok_subscribe_one ok_unsubscribe_one ok_unsubscribe_all ok_publish
        ok_run_command ok_on_conn)

lemma ok_iterate: "server_ok st \<Longrightarrow> server_ok (iterate cfg c i st)"
  unfolding iterate_def
  by (auto split: option.split rd.split dest: server_okD(3)
      intro!: ok_disconnect ok_keeps_cc ok_serve ok_crashed)

lemma ok_step: "server_step cfg c st st' \<Longrightarrow> server_ok st \<Longrightarrow> server_ok st'"
proof (induction rule: server_step.induct)
  case (step_accept st i inp)
  then show ?case by (auto simp: accept_def server_ok_def conn_ok_new)
next
  case (step_sweep st)
  then show ?case using call_SweepExpired reachable.call server_okD(1)
    unfolding sweep_def by (blast intro: ok_world)
next
  case (step_env w st)
  then show ?case using reachable.other server_okD(1) by (blast intro: ok_world)
qed (rule ok_iterate)

lemma reachable_server_ok: "server_reachable cfg c st \<Longrightarrow> server_ok st"
proof (induction rule: server_reachable.induct)
  case (start w)
  then show ?case by (simp add: server_ok_def new_server_def broker_ok_New reachable.init)
qed (rule ok_step)

section \<open>What the handling of a request leaves alone\<close>

text \<open>\<open>observes g\<close>: the step leaves the observation \<open>g\<close> of every connection alone.\<close>

definition observes :: "(conn \<Rightarrow> 'o) \<Rightarrow> server \<Rightarrow> server \<Rightarrow> bool" where
  "observes g st st' \<longleftrightarrow> (\<forall>j. map_option g (conns st' j) = map_option g (conns st j))"

lemma observes_refl: "observes g st st"
  and observes_trans: "observes g st st' \<Longrightarrow> observes g st' st'' \<Longrightarrow> observes g st st''"
  by (simp_all add: observes_def)

lemma observes_on_conn: "(\<And>k. g (f k) = g k) \<Longrightarrow> observes g st (on_conn i f st)"
  by (auto simp: observes_def option.map_comp comp_def)

lemma observes_fold:
  assumes "\<And>a st. observes g st (f a st)" shows "observes g st (fold f as st)"
  by (induction as arbitrary: st) (auto intro: observes_refl observes_trans assms)

definition wiring :: "conn \<Rightarrow> ClientConn \<times> string \<times> bool" where
  "wiring k = (cc k, input k, isOpen k)"

lemma observes_Write: "observes wiring st (Write i v st)"
  unfolding Write_def by (rule observes_on_conn) (simp add: wiring_def)

lemma observes_subscribe: "observes wiring st (subscribe_one i a st)"
  "observes wiring st (unsubscribe_one i a st)"
  by (auto simp: observes_def subscribe_one_def unsubscribe_one_def wiring_def [abs_def] option.map_comp comp_def
      split: prod.split)

lemma observes_unsubscribe_all: "observes wiring st (unsubscribe_all i st)"
  by (auto simp: observes_def unsubscribe_all_def wiring_def [abs_def] option.map_comp comp_def)

lemma observes_publish: "observes wiring st (publish i args st)"
proof -
  have "observes wiring st (Write i v (fold Deliver ms st))" for v ms
    by (rule observes_trans [OF observes_fold observes_Write])
      (simp add: Deliver_def observes_Write split: prod.split)
  then show ?thesis by (simp add: publish_def observes_Write split: prod.split)
qed

section \<open>Answers\<close>

text \<open>\<open>grows i n\<close>: connection \<open>i\<close>, if it is open, stays open and is sent at least \<open>n\<close> values more.\<close>

definition grows :: "nat \<Rightarrow> nat \<Rightarrow> server \<Rightarrow> server \<Rightarrow> bool" where
  "grows i n st st' \<longleftrightarrow> (\<forall>k. conns st i = Some k \<longrightarrow> isOpen k \<longrightarrow>
     (\<exists>k' rs. conns st' i = Some k' \<and> isOpen k' \<and> sent k' = sent k @ rs \<and> n \<le> length rs))"

lemma grows_refl: "grows i 0 st st"
  by (simp add: grows_def)

lemma grows_trans: "grows i m st st' \<Longrightarrow> grows i n st' st'' \<Longrightarrow> grows i (m + n) st st''"
  unfolding grows_def by (fastforce simp: add_mono)

lemma grows_Write: "grows i 1 st (Write i v st)"
  by (simp add: grows_def)

lemma grows_Write_any: "grows i 0 st (Write j v st)"
  by (auto simp: grows_def send_def)

lemma grows_subscribe: "grows i 1 st (subscribe_one i a st)" "grows i 1 st (unsubscribe_one i a st)"
  by (auto simp: grows_def subscribe_one_def unsubscribe_one_def split: prod.split)

lemma grows_fold:
  assumes "\<And>a st. grows i n st (f a st)" shows "grows i (n * length as) st (fold f as st)"
proof (induction as arbitrary: st)
  case (Cons a as)
  then show ?case using grows_trans [OF assms [of st a] Cons.IH] by (simp add: algebra_simps)
qed (simp add: grows_refl)

lemma grows_publish: "grows i 1 st (publish i args st)"
proof -
  have "grows i 0 st (fold Deliver ms st)" for ms
    using grows_fold [of i 0 Deliver ms st] by (simp add: Deliver_def grows_Write_any split: prod.split)
  from grows_trans [OF this grows_Write] show ?thesis
    using grows_Write [of i st] by (simp add: publish_def split: prod.split)
qed

lemma run_command_answers:
  assumes "conns st i = Some k" "isOpen k" "args \<noteq> []"
  shows "crashed (run_command cfg c i args k0 st) \<or>
    (\<exists>k' v. conns (run_command cfg c i args k0 st) i = Some k' \<and> sent k' = sent k @ [v])"
  using assms
  by (auto simp: run_command_def Let_def split: prod.split reply.split)

lemma serve_answers:
  assumes k: "conns st i = Some k" "isOpen k" and args: "toArgs v \<noteq> []"
    and sub: "name_of c (toArgs v) = ''SUBSCRIBE'' \<longrightarrow> length (toArgs v) > 1 \<or> \<not> Authenticated (cc k0)"
  shows "crashed (serve cfg c i v k0 st) \<or>
    (\<exists>k' rs. conns (serve cfg c i v k0 st) i = Some k' \<and> sent k' = sent k @ rs \<and> rs \<noteq> [])"
proof -
  have one: "\<exists>k' rs. conns st' i = Some k' \<and> sent k' = sent k @ rs \<and> rs \<noteq> []"
    if "grows i n st st'" "0 < n" for n st'
    using that k unfolding grows_def by fastforce
  have len: "0 < length (drop 1 (toArgs v))" if "length (toArgs v) > 1" using that by simp
  have cmd: "crashed (run_command cfg c i (toArgs v) k0 st) \<or>
      (\<exists>k' rs. conns (run_command cfg c i (toArgs v) k0 st) i = Some k' \<and> sent k' = sent k @ rs \<and> rs \<noteq> [])"
    using run_command_answers [OF k args, of cfg c k0] by fastforce
  have long: "length (toArgs v) > 1" if "length (toArgs v) \<noteq> 1" using that args by (cases "toArgs v") auto
  show ?thesis
    using k args sub cmd one [OF grows_publish] long
      one [OF grows_fold [where as = "drop 1 (toArgs v)" and f = "subscribe_one i", OF grows_subscribe(1)]]
      one [OF grows_fold [where as = "drop 1 (toArgs v)" and f = "unsubscribe_one i", OF grows_subscribe(2)]]
    by (simp add: serve_def Let_def name_of_nth case_prod_beta unsubscribe_all_def) auto
qed

section \<open>Progress\<close>

text \<open>Handling a request of connection \<open>i\<close> does not change the input of any connection.\<close>

lemma observes_run_command: "observes input st (run_command cfg c i args k st)"
  by (auto simp: observes_def run_command_def Let_def option.map_comp comp_def split: prod.split reply.split)

lemma observes_input: "observes wiring st st' \<Longrightarrow> observes input st st'"
proof -
  assume "observes wiring st st'"
  then have "map_option (fst \<circ> snd \<circ> wiring) (conns st' j) = map_option (fst \<circ> snd \<circ> wiring) (conns st j)" for j
    unfolding observes_def by (metis option.map_comp)
  then show ?thesis by (simp add: observes_def wiring_def comp_def)
qed

lemma observes_serve: "observes input st (serve cfg c i v k st)"
proof -
  have "observes input st (Write i r (on_conn i (\<lambda>k. k\<lparr>cc := k'\<rparr>) st))" for r k'
    by (auto simp: observes_def option.map_comp comp_def)
  then show ?thesis
    by (simp add: serve_def Let_def case_prod_beta observes_refl observes_run_command observes_input
        observes_Write observes_fold observes_subscribe observes_unsubscribe_all observes_publish)
qed

lemma iterate_progress:
  assumes "conns st i = Some k" "isOpen k" "\<not> crashed st"
  shows "crashed (iterate cfg c i st) \<or> (\<exists>k'. conns (iterate cfg c i st) i = Some k' \<and>
    (\<not> isOpen k' \<or> length (input k') < length (input k)))"
proof (cases "ReadValue (input k)")
  case (Ok v rest)
  let ?st = "on_conn i (\<lambda>k. k\<lparr>input := rest\<rparr>) st"
  have "map_option input (conns (serve cfg c i v k ?st) i) = Some rest"
    using observes_serve [of ?st cfg c i v k] assms(1) by (simp add: observes_def)
  moreover have "length rest < length (input k)" by (rule ReadValue_length [OF Ok])
  ultimately show ?thesis using assms Ok by (auto simp: iterate_def)
qed (use assms in \<open>auto simp: iterate_def\<close>)

definition finished :: "nat \<Rightarrow> server \<Rightarrow> bool" where
  "finished i st \<longleftrightarrow> crashed st \<or> (\<exists>k. conns st i = Some k \<and> \<not> isOpen k)"

lemma finished_iterate: "finished i st \<Longrightarrow> iterate cfg c i st = st"
  by (auto simp: finished_def iterate_def split: option.split)

lemma iterate_until:
  "conns st i = Some k \<Longrightarrow> length (input k) < n \<Longrightarrow> finished i ((iterate cfg c i ^^ n) st)"
proof (induction n arbitrary: st k)
  case (Suc n)
  show ?case
  proof (cases "finished i st")
    case True
    then have "(iterate cfg c i ^^ m) st = st" for m
      by (induction m) (simp_all add: finished_iterate)
    with True show ?thesis by (simp only:)
  next
    case False
    then have "isOpen k" "\<not> crashed st" using Suc.prems by (auto simp: finished_def)
    from iterate_progress [OF Suc.prems(1) this, of cfg c]
    consider "finished i (iterate cfg c i st)"
      | k' where "conns (iterate cfg c i st) i = Some k'" "length (input k') < n"
      using Suc.prems(2) by (auto simp: finished_def)
    then have "finished i ((iterate cfg c i ^^ n) (iterate cfg c i st))"
    proof cases
      case 1
      then have "(iterate cfg c i ^^ m) (iterate cfg c i st) = iterate cfg c i st" for m
        by (induction m) (simp_all add: finished_iterate)
      with 1 show ?thesis by (simp only:)
    qed (rule Suc.IH)
    then show ?thesis by (simp add: funpow_swap1)
  qed
qed simp

section \<open>Publications\<close>

lemma send_twice: "isOpen k \<Longrightarrow> send v (k\<lparr>sent := sent k @ us\<rparr>) = k\<lparr>sent := sent k @ us @ [v]\<rparr>"
  by (simp add: send_def)

lemma deliver_all:
  assumes "conns st j = Some k" "isOpen k"
  shows "conns (fold Deliver (map (\<lambda>s. (s, ch, msg)) ss) st) j =
    Some (k\<lparr>sent := sent k @ replicate (count_list ss j)
      (Array [BulkString ''message'', BulkString ch, BulkString msg])\<rparr>)"
  using assms
proof (induction ss arbitrary: st k)
  case (Cons s ss)
  let ?m = "Array [BulkString ''message'', BulkString ch, BulkString msg]"
  show ?case
  proof (cases "s = j")
    case True
    then have "conns (Deliver (s, ch, msg) st) j = Some (k\<lparr>sent := sent k @ [?m]\<rparr>)"
      using Cons.prems by (simp add: Deliver_def send_def)
    from Cons.IH [OF this] show ?thesis using True Cons.prems(2) by simp
  next
    case False
    then have "conns (Deliver (s, ch, msg) st) j = Some k"
      using Cons.prems by (simp add: Deliver_def)
    from Cons.IH [OF this Cons.prems(2)] show ?thesis using False by simp
  qed
qed simp

section \<open>Which requests can fail\<close>

lemma QueueOrDispatch_replies:
  assumes "args \<noteq> []" "name_of c args \<notin> {''KEYS'', ''EXEC''}"
  shows "\<exists>v. fst (QueueOrDispatch 2 c args k w) = Reply v"
  using Dispatch_typed [of args c 1 k w] assms
  by (auto simp: QueueOrDispatch_def Let_def numeral_2_eq_2 typed_result_def split: option.split)

lemma run_command_survives:
  assumes "args \<noteq> []" "name_of c args \<notin> {''KEYS'', ''EXEC''}"
  shows "crashed (run_command cfg c i args k st) = crashed st"
  using QueueOrDispatch_replies [of args "with_store cfg c" "cc k" "world_of st"] assms
  by (auto simp: run_command_def Let_def split: prod.split if_splits)

lemma publish_survives: "crashed (publish i args st) = crashed st"
proof -
  have "crashed (fold Deliver ms st) = crashed st" for ms
    by (induction ms arbitrary: st) (simp_all add: Deliver_def case_prod_beta)
  then show ?thesis by (simp add: publish_def split: prod.split)
qed

lemma fold_survives:
  "crashed (fold (subscribe_one i) as st) = crashed st"
  "crashed (fold (unsubscribe_one i) as st) = crashed st"
  by (induction as arbitrary: st) (simp_all add: subscribe_one_def unsubscribe_one_def split: prod.split)

lemma serve_survives:
  assumes "name_of c (toArgs v) \<notin> {''KEYS'', ''EXEC''}"
  shows "crashed (serve cfg c i v k st) = crashed st"
  using assms
  by (simp add: serve_def Let_def case_prod_beta name_of_nth publish_survives fold_survives
      run_command_survives unsubscribe_all_def)

lemma lookup_unknown: "name \<notin> set command_names \<Longrightarrow> map_of (registry c disp) name = None"
  by (rule ccontr) (metis imageI map_Name_commands not_None_eq registry_lookup set_map)

section \<open>Requests inside a transaction\<close>

text \<open>The connection enters or leaves the state between \<^verbatim>\<open>MULTI\<close> and \<^verbatim>\<open>EXEC\<close>, its queue kept.\<close>

definition set_multi :: "bool \<Rightarrow> conn \<Rightarrow> conn" where
  "set_multi b k = k\<lparr>cc := (cc k)\<lparr>InMulti := b\<rparr>\<rparr>"

definition commutes :: "nat \<Rightarrow> (conn \<Rightarrow> conn) \<Rightarrow> (server \<Rightarrow> server) \<Rightarrow> bool" where
  "commutes i h F \<longleftrightarrow> (\<forall>st. F (on_conn i h st) = on_conn i h (F st))"

lemma on_conn_swap:
  "(\<And>k. f (h k) = h (f k)) \<Longrightarrow> on_conn j f (on_conn i h st) = on_conn i h (on_conn j f st)"
  by (auto simp: on_conn_def option.map_comp comp_def intro!: server.equality ext)

lemma on_conn_broker: "(on_conn i h st)\<lparr>broker := b\<rparr> = on_conn i h (st\<lparr>broker := b\<rparr>)"
  "map_order (on_conn i h st) = map_order st"
  by (simp_all add: on_conn_def map_order_def)

lemma set_multi_swap:
  "send v (set_multi b k) = set_multi b (send v k)"
  "(set_multi b k)\<lparr>subscribedChannels := cs (subscribedChannels (set_multi b k))\<rparr> =
     set_multi b (k\<lparr>subscribedChannels := cs (subscribedChannels k)\<rparr>)"
  by (simp_all add: send_def set_multi_def)

lemma commutes_Write: "commutes i (set_multi b) (Write j v)"
  unfolding commutes_def Write_def by (simp add: on_conn_swap set_multi_swap)

lemma commutes_fold: "(\<And>a. commutes i h (f a)) \<Longrightarrow> commutes i h (fold f as)"
  by (induction as) (simp_all add: commutes_def)

lemma commutes_requests:
  "commutes i (set_multi b) (subscribe_one i a)" "commutes i (set_multi b) (unsubscribe_one i a)"
  "commutes i (set_multi b) (unsubscribe_all i)" "commutes i (set_multi b) (publish i args)"
proof -
  note W = commutes_Write [unfolded commutes_def, rule_format]
  have ch: "on_conn i (\<lambda>k. k\<lparr>subscribedChannels := cs (subscribedChannels k)\<rparr>) (on_conn i (set_multi b) st) =
      on_conn i (set_multi b) (on_conn i (\<lambda>k. k\<lparr>subscribedChannels := cs (subscribedChannels k)\<rparr>) st)" for cs st
    by (rule on_conn_swap) (rule set_multi_swap)
  show "commutes i (set_multi b) (subscribe_one i a)" "commutes i (set_multi b) (unsubscribe_one i a)"
    by (simp_all add: commutes_def subscribe_one_def unsubscribe_one_def on_conn_broker ch W split: prod.split)
  show "commutes i (set_multi b) (unsubscribe_all i)"
    using ch [of "\<lambda>_. []"]
    by (simp add: commutes_def unsubscribe_all_def leave_all_def on_conn_broker W)
  have "commutes i (set_multi b) (fold Deliver ms)" for ms
    by (rule commutes_fold) (simp add: Deliver_def commutes_Write split: prod.split)
  then show "commutes i (set_multi b) (publish i args)"
    by (simp add: commutes_def publish_def W split: prod.split)
qed

lemma commutes_back:
  assumes "commutes i (set_multi False) F" "observes wiring st (F st)" "conns st i = Some k" "InMulti (cc k)"
  shows "F st = on_conn i (set_multi True) (F (on_conn i (set_multi False) st))"
proof -
  obtain k' where "conns (F st) i = Some k'" "cc k' = cc k"
    using assms(2,3) by (auto simp: observes_def wiring_def dest!: spec [of _ i])
  with assms(1,4) show ?thesis
    by (auto simp: commutes_def on_conn_def set_multi_def fun_upd_idem)
qed

text \<open>The requests that the connection handler serves itself, whatever the state of the connection.\<close>

lemma serve_own:
  assumes "toArgs v \<noteq> []" "Authenticated (cc k)" "name_of c (toArgs v) \<in> {''SUBSCRIBE'', ''UNSUBSCRIBE'', ''PUBLISH''}"
  shows "\<exists>F. (\<forall>st. serve cfg c i v k st = F st \<and> serve cfg c i v (set_multi False k) st = F st \<and>
      observes wiring st (F st) \<and> world_of (F st) = world_of st) \<and> commutes i (set_multi False) F"
proof -
  have w: "world_of (fold f as st) = world_of st" if "\<And>a st. world_of (f a st) = world_of st"
    for f :: "'z \<Rightarrow> server \<Rightarrow> server" and as st
    using that by (induction as arbitrary: st) simp_all
  have ws: "world_of (subscribe_one i a st) = world_of st" "world_of (unsubscribe_one i a st) = world_of st" for a st
    by (simp_all add: subscribe_one_def unsubscribe_one_def split: prod.split)
  have wp: "world_of (publish i args st) = world_of st" for args st
    by (simp add: publish_def w Deliver_def split: prod.split)
  have wa: "world_of (unsubscribe_all i st) = world_of st" for st by (simp add: unsubscribe_all_def)
  let ?as = "drop 1 (toArgs v)"
  consider "name_of c (toArgs v) = ''SUBSCRIBE''" | "name_of c (toArgs v) = ''PUBLISH''"
    | "name_of c (toArgs v) = ''UNSUBSCRIBE''" "length (toArgs v) = 1"
    | "name_of c (toArgs v) = ''UNSUBSCRIBE''" "length (toArgs v) \<noteq> 1"
    using assms(3) by auto
  then show ?thesis
  proof cases
    case 1
    then show ?thesis using assms
      by (intro exI [of _ "fold (subscribe_one i) ?as"])
        (simp add: serve_def name_of_nth set_multi_def observes_fold observes_subscribe w ws commutes_fold commutes_requests)
  next
    case 2
    then show ?thesis using assms
      by (intro exI [of _ "publish i (toArgs v)"])
        (simp add: serve_def name_of_nth set_multi_def observes_publish wp commutes_requests)
  next
    case 3
    then show ?thesis using assms
      by (intro exI [of _ "unsubscribe_all i"])
        (simp add: serve_def name_of_nth set_multi_def observes_unsubscribe_all commutes_requests wa)
  next
    case 4
    then show ?thesis using assms
      by (intro exI [of _ "fold (unsubscribe_one i) ?as"])
        (simp add: serve_def name_of_nth set_multi_def observes_fold observes_subscribe w ws commutes_fold commutes_requests)
  qed
qed

lemma serve_own_multi:
  assumes "toArgs v \<noteq> []" "Authenticated (cc k)" "name_of c (toArgs v) \<in> {''AUTH'', ''SUBSCRIBE'', ''UNSUBSCRIBE'', ''PUBLISH''}"
    and "conns st i = Some k1" "cc k1 = cc k" "InMulti (cc k)" "st' = serve cfg c i v k st"
  shows "st' = on_conn i (set_multi True) (serve cfg c i v (set_multi False k) (on_conn i (set_multi False) st)) \<and>
    world_of st' = world_of st \<and>
    (\<exists>k'. conns st' i = Some k' \<and> InMulti (cc k') \<and> QueuedCmds (cc k') = QueuedCmds (cc k))"
proof (cases "name_of c (toArgs v) = ''AUTH''")
  case True
  with assms show ?thesis
    by (auto simp: serve_def name_of_nth handleAuth_def Let_def on_conn_def Write_def set_multi_def send_def
        intro!: server.equality)
next
  case False
  then obtain F where F: "\<And>st. serve cfg c i v k st = F st" "\<And>st. serve cfg c i v (set_multi False k) st = F st"
    "observes wiring st (F st)" "world_of (F st) = world_of st" "commutes i (set_multi False) F"
    using serve_own [of v k c cfg i] assms(1-3) by auto
  obtain k' where "conns (F st) i = Some k'" "cc k' = cc k"
    using F(3) assms(4,5) by (auto simp: observes_def wiring_def dest!: spec [of _ i])
  moreover have "F st = on_conn i (set_multi True) (F (on_conn i (set_multi False) st))"
    by (rule commutes_back [OF F(5,3) assms(4)]) (simp add: assms(5,6))
  ultimately show ?thesis unfolding assms(7) F(1,2) using F(4) assms(6) by metis
qed

lemma run_command_multi:
  assumes "args \<noteq> []" "InMulti (cc k)" "name_of c args \<notin> {''EXEC'', ''DISCARD'', ''QUIT''}"
    and "conns st i = Some k1" "isOpen k1" "st' = run_command cfg c i args k st"
  shows "\<exists>r k'. st' = on_conn i (\<lambda>_. k1\<lparr>cc := k', sent := sent k1 @ [r]\<rparr>) st \<and>
    (IsError r \<and> k' = cc k \<or> r = SimpleString ''QUEUED'' \<and> k' = (cc k)\<lparr>QueuedCmds := QueuedCmds (cc k) @ [args]\<rparr>)"
proof -
  have name: "upperStr (str (hd args)) \<notin> {''EXEC'', ''DISCARD'', ''QUIT''}"
    using assms(3) ToUpper_upperStr [of "str (hd args)" "upperU c"] by (auto simp: name_of_def ascii_def)
  obtain r k' where r: "QueueOrDispatch 2 (with_store cfg c) args (cc k) (world_of st) = (Reply r, k', world_of st)"
    "IsError r \<and> k' = cc k \<or> r = SimpleString ''QUEUED'' \<and> k' = (cc k)\<lparr>QueuedCmds := QueuedCmds (cc k) @ [args]\<rparr>"
    using queue_or_refuse [OF assms(2) name assms(1), of 2 "with_store cfg c" "world_of st"] by blast
  have "st' = on_conn i (\<lambda>_. k1\<lparr>cc := k', sent := sent k1 @ [r]\<rparr>) st"
    using assms r(1) by (simp add: run_command_def Let_def name_of_nth Write_def on_conn_def send_def)
  with r(2) show ?thesis by blast
qed

section \<open>Concrete servers\<close>

definition guarded :: ServerConfig where
  "guarded = \<lparr>Addr = '':6379'', Password = ''secret'', TLSConfig = False, Store = True\<rparr>"

definition open_config :: ServerConfig where
  "open_config = \<lparr>Addr = '':6379'', Password = '''', TLSConfig = False, Store = True\<rparr>"

text \<open>A server to which one client has connected that sends \<open>vs\<close>.\<close>

definition one_client :: "ServerConfig \<Rightarrow> Value list \<Rightarrow> server" where
  "one_client cfg vs = accept cfg 0 (concat (map encode vs)) (new_server (quiet 0))"

lemma one_client_reachable: "server_reachable cfg c (one_client cfg vs)"
  unfolding one_client_def
  by (rule server_reachable.move [OF server_reachable.start server_step.step_accept])
    (simp_all add: quiet_def new_server_def)

lemma one_client_conn: "conns (one_client cfg vs) 0 = Some (new_conn cfg (concat (map encode vs)))"
  "world_of (one_client cfg vs) = quiet 0" "\<not> crashed (one_client cfg vs)"
  by (simp_all add: one_client_def accept_def new_server_def)

lemma read_first: "wire_ok v \<Longrightarrow> ReadValue (concat (map encode (v # vs))) = Ok v (concat (map encode vs))"
  using ReadValue_encode [of v] by simp

section \<open>Theorems\<close>

text \<open>In every state the server reaches (any clients sending any bytes, interleaved request by
  request, the background sweep, any failures of the database), the tables satisfy the schema's
  constraints, every connection has selected a database from 0 to 15 and has queued only commands
  that may be queued, outside \<^verbatim>\<open>MULTI\<close> none at all, and a connection that has not logged in is still
  in its initial state.\<close>

theorem server_invariant:
  assumes "server_reachable cfg c st"
  shows "schema_ok (tabs (world_of st)) \<and> (\<forall>i k. conns st i = Some k \<longrightarrow>
    0 \<le> DB (cc k) \<and> DB (cc k) \<le> 15 \<and> queue_ok (cc k) \<and>
    (\<not> Authenticated (cc k) \<longrightarrow> cc k = NewClientConn False))"
  using reachable_server_ok [OF assms] by (auto simp: server_ok_def conn_ok_def reachable_schema)

theorem server_invariant_witness:
  "schema_ok (tabs (world_of (iterate open_config base_ctx 0
     (one_client open_config [Array [BulkString ''SET'', BulkString ''k'', BulkString ''v'']]))))"
  using server_invariant [OF server_reachable.move [OF one_client_reachable server_step.step_conn]]
  by blast

text \<open>C24. Before login: a request of a connection that has not logged in, other than \<^verbatim>\<open>AUTH\<close>, leaves the
  store, the other connections and the subscriptions of others as they are, does not crash the
  server and does not change the connection's own command state.\<close>

theorem auth_required:
  assumes "server_reachable cfg c st" "conns st i = Some k" "\<not> Authenticated (cc k)"
    and "ReadValue (input k) = Ok v rest" "toArgs v = [] \<or> name_of c (toArgs v) \<noteq> ''AUTH''"
    and "st' = iterate cfg c i st"
  shows "world_of st' = world_of st \<and> crashed st' = crashed st \<and>
    (\<forall>j. j \<noteq> i \<longrightarrow> conns st' j = conns st j) \<and>
    (\<forall>ch. filter (\<lambda>j. j \<noteq> i) (chan (broker st') ch) = filter (\<lambda>j. j \<noteq> i) (chan (broker st) ch)) \<and>
    (\<exists>k'. conns st' i = Some k' \<and> cc k' = cc k)"
proof -
  have ok: "server_ok st" by (rule reachable_server_ok [OF assms(1)])
  then have fresh: "cc k = NewClientConn False" using assms(2,3) by (auto simp: server_ok_def conn_ok_def)
  have others: "filter (\<lambda>j. j \<noteq> i) (remove1 i xs) = filter (\<lambda>j. j \<noteq> i) xs" for xs
    by (induction xs) auto
  have quit: "\<exists>r. QueueOrDispatch 2 (with_store cfg c) (toArgs v) (NewClientConn False) w =
      (Reply r, NewClientConn False, w)" if "toArgs v \<noteq> []" "name_of c (toArgs v) = ''QUIT''" for w
    using quit_effect [OF that(1), of "with_store cfg c" False w] that(2) by simp
  show ?thesis
  proof (cases "\<not> isOpen k \<or> crashed st")
    case True
    then show ?thesis using assms(2,6) by (auto simp: iterate_def)
  next
    case False
    then have st': "st' = serve cfg c i v k (on_conn i (\<lambda>k. k\<lparr>input := rest\<rparr>) st)"
      using assms(2,4,6) by (simp add: iterate_def)
    show ?thesis
    proof (cases "toArgs v \<noteq> [] \<and> name_of c (toArgs v) = ''QUIT''")
      case True
      then obtain r where "QueueOrDispatch 2 (with_store cfg c) (toArgs v) (NewClientConn False) (world_of st) =
          (Reply r, NewClientConn False, world_of st)" using quit by blast
      then show ?thesis
        using True assms(2,3) fresh server_okD(2) [OF ok]
        by (simp add: st' serve_def Let_def name_of_nth run_command_def others)
    next
      case False
      then show ?thesis
        using assms(2,3,5) by (auto simp: st' serve_def Let_def name_of_nth)
    qed
  qed
qed

theorem auth_required_witness:
  "world_of (iterate guarded base_ctx 0 (one_client guarded [Array [BulkString ''get'', BulkString ''k'']])) = quiet 0"
proof -
  let ?v = "Array [BulkString ''get'', BulkString ''k'']"
  have "wire_ok ?v" by (simp add: value_defs maxAlloc_def)
  note rd = read_first [OF this, of "[]"]
  show ?thesis
    using auth_required [OF one_client_reachable one_client_conn(1) _ _ _ refl, of guarded "[?v]" ?v _ base_ctx] rd
    by (simp add: new_conn_def NewClientConn_def guarded_def toArgs_def one_client_conn(2) Array_def
        del: writeValue.simps)
qed

text \<open>C27. Only the password logs a connection in: if a turn of a connection's loop makes it authenticated,
  the request was \<^verbatim>\<open>AUTH\<close> with the configured password (or no password is configured).\<close>

theorem login_needs_password:
  assumes "conns st i = Some k" "\<not> Authenticated (cc k)"
    and "conns (iterate cfg c i st) i = Some k'" "Authenticated (cc k')"
  shows "\<exists>v rest. ReadValue (input k) = Ok v rest \<and> name_of c (toArgs v) = ''AUTH'' \<and>
    2 \<le> length (toArgs v) \<and> (Password cfg = '''' \<or> str (toArgs v ! 1) = Password cfg)"
proof -
  have "isOpen k" "\<not> crashed st" using assms by (auto simp: iterate_def split: if_splits)
  then obtain v rest where v: "ReadValue (input k) = Ok v rest"
    using assms by (cases "ReadValue (input k)") (auto simp: iterate_def)
  let ?st = "on_conn i (\<lambda>k. k\<lparr>input := rest\<rparr>) st"
  have serve: "conns (serve cfg c i v k ?st) i = Some k'"
    using assms(1,3) v \<open>isOpen k\<close> \<open>\<not> crashed st\<close> by (simp add: iterate_def)
  have same: "Authenticated (fst (snd (QueueOrDispatch 2 (with_store cfg c) (toArgs v) (cc k) w))) =
      Authenticated (cc k)" for w
    using login.request_S [where cc = "cc k" and n = 2 and c = "with_store cfg c"] by simp
  have "toArgs v \<noteq> []" using serve assms by (auto simp: serve_def)
  moreover have "name_of c (toArgs v) = ''AUTH''"
  proof (rule ccontr)
    assume n: "name_of c (toArgs v) \<noteq> ''AUTH''"
    with serve assms(1,2,4) \<open>toArgs v \<noteq> []\<close> same [of "world_of st"] show False
      by (auto simp: serve_def Let_def name_of_nth run_command_def
          split: if_splits prod.splits reply.splits)
  qed
  ultimately show ?thesis
    using serve assms v by (auto simp: serve_def Let_def name_of_nth handleAuth_def split: if_splits)
qed

theorem login_needs_password_witness:
  "\<exists>v rest. ReadValue (encode (Array [BulkString ''auth'', BulkString ''secret''])) = Ok v rest \<and>
     2 \<le> length (toArgs v) \<and> str (toArgs v ! 1) = ''secret''"
proof -
  let ?v = "Array [BulkString ''auth'', BulkString ''secret'']"
  let ?k = "new_conn guarded (encode ?v)"
  have name: "ToUpper (upperU base_ctx) ''auth'' = ''AUTH''" by code_simp
  have "wire_ok ?v" by (simp add: value_defs maxAlloc_def)
  then have rd: "ReadValue (encode ?v) = Ok ?v []" using ReadValue_encode [of ?v "[]"] by simp
  have fresh: "\<not> Authenticated (cc ?k)" by (simp add: new_conn_def NewClientConn_def guarded_def)
  have "conns (iterate guarded base_ctx 0 (one_client guarded [?v])) 0 =
      Some (?k\<lparr>input := [], cc := (cc ?k)\<lparr>Authenticated := True\<rparr>, sent := [SimpleString ''OK'']\<rparr>)"
    using rd one_client_conn [of guarded "[?v]"] name
    by (simp add: iterate_def serve_def Let_def toArgs_def Array_def BulkString_def handleAuth_def
        new_conn_def NewClientConn_def guarded_def send_def del: writeValue.simps)
  from login_needs_password [OF one_client_conn(1) _ this] fresh show ?thesis
    by (auto simp: guarded_def new_conn_def simp del: writeValue.simps)
qed

text \<open>C21. Inside \<^verbatim>\<open>MULTI\<close> commands are deferred: the next request of a connection that has logged in and is between
  \<^verbatim>\<open>MULTI\<close> and the end of the transaction, other than \<^verbatim>\<open>EXEC\<close>, \<^verbatim>\<open>DISCARD\<close> and \<^verbatim>\<open>QUIT\<close>, leaves the store as it is and cannot
  crash the server. \<^verbatim>\<open>AUTH\<close>, \<^verbatim>\<open>SUBSCRIBE\<close>, \<^verbatim>\<open>UNSUBSCRIBE\<close> and \<^verbatim>\<open>PUBLISH\<close> are not deferred: they have at once exactly the effect,
  on all connections and subscriptions, that they have outside a transaction, and the transaction stays open with the same
  queue. Every other request sends this connection one reply and changes nothing of the others: it is refused with an
  error and the queue stays as it is, or it is answered \<^verbatim>\<open>QUEUED\<close> and added at the end of the queue.\<close>

theorem multi_defers:
  assumes "conns st i = Some k" "isOpen k" "\<not> crashed st" "Authenticated (cc k)" "InMulti (cc k)"
    and "ReadValue (input k) = Ok v rest" "toArgs v \<noteq> []" "name = name_of c (toArgs v)"
    and "name \<notin> {''EXEC'', ''DISCARD'', ''QUIT''}" "st' = iterate cfg c i st"
  shows "world_of st' = world_of st \<and> \<not> crashed st' \<and>
    (if name \<in> {''AUTH'', ''SUBSCRIBE'', ''UNSUBSCRIBE'', ''PUBLISH''}
     then st' = on_conn i (set_multi True) (iterate cfg c i (on_conn i (set_multi False) st)) \<and>
       (\<exists>k'. conns st' i = Some k' \<and> InMulti (cc k') \<and> QueuedCmds (cc k') = QueuedCmds (cc k))
     else broker st' = broker st \<and> (\<forall>j. j \<noteq> i \<longrightarrow> conns st' j = conns st j) \<and>
       (\<exists>r k'. conns st' i = Some (k\<lparr>cc := k', input := rest, sent := sent k @ [r]\<rparr>) \<and>
         (IsError r \<and> k' = cc k \<or>
          r = SimpleString ''QUEUED'' \<and> k' = (cc k)\<lparr>QueuedCmds := QueuedCmds (cc k) @ [toArgs v]\<rparr>)))"
proof -
  let ?st = "on_conn i (\<lambda>k. k\<lparr>input := rest\<rparr>) st"
  have st': "st' = serve cfg c i v k ?st" using assms by (simp add: iterate_def)
  have k1: "conns ?st i = Some (k\<lparr>input := rest\<rparr>)" using assms(1) by simp
  show ?thesis
  proof (cases "name \<in> {''AUTH'', ''SUBSCRIBE'', ''UNSUBSCRIBE'', ''PUBLISH''}")
    case True
    have it: "iterate cfg c i (on_conn i (set_multi False) st) =
        serve cfg c i v (set_multi False k) (on_conn i (set_multi False) ?st)"
      using assms on_conn_swap [of "\<lambda>k. k\<lparr>input := rest\<rparr>" "set_multi False" i i st]
      by (simp add: iterate_def set_multi_def)
    have "cc (k\<lparr>input := rest\<rparr>) = cc k" by simp
    note own = serve_own_multi [OF assms(7,4) True [unfolded assms(8)] k1 this assms(5) st', folded it, unfolded on_conn_fields(2)]
    moreover have "\<not> crashed st'" using serve_survives [of c v cfg i k ?st] True assms(3,8) by (auto simp: st')
    ultimately show ?thesis unfolding if_P [OF True] by blast
  next
    case False
    then have "st' = run_command cfg c i (toArgs v) k ?st"
      using assms(4,7,8) by (simp add: st' serve_def Let_def name_of_nth)
    from run_command_multi [OF assms(7,5) _ k1 _ this] assms(2,8,9) obtain r k' where
      "st' = on_conn i (\<lambda>_. k\<lparr>input := rest, cc := k', sent := sent k @ [r]\<rparr>) ?st"
      "IsError r \<and> k' = cc k \<or> r = SimpleString ''QUEUED'' \<and> k' = (cc k)\<lparr>QueuedCmds := QueuedCmds (cc k) @ [toArgs v]\<rparr>"
      by auto
    moreover from this(1) have "conns st' i = Some (k\<lparr>cc := k', input := rest, sent := sent k @ [r]\<rparr>)"
      "broker st' = broker st" "world_of st' = world_of st" "crashed st' = crashed st" "\<And>j. j \<noteq> i \<Longrightarrow> conns st' j = conns st j"
      using assms(1) by simp_all
    ultimately show ?thesis unfolding if_not_P [OF False] using assms(3) by blast
  qed
qed

text \<open>A client that has sent \<^verbatim>\<open>MULTI\<close> and whose next request is \<open>v\<close>.\<close>

definition multi_client :: "Value \<Rightarrow> server" where
  "multi_client v = on_conn 0 (set_multi True) (one_client open_config [v])"

theorem multi_defers_witness:
  "\<exists>r k'. conns (iterate open_config base_ctx 0 (multi_client (Array [BulkString ''get'', BulkString ''k'']))) 0 = Some k' \<and>
     sent k' = [r] \<and> (IsError r \<or> r = SimpleString ''QUEUED'')"
proof -
  let ?v = "Array [BulkString ''get'', BulkString ''k'']"
  let ?k = "set_multi True (new_conn open_config (encode ?v))"
  have "wire_ok ?v" by (simp add: value_defs maxAlloc_def)
  then have rd: "ReadValue (input ?k) = Ok ?v []"
    using ReadValue_encode [of ?v "[]"] by (simp add: set_multi_def new_conn_def del: writeValue.simps)
  have "conns (multi_client ?v) 0 = Some ?k" by (simp add: multi_client_def one_client_conn del: writeValue.simps)
  from multi_defers [OF this _ _ _ _ rd _ refl _ refl, of base_ctx open_config]
  show ?thesis
    by (auto simp: multi_client_def one_client_conn set_multi_def new_conn_def NewClientConn_def open_config_def
        toArgs_def Array_def simp del: writeValue.simps)
qed

text \<open>C25. Every request is answered: a turn of the loop of an open connection that decodes a request other
  than a \<^verbatim>\<open>SUBSCRIBE\<close> without channels sends that connection at least one value after what it had been
  sent before; only \<^verbatim>\<open>KEYS\<close> and \<^verbatim>\<open>EXEC\<close> can crash the server instead.\<close>

theorem request_answered:
  assumes "conns st i = Some k" "isOpen k" "\<not> crashed st"
    and "ReadValue (input k) = Ok v rest" "toArgs v \<noteq> []"
    and "name_of c (toArgs v) = ''SUBSCRIBE'' \<longrightarrow> length (toArgs v) > 1"
  shows "(\<exists>k' rs. conns (iterate cfg c i st) i = Some k' \<and> sent k' = sent k @ rs \<and> rs \<noteq> []) \<or>
    crashed (iterate cfg c i st) \<and> name_of c (toArgs v) \<in> {''KEYS'', ''EXEC''}"
proof -
  let ?st = "on_conn i (\<lambda>k. k\<lparr>input := rest\<rparr>) st"
  have run: "iterate cfg c i st = serve cfg c i v k ?st"
    using assms(1-4) by (simp add: iterate_def)
  have "crashed (serve cfg c i v k ?st) \<or>
      (\<exists>k' rs. conns (serve cfg c i v k ?st) i = Some k' \<and> sent k' = sent (k\<lparr>input := rest\<rparr>) @ rs \<and> rs \<noteq> [])"
    by (rule serve_answers) (use assms in auto)
  moreover have "name_of c (toArgs v) \<in> {''KEYS'', ''EXEC''}" if "crashed (serve cfg c i v k ?st)"
    using serve_survives [of c v cfg i k ?st] that assms(3) by auto
  ultimately show ?thesis by (auto simp: run)
qed

theorem request_answered_witness:
  "(\<exists>k' rs. conns (iterate guarded base_ctx 0 (one_client guarded [Array [BulkString ''get'', BulkString ''k'']])) 0
       = Some k' \<and> sent k' = rs \<and> rs \<noteq> [])"
proof -
  let ?v = "Array [BulkString ''get'', BulkString ''k'']"
  have "wire_ok ?v" by (simp add: value_defs maxAlloc_def)
  note rd = read_first [OF this, of "[]"]
  have args: "toArgs ?v = [BulkString ''get'', BulkString ''k'']" by (simp add: toArgs_def Array_def)
  have "(\<exists>k' rs. conns (iterate guarded base_ctx 0 (one_client guarded [?v])) 0 = Some k' \<and>
        sent k' = sent (new_conn guarded (concat (map encode [?v]))) @ rs \<and> rs \<noteq> []) \<or>
      crashed (iterate guarded base_ctx 0 (one_client guarded [?v])) \<and>
      name_of base_ctx (toArgs ?v) \<in> {''KEYS'', ''EXEC''}"
    by (rule request_answered [OF one_client_conn(1) _ one_client_conn(3) _])
      (simp_all add: args, simp_all add: new_conn_def rd [simplified] del: writeValue.simps)
  then show ?thesis by (simp add: args new_conn_def)
qed

text \<open>A \<^verbatim>\<open>SUBSCRIBE\<close> without channels is the exception: it is not answered at all.\<close>

theorem subscribe_unanswered:
  assumes "Authenticated (cc k)" "name_of c [a] = ''SUBSCRIBE''"
  shows "serve cfg c i (Array [a]) k st = st"
  using assms by (simp add: serve_def toArgs_def Array_def name_of_def)

theorem subscribe_unanswered_witness:
  "serve open_config base_ctx 0 (Array [BulkString ''SUBSCRIBE'']) (new_conn open_config '''')
     (one_client open_config []) = one_client open_config []"
  by (rule subscribe_unanswered)
    (simp add: new_conn_def NewClientConn_def open_config_def, code_simp)

text \<open>C26. A publication reaches every subscription of the channel exactly once: each open connection is
  sent the message as often as it is subscribed to the channel, in addition the publisher is sent the
  number of subscriptions, and nobody is sent anything else.\<close>

theorem publish_delivers:
  assumes "Authenticated (cc k0)" "name_of c (toArgs v) = ''PUBLISH''" "3 \<le> length (toArgs v)"
    and "conns st j = Some k" "isOpen k"
    and "ch = str (toArgs v ! 1)" "msg = str (toArgs v ! 2)"
  shows "conns (serve cfg c i v k0 st) j = Some (k\<lparr>sent := sent k @
    replicate (count_list (chan (broker st) ch) j)
      (Array [BulkString ''message'', BulkString ch, BulkString msg]) @
    (if j = i then [Integer (int (length (chan (broker st) ch)))] else [])\<rparr>)"
proof -
  have "toArgs v \<noteq> []" using assms(3) by auto
  then have "serve cfg c i v k0 st = publish i (toArgs v) st"
    using assms(1,2) by (simp add: serve_def Let_def name_of_nth)
  also have "\<dots> = Write i (Integer (int (length (chan (broker st) ch))))
      (fold Deliver (map (\<lambda>s. (s, ch, msg)) (chan (broker st) ch)) st)"
    using assms(3,6,7) by (simp add: publish_def Publish_def Let_def)
  finally show ?thesis
    using deliver_all [OF assms(4,5), of ch msg "chan (broker st) ch"] assms(5)
    by (cases "j = i") (simp_all add: send_def)
qed

theorem publish_delivers_witness:
  "conns (serve open_config base_ctx 0
      (Array [BulkString ''PUBLISH'', BulkString ''ch'', BulkString ''hi''])
      (new_conn open_config '''')
      ((one_client open_config [])\<lparr>broker := \<lparr>subs = [(''ch'', [0])]\<rparr>\<rparr>)) 0 =
    Some ((new_conn open_config '''')\<lparr>sent :=
      [Array [BulkString ''message'', BulkString ''ch'', BulkString ''hi''], Integer 1]\<rparr>)"
proof -
  let ?v = "Array [BulkString ''PUBLISH'', BulkString ''ch'', BulkString ''hi'']"
  let ?st = "(one_client open_config [])\<lparr>broker := \<lparr>subs = [(''ch'', [0])]\<rparr>\<rparr>"
  have args: "toArgs ?v = [BulkString ''PUBLISH'', BulkString ''ch'', BulkString ''hi'']"
    by (simp add: toArgs_def Array_def)
  have "name_of base_ctx (toArgs ?v) = ''PUBLISH''" unfolding args by code_simp
  then show ?thesis
    using publish_delivers [of "new_conn open_config ''''" base_ctx ?v ?st 0 "new_conn open_config ''''"
        "''ch''" "''hi''" open_config 0]
    by (simp add: args one_client_conn new_conn_def NewClientConn_def open_config_def chan_def)
qed

text \<open>C28. The loop of a connection ends: however the client's bytes are chosen, after at most one turn more
  than there are bytes the connection is closed (or the server has crashed).\<close>

theorem connection_ends:
  assumes "conns st i = Some k"
  shows "let st' = (iterate cfg c i ^^ Suc (length (input k))) st
    in crashed st' \<or> (\<exists>k'. conns st' i = Some k' \<and> \<not> isOpen k')"
  using iterate_until [OF assms, of "Suc (length (input k))" cfg c] unfolding finished_def Let_def by simp

theorem connection_ends_witness:
  "crashed ((iterate guarded base_ctx 0 ^^ 1) (one_client guarded [])) \<or>
   (\<exists>k'. conns ((iterate guarded base_ctx 0 ^^ 1) (one_client guarded [])) 0 = Some k' \<and> \<not> isOpen k')"
  using connection_ends [OF one_client_conn(1) [of guarded "[]"], of guarded base_ctx]
  by (simp add: new_conn_def Let_def)

text \<open>C31. Error replies quote the client's command name as it is, so a name with line breaks splits the reply. Take the next
  request of a connection that has logged in and is not in \<^verbatim>\<open>MULTI\<close>, whose name is no command's and in lower case is
  \<open>x\<close>, a line break and \<open>y\<close>. The connection is sent one reply; but whatever comes after it on the wire, a client that
  follows the protocol reads an error that ends with \<open>x\<close>, and goes on reading at \<open>y\<close>: if \<open>y\<close> begins with the encoding of
  a value, which the client chose, it reads that value as a reply that no command made.\<close>

theorem error_reply_splits:
  assumes "conns st i = Some k" "isOpen k" "\<not> crashed st" "Authenticated (cc k)" "\<not> InMulti (cc k)"
    and "ReadValue (input k) = Ok v rest" "toArgs v \<noteq> []" "name = name_of c (toArgs v)"
    and "name \<notin> set command_names" "name \<notin> {''AUTH'', ''SUBSCRIBE'', ''UNSUBSCRIBE'', ''PUBLISH''}"
    and "ToLower (lowerU c) name = x @ crlf @ y" "CHR 0x0A \<notin> set x"
  shows "\<exists>r. conns (iterate cfg c i st) i = Some (k\<lparr>input := rest, sent := sent k @ [r]\<rparr>) \<and>
    (\<forall>more. ReadValue (encode r @ more) =
      Ok (Error (''ERR unknown command '' @ [CHR 0x60] @ x)) (y @ [CHR 0x60] @ crlf @ more)) \<and>
    (\<forall>u z more. wire_ok u \<and> y = encode u @ z \<longrightarrow>
      ReadValue (y @ [CHR 0x60] @ crlf @ more) = Ok u (z @ [CHR 0x60] @ crlf @ more))"
proof -
  let ?r = "Error (unknown_text (x @ crlf @ y))"
  have low: "lowerU (with_store cfg c) = lowerU c" by (simp add: with_store_def WithStore_def)
  have quit: "name \<noteq> ''QUIT''"
    using assms(9) lookup_unknown [of name c "Dispatch 1"] lookup_quit [of c "Dispatch 1"] by auto
  obtain a as where args: "toArgs v = a # as" using assms(7) by (cases "toArgs v") auto
  have "QueueOrDispatch 2 (with_store cfg c) (toArgs v) (cc k) w = (Reply ?r, cc k, w)" for w
    using assms(5,8,11) lookup_unknown [OF assms(9), of "with_store cfg c" "Dispatch 1"]
    by (simp add: QueueOrDispatch_def numeral_2_eq_2 args Dispatch_Cons low)
  then have "iterate cfg c i st = Write i ?r (on_conn i (\<lambda>k'. k'\<lparr>cc := cc k\<rparr>) (on_conn i (\<lambda>k. k\<lparr>input := rest\<rparr>) st))"
    using assms quit by (simp add: iterate_def serve_def Let_def name_of_nth run_command_def on_conn_def)
  then have "conns (iterate cfg c i st) i = Some (k\<lparr>input := rest, sent := sent k @ [?r]\<rparr>)"
    using assms(1,2) by (simp add: send_def)
  moreover have "ReadValue (encode ?r @ more) =
      Ok (Error (''ERR unknown command '' @ [CHR 0x60] @ x)) (y @ [CHR 0x60] @ crlf @ more)" for more
    using ReadValue_encode [of "Error (''ERR unknown command '' @ [CHR 0x60] @ x)" "y @ [CHR 0x60] @ crlf @ more"] assms(12)
    by (simp add: unknown_text_def value_defs)
  moreover have "ReadValue (y @ tl) = Ok u (z @ tl)" if "wire_ok u" "y = encode u @ z" for u z tl
    using ReadValue_encode [OF that(1), of "z @ tl"] that(2) by simp
  ultimately show ?thesis by blast
qed

text \<open>The name is \<open>x\<close>, a line break and the encoding of the integer 1.\<close>

theorem error_reply_splits_witness:
  "\<exists>r k'. conns (iterate open_config base_ctx 0 (one_client open_config [Array [BulkString (''x'' @ crlf @ '':1'' @ crlf)]])) 0 =
      Some k' \<and> sent k' = [r] \<and>
    ReadValue (encode r) = Ok (Error (''ERR unknown command '' @ [CHR 0x60] @ ''x'')) ('':1'' @ crlf @ [CHR 0x60] @ crlf) \<and>
    ReadValue ('':1'' @ crlf @ [CHR 0x60] @ crlf) = Ok (Integer 1) ([CHR 0x60] @ crlf)"
proof -
  let ?n = "''x'' @ crlf @ '':1'' @ crlf"
  let ?v = "Array [BulkString ?n]"
  let ?k = "new_conn open_config (concat (map encode [?v]))"
  have "wire_ok ?v" by (simp add: value_defs maxAlloc_def crlf_def)
  then have rd: "ReadValue (input ?k) = Ok ?v []"
    using read_first [of ?v "[]"] by (simp add: new_conn_def del: writeValue.simps)
  have args: "toArgs ?v = [BulkString ?n]" by (simp add: toArgs_def Array_def)
  have name: "name_of base_ctx (toArgs ?v) = ''X'' @ crlf @ '':1'' @ crlf" unfolding args by code_simp
  have new: "''X'' @ crlf @ '':1'' @ crlf \<notin> set command_names" using command_name_ok(3) by (force simp: crlf_def)
  have low: "ToLower (lowerU base_ctx) (''X'' @ crlf @ '':1'' @ crlf) = ''x'' @ crlf @ '':1'' @ crlf" by code_simp
  have k: "isOpen ?k" "Authenticated (cc ?k)" "\<not> InMulti (cc ?k)"
    by (simp_all add: new_conn_def NewClientConn_def open_config_def)
  have ne: "toArgs ?v \<noteq> []" unfolding args by simp
  have own: "''X'' @ crlf @ '':1'' @ crlf \<notin> {''AUTH'', ''SUBSCRIBE'', ''UNSUBSCRIBE'', ''PUBLISH''}" and nl: "CHR 0x0A \<notin> set ''x''"
    by simp_all
  have one: "wire_ok (Integer 1)" "'':1'' @ crlf = encode (Integer 1) @ []" by code_simp+
  obtain r where r: "conns (iterate open_config base_ctx 0 (one_client open_config [?v])) 0 =
      Some (?k\<lparr>input := [], sent := sent ?k @ [r]\<rparr>)"
    "\<And>more. ReadValue (encode r @ more) = Ok (Error (''ERR unknown command '' @ [CHR 0x60] @ ''x''))
        (('':1'' @ crlf) @ [CHR 0x60] @ crlf @ more)"
    "\<And>more. ReadValue (('':1'' @ crlf) @ [CHR 0x60] @ crlf @ more) = Ok (Integer 1) ([] @ [CHR 0x60] @ crlf @ more)"
    using error_reply_splits [OF one_client_conn(1) k(1) one_client_conn(3) k(2,3) rd ne name [symmetric] new own low nl, of open_config]
      one by blast
  show ?thesis using r(1) r(2) [of "[]"] r(3) [of "[]"] by (auto simp: new_conn_def simp del: writeValue.simps)
qed

end
