(* ===== verification/Sessions.thy ===== *)
theory Sessions
  imports Refine_Strings Server_Laws
begin

text \<open>
  What a client sees: bytes in, values out, through all layers of the program, from \<^verbatim>\<open>handleConn\<close> and the RESP reader over
  the registry and the handler to the store and its statements.
\<close>

section \<open>Actions do not change the environment\<close>

definition still :: "'a act \<Rightarrow> bool" where
  "still m \<longleftrightarrow> (\<forall>w. env (snd (m w)) = env w)"

lemma stillD: "still m \<Longrightarrow> m w = (r, w') \<Longrightarrow> env w' = env w"
  unfolding still_def by (metis snd_conv)

named_theorems still_rules

lemma still_basic [still_rules]: "still (ret a)" "still (fail x)" "still nowNs" "still (query q)" "still (exec s)"
  by (simp_all add: still_def ret_def fail_def nowNs_def query_def exec_def split: option.split sum.split)

lemma still_seq [still_rules]: "still m \<Longrightarrow> (\<And>a. still (f a)) \<Longrightarrow> still (seq m f)"
  unfolding still_def seq_def by (auto split: prod.split sum.split) (metis snd_conv)+

lemma still_attempt [still_rules]: "still m \<Longrightarrow> still (attempt m)"
  unfolding still_def attempt_def by (auto split: prod.split) (metis snd_conv)

lemma still_transact [still_rules]:
  assumes "still body" shows "still (transact body)"
  unfolding still_def
proof
  fix w
  obtain r1 w1 where 1: "exec (\<lambda>T. Inr (0, T)) w = (r1, w1)" by (meson surj_pair)
  obtain r2 w2 where 2: "body w1 = (r2, w2)" by (meson surj_pair)
  obtain r3 w3 where 3: "exec (\<lambda>T. Inr (0, T)) w2 = (r3, w3)" by (meson surj_pair)
  have "env w1 = env w" "env w2 = env w1" "env w3 = env w2"
    using stillD [OF still_basic(5) 1] stillD [OF assms 2] stillD [OF still_basic(5) 3] by simp_all
  then show "env (snd (transact body w)) = env w"
    by (cases r1; cases r2; cases r3) (simp_all add: transact_def 1 2 3 split: tx_end.split)
qed

lemma still_option [still_rules]:
  "still m \<Longrightarrow> (\<And>a. still (f a)) \<Longrightarrow> still (case x of None \<Rightarrow> m | Some a \<Rightarrow> f a)"
  by (simp split: option.split)

lemma still_if [still_rules]: "still m \<Longrightarrow> still m' \<Longrightarrow> still (if b then m else m')"
  by simp

lemma still_store [still_rules]:
  "still nowMs" "still m \<Longrightarrow> still (scan_or z m)" "still (deleteExpired key db)" "still (assertType key db want)"
  "still (upsertKey key db ty ex)"
  by (auto simp: nowMs_def scan_or_def deleteExpired_def assertType_def keyType_def upsertKey_def
      intro!: still_rules split: sum.split)

lemma still_Get: "still (Get key db)"
  unfolding Get_def by (intro still_rules)

lemma still_Set: "still (Set key db v opts)"
  unfolding Set_def by (intro still_rules)

lemma calm_still: "still m \<Longrightarrow> calm t w \<Longrightarrow> calm t (snd (m w))"
  by (simp add: still_def calm_def)

section \<open>A request that a handler of the store answers\<close>

text \<open>A connection that has logged in and is not in a transaction.\<close>

definition ready :: "server \<Rightarrow> nat \<Rightarrow> conn \<Rightarrow> bool" where
  "ready st i k \<longleftrightarrow> conns st i = Some k \<and> isOpen k \<and> \<not> crashed st \<and> Authenticated (cc k) \<and> \<not> InMulti (cc k)"

definition request :: "string list \<Rightarrow> Value" where
  "request ss = Array (map BulkString ss)"

lemma toArgs_request: "toArgs (request ss) = map BulkString ss"
  by (simp add: request_def toArgs_def Array_def)

definition own_names :: "string list" where
  "own_names = [''AUTH'', ''SUBSCRIBE'', ''UNSUBSCRIBE'', ''PUBLISH'', ''QUIT'']"

lemma iterate_store_command:
  assumes "ready st i k" "Store cfg" "input k = encode (request (n # ss)) @ rest" "wire_ok (request (n # ss))"
    and "ToUpper (upperU c) n = name" "name \<notin> set own_names"
    and "map_of (registry (with_store cfg c) (Dispatch 1)) name = Some (cmd name mn mx (withStore h))"
    and "mn \<le> Suc (length ss)" "mx < 0 \<or> int (length ss) < mx"
    and "h (WithStore c) (DB (cc k)) (map BulkString (n # ss)) (world_of st) = (Reply r, w')"
  shows "iterate cfg c i st =
    st\<lparr>conns := (conns st)(i \<mapsto> k\<lparr>input := rest, sent := sent k @ [r]\<rparr>), world_of := w'\<rparr>"
proof -
  let ?args = "map BulkString (n # ss)"
  have rd: "ReadValue (input k) = Ok (request (n # ss)) rest" using ReadValue_encode [OF assms(4)] assms(3) by simp
  have "Dispatch 2 (with_store cfg c) ?args (cc k) (world_of st) = (Reply r, cc k, w')"
    using assms(2,5,7-) by (auto simp: numeral_2_eq_2 Dispatch_Cons withStore_def with_store_def WithStore_def cmd_def name_of_def)
  then have run: "run_command cfg c i ?args k' st' =
      Write i r (on_conn i (\<lambda>k. k\<lparr>cc := cc k'\<rparr>) (st'\<lparr>world_of := w'\<rparr>))"
    if "cc k' = cc k" "world_of st' = world_of st" for k' st'
    using that assms(1,5,6) by (simp add: run_command_def QueueOrDispatch_def ready_def own_names_def)
  have "serve cfg c i (request (n # ss)) k st' = run_command cfg c i ?args k st'" for st'
    using assms(1,5,6) by (simp add: serve_def toArgs_request ready_def own_names_def)
  then show ?thesis
    using assms(1) rd run
    by (simp add: iterate_def ready_def Write_def on_conn_def send_def)
qed

lemma lookup_set: "map_of (registry c disp) ''SET'' = Some (cmd ''SET'' 3 (-1) (withStore cmdSet))"
  and lookup_get: "map_of (registry c disp) ''GET'' = Some (cmd ''GET'' 2 2 (withStore cmdGet))"
  by (simp_all add: registry_lookup commands_def init_strings_def cmd_def)

section \<open>Setting and getting\<close>

text \<open>A key that \<^verbatim>\<open>SET\<close> accepts: absent, expired, or a string.\<close>

definition settable :: "keyspace \<Rightarrow> key_id \<Rightarrow> bool" where
  "settable ks kd \<longleftrightarrow> (\<forall>ex v. ks kd = Some (ex, v) \<longrightarrow> kind v = ''string'')"

lemma run_cmdSet:
  assumes "calm t w" "store_ok (tabs w)" "settable (view t (tabs w)) (key, db)"
  obtains w' where "cmdSet c db (map BulkString [n, key, val]) w = (Reply (SimpleString ''OK''), w')"
    "calm t w'" "store_ok (tabs w')" "view t (tabs w') = (view t (tabs w))((key, db) \<mapsto> (None, RString val))"
proof
  let ?w = "snd (Set key db val noSetOptions w)"
  have "(fst (Set key db val noSetOptions w), view t (tabs ?w)) =
      typed_spec ''string'' (key, db) (set_spec t (key, db) val noSetOptions) (view t (tabs w))"
    using refines_Set [of t key db val noSetOptions] assms(1,2) by (simp add: refines_def)
  also have "\<dots> = (Inr True, (view t (tabs w))((key, db) \<mapsto> (None, RString val)))"
    using assms(3) by (auto simp: typed_spec_def set_spec_def noSetOptions_def bind_def alive_def settable_def
        split: option.split)
  finally have r: "fst (Set key db val noSetOptions w) = Inr True"
    and v: "view t (tabs ?w) = (view t (tabs w))((key, db) \<mapsto> (None, RString val))" by simp_all
  show "cmdSet c db (map BulkString [n, key, val]) w = (Reply (SimpleString ''OK''), ?w)"
    using r by (cases "Set key db val noSetOptions w") (simp add: cmdSet_def arg_def call_def reply_def ret_def)
  show "calm t ?w" using calm_still [OF still_Set assms(1)] .
  show "store_ok (tabs ?w)" by (rule call_ok [OF call_Set calm_steady [OF assms(1)] assms(2)])
  show "view t (tabs ?w) = (view t (tabs w))((key, db) \<mapsto> (None, RString val))" by (rule v)
qed

lemma run_cmdGet:
  assumes "calm t w" "store_ok (tabs w)" "view t (tabs w) (key, db) = Some (ex, RString val)"
  obtains w' where "cmdGet c db (map BulkString [n, key]) w = (Reply (BulkString val), w')"
    "view t (tabs w') = view t (tabs w)"
proof
  let ?w = "snd (Get key db w)"
  have "(fst (Get key db w), view t (tabs ?w)) = typed_spec ''string'' (key, db) (get_spec (key, db)) (view t (tabs w))"
    using refines_Get [of t key db] assms(1,2) by (simp add: refines_def)
  then have r: "fst (Get key db w) = Inr (val, True)" and v: "view t (tabs ?w) = view t (tabs w)"
    using assms(3) by (simp_all add: typed_spec_def get_spec_def)
  show "cmdGet c db (map BulkString [n, key]) w = (Reply (BulkString val), ?w)"
    using r by (cases "Get key db w") (simp add: cmdGet_def arg_def call_def reply_def)
  show "view t (tabs ?w) = view t (tabs w)" by (rule v)
qed

section \<open>Property\<close>

text \<open>C2. What is set can be read back over the wire: when the bytes of a \<^verbatim>\<open>SET key value\<close> and a \<^verbatim>\<open>GET key\<close> have arrived on
  a connection that has logged in, for any key that holds no other type and any value, then two turns of the loop consume
  exactly these bytes and answer \<^verbatim>\<open>OK\<close> and the value; the key now has this value and no expiry, every other key of every
  database is as before, and other connections are not touched.\<close>

theorem set_get_wire:
  assumes "ready st i k" "Store cfg" "calm t (world_of st)" "store_ok (tabs (world_of st))"
    and "settable (view t (tabs (world_of st))) (key, DB (cc k))"
    and "input k = encode (request [n1, key, val]) @ encode (request [n2, key]) @ rest"
    and "wire_ok (request [n1, key, val])" "wire_ok (request [n2, key])"
    and "ToUpper (upperU c) n1 = ''SET''" "ToUpper (upperU c) n2 = ''GET''"
    and "st' = iterate cfg c i (iterate cfg c i st)"
  shows "conns st' = (conns st)(i \<mapsto> k\<lparr>input := rest, sent := sent k @ [SimpleString ''OK'', BulkString val]\<rparr>) \<and>
    view t (tabs (world_of st')) = (view t (tabs (world_of st)))((key, DB (cc k)) \<mapsto> (None, RString val)) \<and>
    \<not> crashed st'"
proof -
  let ?kd = "(key, DB (cc k))"
  obtain w1 where w1: "cmdSet (WithStore c) (DB (cc k)) (map BulkString [n1, key, val]) (world_of st) =
      (Reply (SimpleString ''OK''), w1)" "calm t w1" "store_ok (tabs w1)"
    "view t (tabs w1) = (view t (tabs (world_of st)))(?kd \<mapsto> (None, RString val))"
    by (rule run_cmdSet [OF assms(3-5)])
  let ?k1 = "k\<lparr>input := encode (request [n2, key]) @ rest, sent := sent k @ [SimpleString ''OK'']\<rparr>"
  let ?st1 = "st\<lparr>conns := (conns st)(i \<mapsto> ?k1), world_of := w1\<rparr>"
  have 1: "iterate cfg c i st = ?st1"
    by (rule iterate_store_command [OF assms(1,2,6,7,9) _ lookup_set]) (use w1(1) in \<open>simp_all add: own_names_def\<close>)
  have "view t (tabs w1) ?kd = Some (None, RString val)" using w1(4) by simp
  then obtain w2 where w2: "cmdGet (WithStore c) (DB (cc k)) (map BulkString [n2, key]) w1 = (Reply (BulkString val), w2)"
    "view t (tabs w2) = view t (tabs w1)" by (rule run_cmdGet [OF w1(2,3)])
  have r: "ready ?st1 i ?k1" using assms(1) by (simp add: ready_def)
  have "iterate cfg c i ?st1 = ?st1\<lparr>conns := (conns ?st1)(i \<mapsto> ?k1\<lparr>input := rest, sent := sent ?k1 @ [BulkString val]\<rparr>),
      world_of := w2\<rparr>"
    by (rule iterate_store_command [OF r assms(2) _ assms(8,10) _ lookup_get]) (use w2(1) in \<open>simp_all add: own_names_def\<close>)
  then show ?thesis using assms(1,11) 1 w1(4) w2(2) by (simp add: ready_def)
qed

theorem set_get_wire_witness:
  "map_option sent (conns (iterate open_config base_ctx 0 (iterate open_config base_ctx 0
      (one_client open_config [request [''set'', ''k'', ''v''], request [''GET'', ''k'']]))) 0) =
    Some [SimpleString ''OK'', BulkString ''v'']"
proof -
  let ?vs = "[request [''set'', ''k'', ''v''], request [''GET'', ''k'']]"
  let ?k = "new_conn open_config (concat (map encode ?vs))"
  have "ready (one_client open_config ?vs) 0 ?k"
    by (simp add: ready_def one_client_conn new_conn_def NewClientConn_def open_config_def)
  moreover have "input ?k = encode (request [''set'', ''k'', ''v'']) @ encode (request [''GET'', ''k'']) @ []"
    by (simp add: new_conn_def)
  moreover have "calm 0 (quiet 0)" by (simp add: calm_def quiet_def)
  moreover have "store_ok (tabs (quiet 0))" by (simp add: quiet_def empty_ok)
  moreover have "settable (view 0 (tabs (quiet 0))) (''k'', DB (cc ?k))"
    by (simp add: settable_def view_def quiet_def empty_tables_def)
  moreover have "wire_ok (request [''set'', ''k'', ''v''])" "wire_ok (request [''GET'', ''k''])"
    by (simp_all add: request_def Array_def BulkString_def maxAlloc_def)
  moreover have "ToUpper (upperU base_ctx) ''set'' = ''SET''" "ToUpper (upperU base_ctx) ''GET'' = ''GET''"
    by code_simp+
  ultimately have "conns (iterate open_config base_ctx 0 (iterate open_config base_ctx 0 (one_client open_config ?vs))) =
      (conns (one_client open_config ?vs))(0 \<mapsto> ?k\<lparr>input := [], sent := sent ?k @ [SimpleString ''OK'', BulkString ''v'']\<rparr>)"
    by (intro set_get_wire [THEN conjunct1]) (simp_all add: one_client_conn open_config_def)
  then show ?thesis by (simp add: new_conn_def)
qed

end
