(* ===== verification/Config.thy ===== *)
theory Config
  imports Server Go_Format
begin

text \<open>
  The configuration, \<^verbatim>\<open>src/internal/config/config.go\<close>, and the sweep interval that
  \<^verbatim>\<open>src/cmd/sql-resp/main.go\<close> computes from it.

  The file system, the environment variables and the treatment of non-ASCII text are parameters. A
  function that can fail gives the configuration so far and, on failure, the text of the error.

  The theorem on precedence goes through the locale \<open>config_field\<close>, the contract of one setting, which is interpreted for all
  nine of them.
\<close>

record Config =
  cPort :: int
  cPassword :: string
  cTLSCert :: string
  cTLSKey :: string
  cDatabases :: int
  cHz :: int
  cInMemory :: bool
  cBackend :: string
  cDSN :: string

definition Default :: Config where
  "Default = \<lparr>cPort = 6379, cPassword = '''', cTLSCert = '''', cTLSKey = '''', cDatabases = 16,
     cHz = 100, cInMemory = False, cBackend = ''sqlite'', cDSN = ''sql-resp.db''\<rparr>"

text \<open>What the configuration takes from outside: files (the text of the error, or the contents),
  environment variables (empty when unset), the order of a Go map, and the library on non-ASCII
  strings.\<close>

record host =
  open_file :: "string \<Rightarrow> string + string"
  getenv :: "string \<Rightarrow> string"
  flag_order :: "nat list"
  h_lower :: "string \<Rightarrow> string"
  h_trim :: "string \<Rightarrow> string"
  h_quote :: "string \<Rightarrow> string"

section \<open>Directives\<close>

definition set_int :: "host \<Rightarrow> string \<Rightarrow> string \<Rightarrow> (int \<Rightarrow> Config) \<Rightarrow> string + Config" where
  "set_int h name val put =
     (case Atoi val of
        None \<Rightarrow> Inl (''invalid '' @ name @ '' '' @ Quote (h_quote h) val)
      | Some n \<Rightarrow> Inr (put n))"

definition set_directive :: "host \<Rightarrow> string \<Rightarrow> string \<Rightarrow> Config \<Rightarrow> string + Config" where
  "set_directive h key val c =
     (if key = ''port'' then set_int h ''port'' val (\<lambda>n. c\<lparr>cPort := n\<rparr>)
      else if key = ''requirepass'' then Inr (c\<lparr>cPassword := val\<rparr>)
      else if key = ''tls-cert-file'' then Inr (c\<lparr>cTLSCert := val\<rparr>)
      else if key = ''tls-key-file'' then Inr (c\<lparr>cTLSKey := val\<rparr>)
      else if key = ''databases'' then set_int h ''databases'' val (\<lambda>n. c\<lparr>cDatabases := n\<rparr>)
      else if key = ''hz'' then set_int h ''hz'' val (\<lambda>n. c\<lparr>cHz := n\<rparr>)
      else if key = ''save''
        then Inr (c\<lparr>cInMemory := (val = '''' \<or> val = [CHR 0x22, CHR 0x22])\<rparr>)
      else if key = ''no-persist'' then Inr (c\<lparr>cInMemory := True\<rparr>)
      else if key = ''backend'' then
        (if val \<noteq> ''sqlite'' \<and> val \<noteq> ''postgres''
         then Inl (''unknown backend '' @ Quote (h_quote h) val @ '' (want sqlite or postgres)'')
         else Inr (c\<lparr>cBackend := val\<rparr>))
      else if key = ''dsn'' then Inr (c\<lparr>cDSN := val\<rparr>)
      else Inr c)"

section \<open>The file\<close>

text \<open>\<^verbatim>\<open>bufio.Scanner\<close> over lines: lines end with a newline, of which a carriage return before it is a
  part; the text after the last newline is a line if it is not empty.\<close>

definition drop_cr :: "string \<Rightarrow> string" where
  "drop_cr s = (if s \<noteq> [] \<and> last s = CHR 0x0D then butlast s else s)"

definition scan_lines :: "string \<Rightarrow> string list" where
  "scan_lines s = (let ls = Split (CHR 0x0A) s in if last ls = [] then butlast ls else ls)"

definition maxScanToken :: nat where
  "maxScanToken = 65536"

definition trim :: "host \<Rightarrow> string \<Rightarrow> string" where
  "trim h s = (if ascii s then TrimSpace s else h_trim h s)"

text \<open>A line as a directive: \<^const>\<open>None\<close> for an empty line and a comment.\<close>

definition parse_line :: "host \<Rightarrow> string \<Rightarrow> (string \<times> string) option" where
  "parse_line h dline =
     (if dline = '''' \<or> hd dline = CHR ''#'' then None
      else
        let name = takeWhile (\<lambda>ch. ch \<noteq> CHR '' '') dline; rest = dropWhile (\<lambda>ch. ch \<noteq> CHR '' '') dline in
        Some (ToLower (h_lower h) name, case rest of [] \<Rightarrow> '''' | _ # val \<Rightarrow> trim h val))"

fun load_lines :: "host \<Rightarrow> string list \<Rightarrow> Config \<Rightarrow> Config \<times> string option" where
  "load_lines h [] c = (c, None)"
| "load_lines h (raw # ls) c =
     (if length raw \<ge> maxScanToken then (c, Some ''bufio.Scanner: token too long'')
      else
        let dline = trim h (drop_cr raw) in
        case parse_line h dline of
          None \<Rightarrow> load_lines h ls c
        | Some (key, val) \<Rightarrow>
            (case set_directive h key val c of
               Inl e \<Rightarrow> (c, Some (''config '' @ Quote (h_quote h) dline @ '': '' @ e))
             | Inr c' \<Rightarrow> load_lines h ls c'))"

definition loadFile :: "host \<Rightarrow> string \<Rightarrow> Config \<Rightarrow> Config \<times> string option" where
  "loadFile h path c =
     (case open_file h path of Inl e \<Rightarrow> (c, Some e) | Inr text \<Rightarrow> load_lines h (scan_lines text) c)"

section \<open>Merging\<close>

fun apply_flags :: "host \<Rightarrow> (string \<times> string) list \<Rightarrow> Config \<Rightarrow> Config \<times> string option" where
  "apply_flags h [] c = (c, None)"
| "apply_flags h ((k, v) # fs) c =
     (case set_directive h k v c of
        Inl e \<Rightarrow> (c, Some (''flag --'' @ k @ '': '' @ e))
      | Inr c' \<Rightarrow> apply_flags h fs c')"

definition apply_env :: "host \<Rightarrow> Config \<Rightarrow> Config" where
  "apply_env h c =
     (let c1 = (if getenv h ''SQL_RESP_PASSWORD'' \<noteq> ''''
                then c\<lparr>cPassword := getenv h ''SQL_RESP_PASSWORD''\<rparr> else c)
      in if getenv h ''SQL_RESP_DSN'' \<noteq> '''' then c1\<lparr>cDSN := getenv h ''SQL_RESP_DSN''\<rparr> else c1)"

definition Load :: "host \<Rightarrow> string \<Rightarrow> (string \<times> string) list \<Rightarrow> Config \<times> string option" where
  "Load h filePath flags =
     (case (if filePath \<noteq> '''' then loadFile h filePath Default else (Default, None)) of
        (c, Some e) \<Rightarrow> (c, Some e)
      | (c, None) \<Rightarrow> apply_flags h (arrange (flag_order h) flags) (apply_env h c))"

section \<open>The sweep interval\<close>

text \<open>\<^verbatim>\<open>time.Duration(cfg.Hz) * time.Millisecond\<close>, in nanoseconds; \<^verbatim>\<open>time.NewTicker\<close> panics unless it is
  positive.\<close>

definition sweepInterval :: "Config \<Rightarrow> int" where
  "sweepInterval c = wrap64 (cHz c * 1000000)"

definition ticker_panics :: "Config \<Rightarrow> bool" where
  "ticker_panics c \<longleftrightarrow> sweepInterval c \<le> 0"

section \<open>What a configuration is made of\<close>

text \<open>The last directive among \<open>keys\<close>, with its value.\<close>

definition last_of :: "string set \<Rightarrow> (string \<times> string) list \<Rightarrow> (string \<times> string) option" where
  "last_of keys ds = find (\<lambda>d. fst d \<in> keys) (rev ds)"

text \<open>The directives of a file.\<close>

definition directives :: "host \<Rightarrow> string list \<Rightarrow> (string \<times> string) list" where
  "directives h ls = List.map_filter (\<lambda>raw. parse_line h (trim h (drop_cr raw))) ls"

lemma load_lines_directives:
  "load_lines h ls c = (c', None) \<Longrightarrow> apply_flags h (directives h ls) c = (c', None)"
proof (induction h ls c rule: load_lines.induct)
  case (2 h raw ls c)
  then show ?case
    by (auto simp: directives_def Let_def List.map_filter_simps
        split: if_splits option.splits prod.splits sum.splits)
qed (simp add: directives_def List.map_filter_simps)

text \<open>The contract of a field of the configuration: a directive of \<open>keys\<close> sets it to \<open>rd\<close> of its value, every
  other directive leaves it.\<close>

lemma find_append: "find P (xs @ ys) = (case find P xs of None \<Rightarrow> find P ys | Some x \<Rightarrow> Some x)"
  by (induction xs) simp_all

lemma last_of_simps:
  "last_of keys [] = None"
  "last_of keys (d # ds) = (case last_of keys ds of None \<Rightarrow> if fst d \<in> keys then Some d else None | Some e \<Rightarrow> Some e)"
  "last_of keys (as @ bs) = (case last_of keys bs of None \<Rightarrow> last_of keys as | Some e \<Rightarrow> Some e)"
  by (simp_all add: last_of_def find_append split: option.split)

locale config_field =
  fixes keys :: "string set" and rd :: "string \<Rightarrow> string \<Rightarrow> 'f" and get :: "Config \<Rightarrow> 'f"
  assumes sets: "set_directive h key val c = Inr c' \<Longrightarrow> key \<in> keys \<Longrightarrow> get c' = rd key val"
    and leaves: "set_directive h key val c = Inr c' \<Longrightarrow> key \<notin> keys \<Longrightarrow> get c' = get c"
begin

lemma apply_last:
  "apply_flags h ds c = (c', None) \<Longrightarrow>
     get c' = (case last_of keys ds of None \<Rightarrow> get c | Some (key, val) \<Rightarrow> rd key val)"
proof (induction h ds c rule: apply_flags.induct)
  case (2 h k v fs c)
  then obtain c1 where "set_directive h k v c = Inr c1" "apply_flags h fs c1 = (c', None)"
    by (auto split: sum.splits)
  with 2 show ?case
    using sets [of h k v c c1] leaves [of h k v c c1]
    by (auto simp: last_of_simps split: option.splits)
qed (simp add: last_of_simps)

end

lemmas directive_simps = set_directive_def set_int_def

definition is_off :: "string \<Rightarrow> string \<Rightarrow> bool" where
  "is_off key val \<longleftrightarrow> key = ''no-persist'' \<or> val = '''' \<or> val = [CHR 0x22, CHR 0x22]"

interpretation port: config_field "{''port''}" "\<lambda>_. Atoi" "\<lambda>c. Some (cPort c)"
  by unfold_locales (auto simp: directive_simps split: if_splits option.splits)

interpretation databases: config_field "{''databases''}" "\<lambda>_. Atoi" "\<lambda>c. Some (cDatabases c)"
  by unfold_locales (auto simp: directive_simps split: if_splits option.splits)

interpretation hz: config_field "{''hz''}" "\<lambda>_. Atoi" "\<lambda>c. Some (cHz c)"
  by unfold_locales (auto simp: directive_simps split: if_splits option.splits)

interpretation pass: config_field "{''requirepass''}" "\<lambda>_ v. v" cPassword
  by unfold_locales (auto simp: directive_simps split: if_splits option.splits)

interpretation cert: config_field "{''tls-cert-file''}" "\<lambda>_ v. v" cTLSCert
  by unfold_locales (auto simp: directive_simps split: if_splits option.splits)

interpretation tls_key: config_field "{''tls-key-file''}" "\<lambda>_ v. v" cTLSKey
  by unfold_locales (auto simp: directive_simps split: if_splits option.splits)

interpretation memory: config_field "{''save'', ''no-persist''}" is_off cInMemory
  by unfold_locales (auto simp: directive_simps is_off_def split: if_splits option.splits)

interpretation dsn: config_field "{''dsn''}" "\<lambda>_ v. v" cDSN
  by unfold_locales (auto simp: directive_simps split: if_splits option.splits)

interpretation backend: config_field "{''backend''}" "\<lambda>_ v. v" cBackend
  by unfold_locales (auto simp: directive_simps split: if_splits option.splits)

text \<open>The order of the flags does not matter for a field that only one of them sets.\<close>

lemma last_of_mem: "last_of keys ds = Some d \<Longrightarrow> d \<in> set ds \<and> fst d \<in> keys"
  by (induction ds) (auto simp: last_of_simps split: option.splits if_splits)

lemma last_of_None: "last_of keys ds = None \<longleftrightarrow> (\<forall>d \<in> set ds. fst d \<notin> keys)"
  by (induction ds) (auto simp: last_of_simps split: option.splits if_splits)

lemma last_of_arrange:
  assumes "distinct (map fst fs)" "\<And>k k'. k \<in> keys \<Longrightarrow> k' \<in> keys \<Longrightarrow> k \<in> fst ` set fs \<Longrightarrow> k' \<in> fst ` set fs \<Longrightarrow> k = k'"
  shows "last_of keys (arrange p fs) = last_of keys fs"
proof (cases "last_of keys fs")
  case None
  then have "last_of keys (arrange p fs) = None" by (simp only: last_of_None set_arrange)
  with None show ?thesis by simp
next
  case (Some d)
  then have "last_of keys (arrange p fs) \<noteq> None" using last_of_None [of keys fs] last_of_None [of keys "arrange p fs"] by simp
  then obtain e where e: "last_of keys (arrange p fs) = Some e" by blast
  from last_of_mem [OF e] last_of_mem [OF Some] have "d \<in> set fs" "e \<in> set fs" "fst d \<in> keys" "fst e \<in> keys" by simp_all
  moreover from this have "fst d = fst e" by (intro assms(2) imageI)
  moreover obtain k v k' v' where "d = (k, v)" "e = (k', v')" by (cases d; cases e) simp
  ultimately have "d = e" using eq_key_imp_eq_value [OF assms(1), of k v v'] by simp
  with Some e show ?thesis by simp
qed

lemma apply_env_fields:
  "cPort (apply_env h c) = cPort c" "cHz (apply_env h c) = cHz c" "cBackend (apply_env h c) = cBackend c"
  "cTLSCert (apply_env h c) = cTLSCert c" "cTLSKey (apply_env h c) = cTLSKey c" "cDatabases (apply_env h c) = cDatabases c"
  "cInMemory (apply_env h c) = cInMemory c"
  "cPassword (apply_env h c) = (if getenv h ''SQL_RESP_PASSWORD'' \<noteq> '''' then getenv h ''SQL_RESP_PASSWORD''
     else cPassword c)"
  "cDSN (apply_env h c) = (if getenv h ''SQL_RESP_DSN'' \<noteq> '''' then getenv h ''SQL_RESP_DSN'' else cDSN c)"
  by (simp_all add: apply_env_def Let_def)

lemma Load_parts:
  assumes "Load h path flags = (c, None)"
  obtains ds c1 where "if path = '''' then ds = [] else \<exists>text. open_file h path = Inr text \<and> ds = directives h (scan_lines text)"
    "apply_flags h ds Default = (c1, None)" "apply_flags h (arrange (flag_order h) flags) (apply_env h c1) = (c, None)"
proof (cases "path = ''''")
  case True
  then show ?thesis using assms that [of "[]" Default] by (simp add: Load_def)
next
  case False
  with assms obtain body c1 where "open_file h path = Inr body" "load_lines h (scan_lines body) Default = (c1, None)"
    "apply_flags h (arrange (flag_order h) flags) (apply_env h c1) = (c, None)"
    by (auto simp: Load_def loadFile_def split: sum.splits prod.splits option.splits)
  then show ?thesis
    using False that [of "directives h (scan_lines body)" c1] load_lines_directives [of h "scan_lines body" Default c1] by simp
qed

section \<open>A sample\<close>

definition sample_host :: host where
  "sample_host = \<lparr>open_file = (\<lambda>_. Inr (''port 7000'' @ [CHR 0x0A] @ ''# comment'' @ [CHR 0x0A] @ ''requirepass a'')),
     getenv = (\<lambda>v. if v = ''SQL_RESP_PASSWORD'' then ''b'' else ''''), flag_order = [],
     h_lower = (\<lambda>s. s), h_trim = (\<lambda>s. s), h_quote = (\<lambda>s. s)\<rparr>"

lemma sample_lines:
  "scan_lines (''port 7000'' @ [CHR 0x0A] @ ''# comment'' @ [CHR 0x0A] @ ''requirepass a'') =
     [''port 7000'', ''# comment'', ''requirepass a'']"
  "parse_line sample_host (trim sample_host (drop_cr ''port 7000'')) = Some (''port'', ''7000'')"
  "parse_line sample_host (trim sample_host (drop_cr ''# comment'')) = None"
  "parse_line sample_host (trim sample_host (drop_cr ''requirepass a'')) = Some (''requirepass'', ''a'')"
  "Atoi ''7000'' = Some 7000" "Atoi ''7001'' = Some 7001"
  by code_simp+

lemma load_sample: "snd (Load sample_host ''f'' [(''port'', ''7001'')]) = None"
proof -
  have "open_file sample_host ''f'' = Inr (''port 7000'' @ [CHR 0x0A] @ ''# comment'' @ [CHR 0x0A] @ ''requirepass a'')"
    by (simp add: sample_host_def)
  then have "loadFile sample_host ''f'' Default = (Default\<lparr>cPort := 7000, cPassword := ''a''\<rparr>, None)"
    by (simp only: loadFile_def sum.case sample_lines(1))
      (simp add: sample_lines(2-) maxScanToken_def Let_def directive_simps)
  then show ?thesis
    by (simp add: Load_def directive_simps sample_lines arrange_def sample_host_def)
qed

section \<open>Theorems\<close>

text \<open>C30. Precedence of the configuration: when \<^verbatim>\<open>Load\<close> succeeds, the file was read if a path was given, and each of the nine settings
  follows from the file's directives and the flags. Port, number of databases, sweep interval, certificate,
  key and backend are those of the flag, else of the last directive in the file, else the default (numbers are always
  valid). Password and data source are those of the flag, else of the environment variable if it is set and not
  empty, else of the last directive in the file, else the default. The iteration order of the flag map does not matter
  for them. The database is in memory by the flag for it, \<^verbatim>\<open>save\<close> or \<^verbatim>\<open>no-persist\<close>, else by the last of these directives in the
  file, else not; this takes that the flags do not hold both, for which the order would decide.\<close>

theorem load_precedence:
  assumes "Load h path flags = (c, None)" "distinct (map fst flags)"
  shows "\<exists>ds. (if path = '''' then ds = [] else \<exists>text. open_file h path = Inr text \<and> ds = directives h (scan_lines text)) \<and>
    Some (cPort c) = (case last_of {''port''} (ds @ flags) of None \<Rightarrow> Some 6379 | Some (_, v) \<Rightarrow> Atoi v) \<and>
    Some (cDatabases c) = (case last_of {''databases''} (ds @ flags) of None \<Rightarrow> Some 16 | Some (_, v) \<Rightarrow> Atoi v) \<and>
    Some (cHz c) = (case last_of {''hz''} (ds @ flags) of None \<Rightarrow> Some 100 | Some (_, v) \<Rightarrow> Atoi v) \<and>
    cTLSCert c = (case last_of {''tls-cert-file''} (ds @ flags) of None \<Rightarrow> '''' | Some (_, v) \<Rightarrow> v) \<and>
    cTLSKey c = (case last_of {''tls-key-file''} (ds @ flags) of None \<Rightarrow> '''' | Some (_, v) \<Rightarrow> v) \<and>
    cBackend c = (case last_of {''backend''} (ds @ flags) of None \<Rightarrow> ''sqlite'' | Some (_, v) \<Rightarrow> v) \<and>
    cPassword c = (case last_of {''requirepass''} flags of Some (_, v) \<Rightarrow> v | None \<Rightarrow>
      if getenv h ''SQL_RESP_PASSWORD'' \<noteq> '''' then getenv h ''SQL_RESP_PASSWORD''
      else case last_of {''requirepass''} ds of None \<Rightarrow> '''' | Some (_, v) \<Rightarrow> v) \<and>
    cDSN c = (case last_of {''dsn''} flags of Some (_, v) \<Rightarrow> v | None \<Rightarrow>
      if getenv h ''SQL_RESP_DSN'' \<noteq> '''' then getenv h ''SQL_RESP_DSN''
      else case last_of {''dsn''} ds of None \<Rightarrow> ''sql-resp.db'' | Some (_, v) \<Rightarrow> v) \<and>
    (\<not> {''save'', ''no-persist''} \<subseteq> fst ` set flags \<longrightarrow>
      cInMemory c = (case last_of {''save'', ''no-persist''} (ds @ flags) of None \<Rightarrow> False
        | Some (k, v) \<Rightarrow> k = ''no-persist'' \<or> v = '''' \<or> v = [CHR 0x22, CHR 0x22]))"
proof -
  obtain ds c1 where src: "if path = '''' then ds = [] else \<exists>text. open_file h path = Inr text \<and> ds = directives h (scan_lines text)"
    and ds: "apply_flags h ds Default = (c1, None)"
    and fl: "apply_flags h (arrange (flag_order h) flags) (apply_env h c1) = (c, None)"
    by (rule Load_parts [OF assms(1)])
  have one: "last_of {k} (arrange (flag_order h) flags) = last_of {k} flags" for k
    by (rule last_of_arrange [OF assms(2)]) simp
  note rules = one last_of_simps(3) apply_env_fields Default_def
  have mem: "cInMemory c = (case last_of {''save'', ''no-persist''} (ds @ flags) of None \<Rightarrow> False
      | Some (k, v) \<Rightarrow> k = ''no-persist'' \<or> v = '''' \<or> v = [CHR 0x22, CHR 0x22])"
    if "\<not> {''save'', ''no-persist''} \<subseteq> fst ` set flags"
  proof -
    have "last_of {''save'', ''no-persist''} (arrange (flag_order h) flags) = last_of {''save'', ''no-persist''} flags"
      by (rule last_of_arrange [OF assms(2)]) (use that in blast)
    then show ?thesis
      using memory.apply_last [OF ds] memory.apply_last [OF fl]
      by (simp add: last_of_simps(3) apply_env_fields Default_def is_off_def split: option.splits)
  qed
  show ?thesis
  proof (intro exI [of _ ds] conjI src impI mem, goal_cases)
    case 1 show ?case using port.apply_last [OF ds] port.apply_last [OF fl] by (simp add: rules split: option.splits)
  next
    case 2 show ?case using databases.apply_last [OF ds] databases.apply_last [OF fl] by (simp add: rules split: option.splits)
  next
    case 3 show ?case using hz.apply_last [OF ds] hz.apply_last [OF fl] by (simp add: rules split: option.splits)
  next
    case 4 show ?case using cert.apply_last [OF ds] cert.apply_last [OF fl] by (simp add: rules split: option.splits)
  next
    case 5 show ?case using tls_key.apply_last [OF ds] tls_key.apply_last [OF fl] by (simp add: rules split: option.splits)
  next
    case 6 show ?case using backend.apply_last [OF ds] backend.apply_last [OF fl] by (simp add: rules split: option.splits)
  next
    case 7 show ?case using pass.apply_last [OF ds] pass.apply_last [OF fl] by (simp add: rules split: option.splits)
  next
    case 8 show ?case using dsn.apply_last [OF ds] dsn.apply_last [OF fl] by (simp add: rules split: option.splits)
  qed
qed

theorem load_precedence_witness:
  "\<exists>c. Load sample_host ''f'' [(''port'', ''7001'')] = (c, None) \<and> cPort c = 7001 \<and> cPassword c = ''b'' \<and>
     cDSN c = ''sql-resp.db'' \<and> \<not> cInMemory c"
proof -
  let ?text = "''port 7000'' @ [CHR 0x0A] @ ''# comment'' @ [CHR 0x0A] @ ''requirepass a''"
  obtain c where c: "Load sample_host ''f'' [(''port'', ''7001'')] = (c, None)"
    by (cases "Load sample_host ''f'' [(''port'', ''7001'')]")
      (use load_sample in \<open>auto\<close>)
  have "directives sample_host (scan_lines ?text) = [(''port'', ''7000''), (''requirepass'', ''a'')]"
    unfolding sample_lines(1) by (simp add: directives_def List.map_filter_simps sample_lines(2-4))
  then show ?thesis
    using load_precedence [OF c] c sample_lines(6)
    by (auto simp: sample_host_def last_of_def)
qed

text \<open>The sweep interval is not checked: the configuration accepts every number for \<^verbatim>\<open>hz\<close>, and the
  ticker of the background sweep panics exactly if it is not positive.\<close>

theorem hz_not_checked:
  assumes "in_int64 (n * 1000000)"
  shows "\<exists>c'. set_directive h ''hz'' (FormatInt n) c = Inr c' \<and> (ticker_panics c' \<longleftrightarrow> n \<le> 0)"
proof -
  have "in_int64 n" using assms by (auto simp: in_int64_def)
  then show ?thesis using assms by (simp add: directive_simps ticker_panics_def sweepInterval_def)
qed

theorem hz_not_checked_witness:
  "\<exists>c'. set_directive sample_host ''hz'' (FormatInt 0) Default = Inr c' \<and> ticker_panics c'"
  using hz_not_checked [of 0 sample_host Default] by (simp add: in_int64_def)

end
