(* ===== verification/Sql_Syntax.thy ===== *)
theory Sql_Syntax
  imports Placeholders
begin

text \<open>
  The SQL that the program writes, as text and as syntax trees: the data definition of
  \<^verbatim>\<open>src/internal/db/db.go\<close> and the statements and queries of \<^verbatim>\<open>src/internal/store\<close>. The lexer and the
  parser read exactly this fragment (keywords in upper case, \<open>?\<close> or \<open>$n\<close> parameters, quoted literals);
  a text outside it is rejected with \<^const>\<open>None\<close>. The fuel of the parser is the number of
  tokens, and every recursive call consumes one.
\<close>

section \<open>Tokens\<close>

datatype token = Word string | Sym char | Lit string | Par nat

definition blank :: "char \<Rightarrow> bool" where
  "blank c \<longleftrightarrow> c \<in> set [CHR '' '', CHR 0x0A, CHR 0x09, CHR 0x0B, CHR 0x0C, CHR 0x0D]"

text \<open>Words are what the punctuation of the fragment leaves.\<close>

definition word_char :: "char \<Rightarrow> bool" where
  "word_char c \<longleftrightarrow> c \<notin> set ''(),;=<>*.?'' \<and> c \<noteq> quote \<and> \<not> blank c"

text \<open>A word that starts with a dollar sign is a numbered parameter.\<close>

definition word_token :: "string \<Rightarrow> token list" where
  "word_token w = (case w of
       [] \<Rightarrow> []
     | c # cs \<Rightarrow> if c = CHR ''$'' then
           (case digits_val 0 cs of Some n \<Rightarrow> [Par (nat n)] | None \<Rightarrow> [Word w])
         else [Word w])"

text \<open>\<open>w\<close> is the word that is being read and \<open>q\<close> whether the position is inside a literal.\<close>

fun lex :: "bool \<Rightarrow> string \<Rightarrow> string \<Rightarrow> token list" where
  "lex False w [] = word_token w"
| "lex True w [] = [Sym quote]"
| "lex False w (c # cs) =
     (if word_char c then lex False (w @ [c]) cs
      else word_token w @
        (if blank c then lex False [] cs
         else if c = quote then lex True [] cs
         else Sym c # lex False [] cs))"
| "lex True w (c # cs) =
     (if c \<noteq> quote then lex True (w @ [c]) cs
      else case cs of
          [] \<Rightarrow> [Lit w]
        | c' # cs' \<Rightarrow> if c' = quote then lex True (w @ [quote]) cs' else Lit w # lex False [] cs)"

text \<open>SQLite numbers the \<open>?\<close> parameters from 1 in the order of the text.\<close>

fun number_params :: "nat \<Rightarrow> token list \<Rightarrow> token list" where
  "number_params n [] = []"
| "number_params n (t # ts) =
     (if t = Sym (CHR ''?'') then Par n # number_params (Suc n) ts else t # number_params n ts)"

definition sql_tokens :: "string \<Rightarrow> token list" where
  "sql_tokens s = number_params 1 (lex False [] s)"

section \<open>Syntax trees\<close>

datatype comparison = Equal | Less | LessEq | Greater | GreaterEq

datatype sql_expr = Param nat | Number int | Const string | NullE | Column string | Excluded string
    | Scalar string string sql_cond
  and sql_cond = Always | Compare sql_expr comparison sql_expr | IsNull sql_expr
    | NotNull sql_expr | And sql_cond sql_cond | Or sql_cond sql_cond

datatype item = CountAll | Item sql_expr

datatype ordering = Unordered | OrderBy "string list" | OrderRandom

datatype source = Values "sql_expr list" | FromSelect "sql_expr list" string sql_cond

datatype conflict = Abort | DoNothing "string list" | DoUpdate "string list" "(string \<times> sql_expr) list"

record column =
  cname :: string
  notnull :: bool
  default0 :: bool

record foreign_key =
  fcols :: "string list"
  parent :: string
  pcols :: "string list"

record table_def =
  tname :: string
  columns :: "column list"
  pkey :: "string list"
  fkeys :: "foreign_key list"

datatype statement =
    Select "item list" string sql_cond ordering "sql_expr option" "sql_expr option"
  | Insert string "string list" source conflict
  | Update string "(string \<times> sql_expr) list" sql_cond
  | Delete string sql_cond
  | CreateTable table_def
  | CreateIndex string string "string list"

section \<open>The parser\<close>

type_synonym 'a parse = "token list \<Rightarrow> ('a \<times> token list) option"

definition expect :: "token list \<Rightarrow> unit parse" where
  "expect ks ts = (if take (length ks) ts = ks then Some ((), drop (length ks) ts) else None)"

abbreviation andthen :: "'a parse \<Rightarrow> ('a \<Rightarrow> 'b parse) \<Rightarrow> 'b parse" where
  "andthen p f \<equiv> \<lambda>ts. case p ts of None \<Rightarrow> None | Some (a, us) \<Rightarrow> f a us"

definition give :: "'a \<Rightarrow> 'a parse" where
  "give a ts = Some (a, ts)"

definition word :: "string parse" where
  "word ts = (case ts of Word w # us \<Rightarrow> Some (w, us) | _ \<Rightarrow> None)"

text \<open>\<open>(a, b, \<dots>)\<close>, after the opening parenthesis.\<close>

fun names :: "string list parse" where
  "names (Word w # Sym c # ts) =
     (if c = CHR '','' then (case names ts of None \<Rightarrow> None | Some (ws, us) \<Rightarrow> Some (w # ws, us))
      else if c = CHR '')'' then Some ([w], ts) else None)"
| "names _ = None"

definition name_list :: "string list parse" where
  "name_list = andthen (expect [Sym (CHR ''('')]) (\<lambda>_. names)"

definition comparator :: "comparison parse" where
  "comparator ts = (case ts of
       Sym c # us \<Rightarrow>
         if c = CHR ''='' then Some (Equal, us)
         else if c = CHR ''<'' then
           (case us of Sym c' # us' \<Rightarrow> if c' = CHR ''='' then Some (LessEq, us') else Some (Less, us)
            | _ \<Rightarrow> Some (Less, us))
         else if c = CHR ''>'' then
           (case us of Sym c' # us' \<Rightarrow> if c' = CHR ''='' then Some (GreaterEq, us') else Some (Greater, us)
            | _ \<Rightarrow> Some (Greater, us))
         else None
     | _ \<Rightarrow> None)"

fun parse_expr :: "nat \<Rightarrow> sql_expr parse" and parse_atom :: "nat \<Rightarrow> sql_cond parse"
  and parse_conj :: "nat \<Rightarrow> sql_cond parse" and parse_disj :: "nat \<Rightarrow> sql_cond parse" where
  "parse_expr 0 ts = None"
| "parse_expr (Suc n) ts = (case ts of
       Par k # us \<Rightarrow> Some (Param k, us)
     | Lit s # us \<Rightarrow> Some (Const s, us)
     | Word w # us \<Rightarrow>
         if w = ''NULL'' then Some (NullE, us)
         else if w = ''excluded'' then
           andthen (expect [Sym (CHR ''.'')]) (\<lambda>_. andthen word (\<lambda>c. give (Excluded c))) us
         else (case digits_val 0 w of Some k \<Rightarrow> Some (Number k, us) | None \<Rightarrow> Some (Column w, us))
     | Sym c # us \<Rightarrow>
         if c = CHR ''('' then
           andthen (expect [Word ''SELECT'']) (\<lambda>_. andthen word (\<lambda>col.
           andthen (expect [Word ''FROM'']) (\<lambda>_. andthen word (\<lambda>tab.
           andthen (expect [Word ''WHERE'']) (\<lambda>_. andthen (parse_disj n) (\<lambda>cnd.
           andthen (expect [Sym (CHR '')'')]) (\<lambda>_. give (Scalar col tab cnd)))))))) us
         else None
     | [] \<Rightarrow> None)"
| "parse_atom 0 ts = None"
| "parse_atom (Suc n) ts = (case ts of
       Sym c # us \<Rightarrow>
         if c = CHR ''('' then
           andthen (parse_disj n) (\<lambda>cnd. andthen (expect [Sym (CHR '')'')]) (\<lambda>_. give cnd)) us
         else None
     | _ \<Rightarrow>
         andthen (parse_expr n) (\<lambda>x us.
           if take 2 us = [Word ''IS'', Word ''NULL''] then Some (IsNull x, drop 2 us)
           else if take 3 us = [Word ''IS'', Word ''NOT'', Word ''NULL''] then Some (NotNull x, drop 3 us)
           else andthen comparator (\<lambda>c. andthen (parse_expr n) (\<lambda>y. give (Compare x c y))) us) ts)"
| "parse_conj 0 ts = None"
| "parse_conj (Suc n) ts =
     andthen (parse_atom n) (\<lambda>a us.
       if take 1 us = [Word ''AND''] then andthen (parse_conj n) (\<lambda>b. give (And a b)) (drop 1 us)
       else Some (a, us)) ts"
| "parse_disj 0 ts = None"
| "parse_disj (Suc n) ts =
     andthen (parse_conj n) (\<lambda>a us.
       if take 1 us = [Word ''OR''] then andthen (parse_disj n) (\<lambda>b. give (Or a b)) (drop 1 us)
       else Some (a, us)) ts"

text \<open>A sequence of \<open>p\<close> separated by commas.\<close>

fun commas :: "nat \<Rightarrow> 'a parse \<Rightarrow> 'a list parse" where
  "commas 0 p ts = None"
| "commas (Suc n) p ts =
     andthen p (\<lambda>a us.
       if take 1 us = [Sym (CHR '','')] then andthen (commas n p) (\<lambda>as. give (a # as)) (drop 1 us)
       else Some ([a], us)) ts"

definition parse_where :: "nat \<Rightarrow> sql_cond parse" where
  "parse_where n ts =
     (if take 1 ts = [Word ''WHERE''] then parse_disj n (drop 1 ts) else Some (Always, ts))"

definition parse_item :: "nat \<Rightarrow> item parse" where
  "parse_item n ts =
     (let k = [Word ''COUNT'', Sym (CHR ''(''), Sym (CHR ''*''), Sym (CHR '')'')] in
      if take 4 ts = k then Some (CountAll, drop 4 ts)
      else andthen (parse_expr n) (\<lambda>x. give (Item x)) ts)"

definition asc :: "string parse" where
  "asc = andthen word (\<lambda>w. andthen (expect [Word ''ASC'']) (\<lambda>_. give w))"

definition parse_order :: "nat \<Rightarrow> ordering parse" where
  "parse_order n ts =
     (if take 2 ts = [Word ''ORDER'', Word ''BY''] then
        (if take 3 (drop 2 ts) = [Word ''RANDOM'', Sym (CHR ''(''), Sym (CHR '')'')] then Some (OrderRandom, drop 5 ts)
         else andthen (commas n asc) (\<lambda>ws. give (OrderBy ws)) (drop 2 ts))
      else Some (Unordered, ts))"

definition optional :: "string \<Rightarrow> 'a parse \<Rightarrow> 'a option parse" where
  "optional w p ts =
     (if take 1 ts = [Word w] then andthen p (\<lambda>a. give (Some a)) (drop 1 ts) else Some (None, ts))"

definition parse_select :: "nat \<Rightarrow> statement parse" where
  "parse_select n =
     andthen (commas n (parse_item n)) (\<lambda>items.
     andthen (expect [Word ''FROM'']) (\<lambda>_. andthen word (\<lambda>t.
     andthen (parse_where n) (\<lambda>cnd.
     andthen (parse_order n) (\<lambda>ord.
     andthen (optional ''LIMIT'' (parse_expr n)) (\<lambda>lim.
     andthen (optional ''OFFSET'' (parse_expr n)) (\<lambda>off.
     give (Select items t cnd ord lim off))))))))"

definition assignment :: "nat \<Rightarrow> (string \<times> sql_expr) parse" where
  "assignment n =
     andthen word (\<lambda>c. andthen (expect [Sym (CHR ''='')]) (\<lambda>_. andthen (parse_expr n) (\<lambda>x. give (c, x))))"

definition parse_source :: "nat \<Rightarrow> source parse" where
  "parse_source n ts =
     (if take 2 ts = [Word ''VALUES'', Sym (CHR ''('')] then
        andthen (commas n (parse_expr n)) (\<lambda>xs. andthen (expect [Sym (CHR '')'')]) (\<lambda>_. give (Values xs))) (drop 2 ts)
      else
        andthen (expect [Word ''SELECT'']) (\<lambda>_. andthen (commas n (parse_expr n)) (\<lambda>xs.
        andthen (expect [Word ''FROM'']) (\<lambda>_. andthen word (\<lambda>t.
        andthen (parse_where n) (\<lambda>cnd. give (FromSelect xs t cnd)))))) ts)"

definition parse_conflict :: "nat \<Rightarrow> conflict parse" where
  "parse_conflict n ts =
     (if take 2 ts = [Word ''ON'', Word ''CONFLICT''] then
        andthen name_list (\<lambda>cs us.
          if take 2 us = [Word ''DO'', Word ''NOTHING''] then Some (DoNothing cs, drop 2 us)
          else andthen (expect [Word ''DO'', Word ''UPDATE'', Word ''SET'']) (\<lambda>_.
            andthen (commas n (assignment n)) (\<lambda>xs. give (DoUpdate cs xs))) us) (drop 2 ts)
      else Some (Abort, ts))"

text \<open>Columns and constraints of a table. The type is a word (\<^verbatim>\<open>DOUBLE PRECISION\<close>: two).\<close>

datatype entry = EColumn column | EPrimary "string list" | EForeign foreign_key

definition flag :: "token list \<Rightarrow> bool parse" where
  "flag ks ts = (if take (length ks) ts = ks then Some (True, drop (length ks) ts) else Some (False, ts))"

definition parse_entry :: "entry parse" where
  "parse_entry ts =
     (if take 2 ts = [Word ''PRIMARY'', Word ''KEY''] then
        andthen name_list (\<lambda>cs. give (EPrimary cs)) (drop 2 ts)
      else if take 2 ts = [Word ''FOREIGN'', Word ''KEY''] then
        andthen name_list (\<lambda>cs. andthen (expect [Word ''REFERENCES'']) (\<lambda>_. andthen word (\<lambda>t.
        andthen name_list (\<lambda>ps. andthen (expect [Word ''ON'', Word ''DELETE'', Word ''CASCADE'']) (\<lambda>_.
        give (EForeign \<lparr>fcols = cs, parent = t, pcols = ps\<rparr>)))))) (drop 2 ts)
      else
        andthen word (\<lambda>c. andthen word (\<lambda>_. andthen (flag [Word ''PRECISION'']) (\<lambda>_.
        andthen (flag [Word ''NOT'', Word ''NULL'']) (\<lambda>nn.
        andthen (flag [Word ''DEFAULT'', Word ''0'']) (\<lambda>d.
        give (EColumn \<lparr>cname = c, notnull = nn, default0 = d\<rparr>)))))) ts)"

definition table_of :: "string \<Rightarrow> entry list \<Rightarrow> table_def" where
  "table_of t es =
     \<lparr>tname = t,
      columns = concat (map (\<lambda>x. case x of EColumn c \<Rightarrow> [c] | _ \<Rightarrow> []) es),
      pkey = concat (map (\<lambda>x. case x of EPrimary cs \<Rightarrow> cs | _ \<Rightarrow> []) es),
      fkeys = concat (map (\<lambda>x. case x of EForeign k \<Rightarrow> [k] | _ \<Rightarrow> []) es)\<rparr>"

definition if_not_exists :: "token list" where
  "if_not_exists = [Word ''IF'', Word ''NOT'', Word ''EXISTS'']"

definition parse_create :: "nat \<Rightarrow> statement parse" where
  "parse_create n ts =
     (if take 4 ts = Word ''TABLE'' # if_not_exists then
        andthen word (\<lambda>t. andthen (expect [Sym (CHR ''('')]) (\<lambda>_. andthen (commas n parse_entry) (\<lambda>es.
        andthen (expect [Sym (CHR '')'')]) (\<lambda>_. give (CreateTable (table_of t es)))))) (drop 4 ts)
      else
        andthen (expect (Word ''INDEX'' # if_not_exists)) (\<lambda>_. andthen word (\<lambda>i.
        andthen (expect [Word ''ON'']) (\<lambda>_. andthen word (\<lambda>t.
        andthen name_list (\<lambda>cs. give (CreateIndex i t cs)))))) ts)"

definition parse_statement :: "nat \<Rightarrow> statement parse" where
  "parse_statement n ts = (case ts of
       Word w # us \<Rightarrow>
         if w = ''SELECT'' then parse_select n us
         else if w = ''INSERT'' then
           andthen (expect [Word ''INTO'']) (\<lambda>_. andthen word (\<lambda>t. andthen name_list (\<lambda>cs.
           andthen (parse_source n) (\<lambda>src. andthen (parse_conflict n) (\<lambda>cf. give (Insert t cs src cf)))))) us
         else if w = ''UPDATE'' then
           andthen word (\<lambda>t. andthen (expect [Word ''SET'']) (\<lambda>_. andthen (commas n (assignment n)) (\<lambda>xs.
           andthen (parse_where n) (\<lambda>cnd. give (Update t xs cnd))))) us
         else if w = ''DELETE'' then
           andthen (expect [Word ''FROM'']) (\<lambda>_. andthen word (\<lambda>t.
           andthen (parse_where n) (\<lambda>cnd. give (Delete t cnd)))) us
         else if w = ''CREATE'' then parse_create n us
         else None
     | _ \<Rightarrow> None)"

text \<open>A script is a sequence of statements, separated by semicolons.\<close>

fun split_script :: "token list \<Rightarrow> token list list" where
  "split_script [] = [[]]"
| "split_script (t # ts) =
     (if t = Sym (CHR '';'') then [] # split_script ts
      else case split_script ts of [] \<Rightarrow> [[t]] | p # ps \<Rightarrow> (t # p) # ps)"

definition parse_tokens :: "token list \<Rightarrow> statement option" where
  "parse_tokens ts = (case parse_statement (Suc (length ts)) ts of Some (st, []) \<Rightarrow> Some st | _ \<Rightarrow> None)"

definition parse_script :: "string \<Rightarrow> statement list option" where
  "parse_script s = those (map parse_tokens (filter (\<lambda>ts. ts \<noteq> []) (split_script (sql_tokens s))))"

definition parse_sql :: "string \<Rightarrow> statement option" where
  "parse_sql s = parse_tokens (sql_tokens s)"

section \<open>Scripts and their lines\<close>

text \<open>A raw string literal of Go, line by line.\<close>

definition raw :: "string list \<Rightarrow> string" where
  "raw ls = concat (map (\<lambda>l. l @ [CHR 0x0A]) ls)"

lemma word_token_Nil [simp]: "word_token [] = []"
  by (simp add: word_token_def)

lemma lex_append:
  "quote \<notin> set s \<Longrightarrow> \<not> word_char c \<Longrightarrow> lex False w (s @ c # rest) = lex False w s @ lex False [] (c # rest)"
  by (induction s arbitrary: w) auto

lemma not_word_char: "\<not> word_char (CHR 0x0A)" "\<not> word_char (CHR '';'')" "blank (CHR 0x0A)"
  by code_simp+

lemma lex_raw:
  assumes "\<forall>l \<in> set ls. quote \<notin> set l"
  shows "lex False [] (raw ls) = concat (map (lex False []) ls)"
  using assms
proof (induction ls)
  case (Cons l ls)
  then show ?case by (simp add: raw_def lex_append not_word_char)
qed (simp add: raw_def)

lemma lex_Sym: "quote \<notin> set s \<Longrightarrow> Sym c \<in> set (lex False w s) \<Longrightarrow> c \<in> set s"
  by (induction s arbitrary: w) (auto simp: word_token_def split: list.splits if_splits option.splits)

lemma number_params_id: "Sym (CHR ''?'') \<notin> set ts \<Longrightarrow> number_params n ts = ts"
  by (induction ts arbitrary: n) auto

lemma blank_is_space: "is_space c \<longleftrightarrow> blank c"
proof -
  have "(of_char c :: nat) = of_char d \<longleftrightarrow> c = d" for d by simp
  from this [of "CHR '' ''"] this [of "CHR 0x0A"] this [of "CHR 0x09"] this [of "CHR 0x0B"]
    this [of "CHR 0x0C"] this [of "CHR 0x0D"]
  show ?thesis by (simp add: is_space_def blank_def of_char_def disj_ac)
qed

lemma is_space_blank: "is_space = blank"
  by (rule ext) (rule blank_is_space)

lemma lex_blanks: "\<forall>c \<in> set s. blank c \<Longrightarrow> lex False [] s = []"
  by (induction s) (auto simp: word_char_def)

text \<open>Cutting a text at its semicolons and cutting its tokens are the same.\<close>

lemma lex_TrimSpace:
  assumes "quote \<notin> set s"
  shows "lex False [] (TrimSpace s) = lex False [] s"
proof -
  have drop_left: "lex False [] (dropWhile blank u) = lex False [] u" for u
    by (induction u) (auto simp: word_char_def)
  have drop_right: "lex False [] (u @ v) = lex False [] u"
    if "\<forall>c \<in> set v. blank c" "quote \<notin> set u" for u v
  proof (cases v)
    case (Cons c v')
    with that have "\<not> word_char c" by (simp add: word_char_def)
    with that Cons show ?thesis by (simp add: lex_append lex_blanks)
  qed simp
  define u where "u = dropWhile blank s"
  have r: "u = rev (dropWhile blank (rev u)) @ rev (takeWhile blank (rev u))"
    by (metis rev_append rev_rev_ident takeWhile_dropWhile_id)
  have "quote \<notin> set (rev (dropWhile blank (rev u)))"
    using assms by (auto simp: u_def dest!: set_dropWhileD)
  then have "lex False [] u = lex False [] (rev (dropWhile blank (rev u)))"
    using drop_right [of "rev (takeWhile blank (rev u))"] r by (metis set_rev set_takeWhileD)
  then show ?thesis
    by (simp add: TrimSpace_def is_space_blank drop_left u_def)
qed

lemma word_token_nonempty: "w \<noteq> [] \<Longrightarrow> word_token w \<noteq> []"
  by (cases w) (auto simp: word_token_def split: option.splits)

lemma lex_Nil_iff:
  "quote \<notin> set s \<Longrightarrow> lex False w s = [] \<longleftrightarrow> w = [] \<and> (\<forall>c \<in> set s. blank c)"
proof (induction s arbitrary: w)
  case Nil
  then show ?case using word_token_nonempty by auto
next
  case (Cons c s)
  then have s: "quote \<notin> set s" "c \<noteq> quote" by auto
  show ?case
  proof (cases "word_char c")
    case True
    moreover from this have "\<not> blank c" by (simp add: word_char_def)
    ultimately show ?thesis using Cons.IH [OF s(1), of "w @ [c]"] by simp
  next
    case False
    then show ?thesis
      using Cons.IH [OF s(1), of "[]"] s(2) word_token_nonempty [of w] by (cases "w = []") simp_all
  qed
qed

lemma TrimSpace_Nil_iff: "TrimSpace s = [] \<longleftrightarrow> (\<forall>c \<in> set s. blank c)"
proof -
  have "(\<forall>c \<in> set (dropWhile blank s). blank c) \<longleftrightarrow> (\<forall>c \<in> set s. blank c)"
    by (induction s) auto
  then show ?thesis by (simp add: TrimSpace_def is_space_blank)
qed

lemma split_script_not_Nil [simp]: "split_script ts \<noteq> []"
  by (induction ts) (auto split: list.splits)

lemma split_script_append:
  assumes "Sym (CHR '';'') \<notin> set us"
  shows "split_script (us @ ts) = (us @ hd (split_script ts)) # tl (split_script ts)"
  using assms by (induction us) (auto split: list.splits)

lemma Split_Cons: "Split sep s = p # ps \<Longrightarrow>
    (ps = [] \<longrightarrow> s = p) \<and> (ps \<noteq> [] \<longrightarrow> (\<exists>rest. s = p @ sep # rest \<and> Split sep rest = ps))"
proof (induction s arbitrary: p)
  case (Cons c s)
  show ?case
  proof (cases "c = sep")
    case False
    obtain q qs where q: "Split sep s = q # qs" by (cases "Split sep s") simp_all
    with Cons.prems False have "p = c # q" "ps = qs" by simp_all
    with Cons.IH [of q] q show ?thesis by auto
  qed (use Cons.prems in auto)
qed simp

lemma split_script_lex:
  assumes "quote \<notin> set s"
  shows "split_script (lex False [] s) = map (lex False []) (Split (CHR '';'') s)"
  using assms
proof (induction "length s" arbitrary: s rule: less_induct)
  case less
  obtain p ps where ps: "Split (CHR '';'') s = p # ps" by (cases "Split (CHR '';'') s") simp_all
  have semi: "CHR '';'' \<notin> set p" by (rule Split_no_sep [of p "CHR '';''" s]) (simp add: ps)
  show ?case
  proof (cases "ps = []")
    case True
    with Split_Cons [OF ps] have s: "s = p" by simp
    then have "Sym (CHR '';'') \<notin> set (lex False [] p)" using lex_Sym semi less.prems by blast
    then show ?thesis using split_script_append [of "lex False [] p" "[]"] ps s True by simp
  next
    case False
    with Split_Cons [OF ps] obtain rest where rest: "s = p @ CHR '';'' # rest" "Split (CHR '';'') rest = ps"
      by blast
    then have q: "quote \<notin> set p" "quote \<notin> set rest" using less.prems by auto
    then have "Sym (CHR '';'') \<notin> set (lex False [] p)" using lex_Sym semi by blast
    moreover have "lex False [] s = lex False [] p @ Sym (CHR '';'') # lex False [] rest"
      using q rest(1) by (simp add: lex_append not_word_char) (simp add: blank_def)
    ultimately show ?thesis
      using less.hyps [of rest] rest q ps by (simp add: split_script_append)
  qed
qed

lemma sql_tokens_lex:
  "quote \<notin> set s \<Longrightarrow> CHR ''?'' \<notin> set s \<Longrightarrow> sql_tokens s = lex False [] s"
  using lex_Sym by (simp add: sql_tokens_def) (metis number_params_id)

lemma set_Split: "p \<in> set (Split sep s) \<Longrightarrow> set p \<subseteq> set s"
proof (induction s arbitrary: p)
  case (Cons c s)
  obtain q qs where q: "Split sep s = q # qs" by (cases "Split sep s") simp_all
  with Cons.IH [of q] Cons.IH [of p] Cons.prems show ?case by (auto split: if_splits)
qed simp

lemma split_tokens:
  assumes "quote \<notin> set s" "CHR ''?'' \<notin> set s"
  shows "filter (\<lambda>ts. ts \<noteq> []) (split_script (sql_tokens s)) = map sql_tokens (splitStatements s)"
proof -
  let ?ps = "Split (CHR '';'') s"
  have sub: "set p \<subseteq> set s" if "p \<in> set ?ps" for p
    using that by (rule set_Split)
  have "sql_tokens (TrimSpace p) = lex False [] p" "lex False [] p \<noteq> [] \<longleftrightarrow> TrimSpace p \<noteq> []"
    if "p \<in> set ?ps" for p
  proof -
    have q: "quote \<notin> set p" "CHR ''?'' \<notin> set p" using assms sub [OF that] by auto
    then have "quote \<notin> set (TrimSpace p)" "CHR ''?'' \<notin> set (TrimSpace p)" using set_TrimSpace by blast+
    with q show "sql_tokens (TrimSpace p) = lex False [] p" by (simp add: sql_tokens_lex lex_TrimSpace)
    show "lex False [] p \<noteq> [] \<longleftrightarrow> TrimSpace p \<noteq> []" using q by (simp add: lex_Nil_iff TrimSpace_Nil_iff)
  qed
  then show ?thesis
    using assms by (simp add: sql_tokens_lex split_script_lex splitStatements_def filter_map o_def cong: filter_cong)
qed

end
