(* ===== verification/Sql_Semantics.thy ===== *)
theory Sql_Semantics
  imports Sql_Syntax Store_Zsets
begin

text \<open>
  What the statements of \<^verbatim>\<open>Sql_Syntax\<close> mean: the documented behaviour of SQL on tables with \<^verbatim>\<open>NOT NULL\<close>
  columns, primary keys and foreign keys with \<^verbatim>\<open>ON DELETE CASCADE\<close>, generic in the tables. Comparisons
  with NULL are neither true nor false and \<^verbatim>\<open>WHERE\<close> selects what is true; constraints are checked at
  the end of a statement, which is undone when one is violated.

  This is the reference against which the statements of \<^verbatim>\<open>Sql\<close> are checked: \<open>tables_db\<close> shows the six tables
  of the model as generic tables, and \<^verbatim>\<open>Sql_Texts\<close> proves that each text of the source means what the
  model does.
\<close>

section \<open>Values and rows\<close>

datatype val = Null | IntV int | TextV string | RealV float64

type_synonym row = "(string \<times> val) list"
type_synonym db = "string \<Rightarrow> row list"

definition get :: "row \<Rightarrow> string \<Rightarrow> val" where
  "get r c = (case map_of r c of None \<Rightarrow> Null | Some v \<Rightarrow> v)"

text \<open>What the engine makes of an argument (SQLite binds NaN as NULL and drops the sign of zero).\<close>

fun bind_val :: "dialect \<Rightarrow> val \<Rightarrow> val" where
  "bind_val d (RealV x) = (case bind_score d x of None \<Rightarrow> Null | Some y \<Rightarrow> RealV y)"
| "bind_val d v = v"

fun val_eq :: "dialect \<Rightarrow> val \<Rightarrow> val \<Rightarrow> bool" where
  "val_eq d (RealV x) (RealV y) = (sc_le d x y \<and> sc_le d y x)"
| "val_eq d v v' = (v = v')"

fun val_less :: "environ \<Rightarrow> val \<Rightarrow> val \<Rightarrow> bool" where
  "val_less e (IntV a) (IntV b) = (a < b)"
| "val_less e (RealV x) (RealV y) = sc_less (dialect e) x y"
| "val_less e (TextV s) (TextV t) = (\<not> collate e t s)"
| "val_less e _ _ = False"

fun val_le :: "environ \<Rightarrow> val \<Rightarrow> val \<Rightarrow> bool" where
  "val_le e (IntV a) (IntV b) = (a \<le> b)"
| "val_le e (RealV x) (RealV y) = sc_le (dialect e) x y"
| "val_le e (TextV s) (TextV t) = collate e s t"
| "val_le e _ _ = False"

fun compare :: "environ \<Rightarrow> comparison \<Rightarrow> val \<Rightarrow> val \<Rightarrow> bool option" where
  "compare e c Null v = None"
| "compare e c v Null = None"
| "compare e Equal v v' = Some (val_eq (dialect e) v v')"
| "compare e Less v v' = Some (val_less e v v')"
| "compare e LessEq v v' = Some (val_le e v v')"
| "compare e Greater v v' = Some (val_less e v' v)"
| "compare e GreaterEq v v' = Some (val_le e v' v)"

text \<open>Three-valued conjunction and disjunction.\<close>

definition and3 :: "bool option \<Rightarrow> bool option \<Rightarrow> bool option" where
  "and3 a b = (if a = Some False \<or> b = Some False then Some False
     else if a = Some True \<and> b = Some True then Some True else None)"

definition or3 :: "bool option \<Rightarrow> bool option \<Rightarrow> bool option" where
  "or3 a b = (if a = Some True \<or> b = Some True then Some True
     else if a = Some False \<and> b = Some False then Some False else None)"

section \<open>Expressions and conditions\<close>

text \<open>\<open>x\<close> is the row that an upsert could not insert, for \<^verbatim>\<open>excluded\<close>. A scalar subquery without a row is
  NULL.\<close>

primrec eval :: "environ \<Rightarrow> val list \<Rightarrow> db \<Rightarrow> row \<Rightarrow> row \<Rightarrow> sql_expr \<Rightarrow> val"
  and truth :: "environ \<Rightarrow> val list \<Rightarrow> db \<Rightarrow> row \<Rightarrow> row \<Rightarrow> sql_cond \<Rightarrow> bool option" where
  "eval e args D x r (Param n) = (if 1 \<le> n \<and> n \<le> length args then args ! (n - 1) else Null)"
| "eval e args D x r (Number n) = IntV n"
| "eval e args D x r (Const s) = TextV s"
| "eval e args D x r NullE = Null"
| "eval e args D x r (Column c) = get r c"
| "eval e args D x r (Excluded c) = get x c"
| "eval e args D x r (Scalar c t cnd) =
     (case [s \<leftarrow> D t. truth e args D x s cnd = Some True] of [] \<Rightarrow> Null | s # _ \<Rightarrow> get s c)"
| "truth e args D x r Always = Some True"
| "truth e args D x r (Compare a c b) = compare e c (eval e args D x r a) (eval e args D x r b)"
| "truth e args D x r (IsNull a) = Some (eval e args D x r a = Null)"
| "truth e args D x r (NotNull a) = Some (eval e args D x r a \<noteq> Null)"
| "truth e args D x r (And p q) = and3 (truth e args D x r p) (truth e args D x r q)"
| "truth e args D x r (Or p q) = or3 (truth e args D x r p) (truth e args D x r q)"

definition matching :: "environ \<Rightarrow> val list \<Rightarrow> db \<Rightarrow> string \<Rightarrow> sql_cond \<Rightarrow> row list" where
  "matching e args D t cnd = [r \<leftarrow> D t. truth e args D [] r cnd = Some True]"

section \<open>Constraints\<close>

definition not_null_holds :: "db \<Rightarrow> table_def \<Rightarrow> bool" where
  "not_null_holds D t \<longleftrightarrow> (\<forall>r \<in> set (D (tname t)). \<forall>c \<in> set (columns t). notnull c \<longrightarrow> get r (cname c) \<noteq> Null)"

definition primary_key_holds :: "db \<Rightarrow> table_def \<Rightarrow> bool" where
  "primary_key_holds D t \<longleftrightarrow> distinct (map (\<lambda>r. map (get r) (pkey t)) (D (tname t)))"

definition foreign_keys_hold :: "db \<Rightarrow> table_def \<Rightarrow> bool" where
  "foreign_keys_hold D t \<longleftrightarrow> (\<forall>k \<in> set (fkeys t). \<forall>r \<in> set (D (tname t)).
     Null \<in> set (map (get r) (fcols k)) \<or>
     map (get r) (fcols k) \<in> set (map (\<lambda>p. map (get p) (pcols k)) (D (parent k))))"

definition violation :: "table_def list \<Rightarrow> db \<Rightarrow> string option" where
  "violation S D =
     (if \<not> list_all (not_null_holds D) S then Some ''NOT NULL''
      else if \<not> list_all (primary_key_holds D) S then Some ''PRIMARY KEY''
      else if \<not> list_all (foreign_keys_hold D) S then Some ''FOREIGN KEY''
      else None)"

definition finish :: "table_def list \<Rightarrow> nat \<Rightarrow> db \<Rightarrow> error + (nat \<times> db)" where
  "finish S n D = (case violation S D of Some m \<Rightarrow> Inl (ErrConstraint m) | None \<Rightarrow> Inr (n, D))"

section \<open>Statements that write\<close>

definition find_table :: "table_def list \<Rightarrow> string \<Rightarrow> table_def option" where
  "find_table S t = find (\<lambda>d. tname d = t) S"

definition new_row :: "table_def \<Rightarrow> string list \<Rightarrow> val list \<Rightarrow> row" where
  "new_row d cs vs = map (\<lambda>c. (cname c,
       case map_of (zip cs vs) (cname c) of
         Some v \<Rightarrow> v | None \<Rightarrow> if default0 c then IntV 0 else Null)) (columns d)"

definition assign :: "environ \<Rightarrow> val list \<Rightarrow> db \<Rightarrow> row \<Rightarrow> (string \<times> sql_expr) list \<Rightarrow> row \<Rightarrow> row" where
  "assign e args D x sets r = map (\<lambda>(c, v). (c,
       case map_of sets c of Some a \<Rightarrow> eval e args D x r a | None \<Rightarrow> v)) r"

text \<open>Adding one row under a conflict clause: the rows and the number of rows touched.\<close>

definition add_row :: "environ \<Rightarrow> val list \<Rightarrow> db \<Rightarrow> conflict \<Rightarrow> row \<Rightarrow> row list \<Rightarrow> row list \<times> nat" where
  "add_row e args D cf x rows =
     (case cf of
        Abort \<Rightarrow> (rows @ [x], 1)
      | DoNothing cs \<Rightarrow>
          if \<exists>r \<in> set rows. map (get r) cs = map (get x) cs then (rows, 0) else (rows @ [x], 1)
      | DoUpdate cs sets \<Rightarrow>
          if \<exists>r \<in> set rows. map (get r) cs = map (get x) cs
          then (map (\<lambda>r. if map (get r) cs = map (get x) cs then assign e args D x sets r else r) rows, 1)
          else (rows @ [x], 1))"

fun add_rows :: "environ \<Rightarrow> val list \<Rightarrow> db \<Rightarrow> conflict \<Rightarrow> row list \<Rightarrow> row list \<Rightarrow> row list \<times> nat" where
  "add_rows e args D cf [] rows = (rows, 0)"
| "add_rows e args D cf (x # xs) rows =
     (case add_row e args D cf x rows of
        (rows', n) \<Rightarrow> (case add_rows e args D cf xs rows' of (rows'', m) \<Rightarrow> (rows'', n + m)))"

text \<open>Deleting rows of \<open>t\<close> deletes the rows that reference them. In this schema no table with a foreign
  key is itself referenced, so one level is enough.\<close>

definition refers :: "table_def \<Rightarrow> string \<Rightarrow> row list \<Rightarrow> row \<Rightarrow> bool" where
  "refers d t gone r \<longleftrightarrow> list_ex (\<lambda>k. parent k = t \<and>
     map (get r) (fcols k) \<in> set (map (\<lambda>p. map (get p) (pcols k)) gone)) (fkeys d)"

definition cascade :: "table_def list \<Rightarrow> string \<Rightarrow> row list \<Rightarrow> db \<Rightarrow> db" where
  "cascade S t gone D u = (case find_table S u of
       None \<Rightarrow> D u
     | Some d \<Rightarrow> [r \<leftarrow> D u. \<not> refers d t gone r])"

fun is_write :: "statement \<Rightarrow> bool" where
  "is_write (Insert t cs src cf) = True"
| "is_write (Update t sets cnd) = True"
| "is_write (Delete t cnd) = True"
| "is_write _ = False"

definition run_write :: "table_def list \<Rightarrow> environ \<Rightarrow> val list \<Rightarrow> statement \<Rightarrow> db \<Rightarrow> error + (nat \<times> db)" where
  "run_write S e args st D =
     (case st of
        Insert t cs src cf \<Rightarrow>
          (case find_table S t of
             None \<Rightarrow> Inl (ErrSql ''no such table'')
           | Some d \<Rightarrow>
               let news = (case src of
                     Values xs \<Rightarrow> [new_row d cs (map (eval e args D [] []) xs)]
                   | FromSelect xs t' cnd \<Rightarrow>
                       map (\<lambda>r. new_row d cs (map (eval e args D [] r) xs)) (matching e args D t' cnd))
               in case add_rows e args D cf news (D t) of (rows, n) \<Rightarrow> finish S n (D(t := rows)))
      | Update t sets cnd \<Rightarrow>
          if find_table S t = None then Inl (ErrSql ''no such table'')
          else finish S (length (matching e args D t cnd))
            (D(t := map (\<lambda>r. if truth e args D [] r cnd = Some True then assign e args D [] sets r else r) (D t)))
      | Delete t cnd \<Rightarrow>
          if find_table S t = None then Inl (ErrSql ''no such table'')
          else (let gone = matching e args D t cnd in
            Inr (length gone, cascade S t gone (D(t := [r \<leftarrow> D t. truth e args D [] r cnd \<noteq> Some True]))))
      | _ \<Rightarrow> Inl (ErrSql ''not a statement that writes''))"

section \<open>Queries\<close>

fun rows_le :: "environ \<Rightarrow> string list \<Rightarrow> row \<Rightarrow> row \<Rightarrow> bool" where
  "rows_le e [] r r' = True"
| "rows_le e [c] r r' = val_le e (get r c) (get r' c)"
| "rows_le e (c # cs) r r' =
     (val_less e (get r c) (get r' c) \<or> \<not> val_less e (get r' c) (get r c) \<and> rows_le e cs r r')"

definition int_of :: "val \<Rightarrow> int" where
  "int_of v = (case v of IntV n \<Rightarrow> n | _ \<Rightarrow> 0)"

text \<open>A negative limit means no limit in SQLite and is an error in PostgreSQL.\<close>

definition limited :: "environ \<Rightarrow> val list \<Rightarrow> db \<Rightarrow> sql_expr option \<Rightarrow> sql_expr option \<Rightarrow> row list \<Rightarrow> error + row list" where
  "limited e args D mx off rows =
     (let n = map_option (int_of \<circ> eval e args D [] []) mx;
          m = (case off of None \<Rightarrow> 0 | Some x \<Rightarrow> int_of (eval e args D [] [] x))
      in if (dialect e = Postgres \<and> ((\<exists>k. n = Some k \<and> k < 0) \<or> m < 0)) then Inl (ErrSql ''negative LIMIT or OFFSET'')
         else let rest = drop (nat m) rows in
           Inr (case n of None \<Rightarrow> rest | Some k \<Rightarrow> if k < 0 then rest else take (nat k) rest))"

text \<open>Rows without \<^verbatim>\<open>ORDER BY\<close>, or in random order, come in an order that the engine chooses (\<open>perm\<close>).\<close>

definition run_query :: "table_def list \<Rightarrow> environ \<Rightarrow> val list \<Rightarrow> nat list \<Rightarrow> statement \<Rightarrow> db
    \<Rightarrow> error + val list list" where
  "run_query S e args perm st D =
     (case st of
        Select items t cnd ord mx off \<Rightarrow>
          if find_table S t = None then Inl (ErrSql ''no such table'')
          else
            (let rows = matching e args D t cnd in
             if items = [CountAll] then Inr [[IntV (int (length rows))]]
             else
               (case limited e args D mx off
                   (case ord of OrderBy cs \<Rightarrow> order_by (rows_le e cs) rows | _ \<Rightarrow> arrange perm rows) of
                  Inl x \<Rightarrow> Inl x
                | Inr rs \<Rightarrow> Inr (map (\<lambda>r. map (\<lambda>i. case i of Item x \<Rightarrow> eval e args D [] r x
                                                       | CountAll \<Rightarrow> IntV (int (length rows))) items) rs)))
      | _ \<Rightarrow> Inl (ErrSql ''not a query''))"

text \<open>The number of arguments a statement wants, the largest parameter number.\<close>

primrec expr_params :: "sql_expr \<Rightarrow> nat" and cond_params :: "sql_cond \<Rightarrow> nat" where
  "expr_params (Param n) = n"
| "expr_params (Number n) = 0"
| "expr_params (Const s) = 0"
| "expr_params NullE = 0"
| "expr_params (Column c) = 0"
| "expr_params (Excluded c) = 0"
| "expr_params (Scalar c t cnd) = cond_params cnd"
| "cond_params Always = 0"
| "cond_params (Compare a c b) = max (expr_params a) (expr_params b)"
| "cond_params (IsNull a) = expr_params a"
| "cond_params (NotNull a) = expr_params a"
| "cond_params (And p q) = max (cond_params p) (cond_params q)"
| "cond_params (Or p q) = max (cond_params p) (cond_params q)"

definition max_params :: "nat list \<Rightarrow> nat" where
  "max_params ns = foldr max ns 0"

definition opt_params :: "sql_expr option \<Rightarrow> nat" where
  "opt_params x = (case x of None \<Rightarrow> 0 | Some a \<Rightarrow> expr_params a)"

fun params :: "statement \<Rightarrow> nat" where
  "params (Select items t cnd ord mx off) =
     max_params (cond_params cnd # opt_params mx # opt_params off #
       map (\<lambda>i. case i of Item x \<Rightarrow> expr_params x | CountAll \<Rightarrow> 0) items)"
| "params (Insert t cs src cf) =
     max (case src of Values xs \<Rightarrow> max_params (map expr_params xs)
            | FromSelect xs _ cnd \<Rightarrow> max_params (cond_params cnd # map expr_params xs))
         (case cf of DoUpdate _ sets \<Rightarrow> max_params (map (expr_params \<circ> snd) sets) | _ \<Rightarrow> 0)"
| "params (Update t sets cnd) = max_params (cond_params cnd # map (expr_params \<circ> snd) sets)"
| "params (Delete t cnd) = cond_params cnd"
| "params (CreateTable d) = 0"
| "params (CreateIndex i t cs) = 0"

text \<open>Running a text with its arguments: it has to be one statement of the fragment with as many
  parameters as there are arguments.\<close>

definition prepare :: "string \<Rightarrow> val list \<Rightarrow> error + statement" where
  "prepare q args = (case parse_sql q of
       None \<Rightarrow> Inl (ErrSql ''syntax error'')
     | Some st \<Rightarrow> if params st = length args then Inr st else Inl (ErrSql ''wrong number of arguments''))"

definition exec_text :: "table_def list \<Rightarrow> environ \<Rightarrow> string \<Rightarrow> val list \<Rightarrow> db \<Rightarrow> error + (nat \<times> db)" where
  "exec_text S e q args D = (case prepare q args of
       Inl x \<Rightarrow> Inl x
     | Inr st \<Rightarrow> run_write S e (map (bind_val (dialect e)) args) st D)"

definition query_text :: "table_def list \<Rightarrow> environ \<Rightarrow> nat list \<Rightarrow> string \<Rightarrow> val list \<Rightarrow> db
    \<Rightarrow> error + val list list" where
  "query_text S e perm q args D = (case prepare q args of
       Inl x \<Rightarrow> Inl x
     | Inr st \<Rightarrow> run_query S e (map (bind_val (dialect e)) args) perm st D)"

section \<open>The six tables\<close>

definition key_cols :: "key_id \<Rightarrow> row" where
  "key_cols kd = [(''key'', TextV (fst kd)), (''db'', IntV (snd kd))]"

definition opt_int :: "int option \<Rightarrow> val" where
  "opt_int ex = (case ex of None \<Rightarrow> Null | Some n \<Rightarrow> IntV n)"

fun keys_row :: "key_id \<times> string \<times> int option \<Rightarrow> row" where
  "keys_row (kd, ty, ex) = key_cols kd @ [(''type'', TextV ty), (''expires_at'', opt_int ex)]"

fun strings_row :: "key_id \<times> string \<Rightarrow> row" where
  "strings_row (kd, v) = key_cols kd @ [(''value'', TextV v)]"

fun lists_row :: "(key_id \<times> int) \<times> string \<Rightarrow> row" where
  "lists_row ((kd, i), v) = key_cols kd @ [(''idx'', IntV i), (''value'', TextV v)]"

fun hashes_row :: "(key_id \<times> string) \<times> string \<Rightarrow> row" where
  "hashes_row ((kd, f), v) = key_cols kd @ [(''field'', TextV f), (''value'', TextV v)]"

fun sets_row :: "(key_id \<times> string) \<times> unit \<Rightarrow> row" where
  "sets_row ((kd, m), _) = key_cols kd @ [(''member'', TextV m)]"

fun zsets_row :: "(key_id \<times> string) \<times> float64 \<Rightarrow> row" where
  "zsets_row ((kd, m), x) = key_cols kd @ [(''member'', TextV m), (''score'', RealV x)]"

definition tables_db :: "tables \<Rightarrow> db" where
  "tables_db T u =
     (if u = ''keys'' then map keys_row (keysT T)
      else if u = ''strings'' then map strings_row (stringsT T)
      else if u = ''lists'' then map lists_row (listsT T)
      else if u = ''hashes'' then map hashes_row (hashesT T)
      else if u = ''sets'' then map sets_row (setsT T)
      else if u = ''zsets'' then map zsets_row (zsetsT T)
      else [])"

end
