(* ===== verification/Schema_Text.thy ===== *)
theory Schema_Text
  imports Sql_Semantics
begin

text \<open>
  The schema of \<^verbatim>\<open>src/internal/db/db.go\<close>, in the two texts the program sends to the engines. Both define
  the same six tables with the same columns, keys and references (\<open>schema\<close>), and what they demand of the
  rows is what \<^const>\<open>schema_ok\<close> says of the tables of the model.
\<close>

section \<open>The texts\<close>

definition sqliteSchema :: string where
  "sqliteSchema = raw
    ['''',
     ''CREATE TABLE IF NOT EXISTS keys ('',
     ''    key        TEXT    NOT NULL,'',
     ''    db         INTEGER NOT NULL DEFAULT 0,'',
     ''    type       TEXT    NOT NULL,'',
     ''    expires_at INTEGER,'',
     ''    PRIMARY KEY (key, db)'',
     '');'',
     '''',
     ''CREATE TABLE IF NOT EXISTS strings ('',
     ''    key   TEXT NOT NULL,'',
     ''    db    INTEGER NOT NULL DEFAULT 0,'',
     ''    value BLOB NOT NULL,'',
     ''    PRIMARY KEY (key, db),'',
     ''    FOREIGN KEY (key, db) REFERENCES keys(key, db) ON DELETE CASCADE'',
     '');'',
     '''',
     ''CREATE TABLE IF NOT EXISTS lists ('',
     ''    key   TEXT    NOT NULL,'',
     ''    db    INTEGER NOT NULL DEFAULT 0,'',
     ''    idx   INTEGER NOT NULL,'',
     ''    value BLOB    NOT NULL,'',
     ''    PRIMARY KEY (key, db, idx),'',
     ''    FOREIGN KEY (key, db) REFERENCES keys(key, db) ON DELETE CASCADE'',
     '');'',
     '''',
     ''CREATE TABLE IF NOT EXISTS hashes ('',
     ''    key   TEXT NOT NULL,'',
     ''    db    INTEGER NOT NULL DEFAULT 0,'',
     ''    field TEXT NOT NULL,'',
     ''    value BLOB NOT NULL,'',
     ''    PRIMARY KEY (key, db, field),'',
     ''    FOREIGN KEY (key, db) REFERENCES keys(key, db) ON DELETE CASCADE'',
     '');'',
     '''',
     ''CREATE TABLE IF NOT EXISTS sets ('',
     ''    key    TEXT    NOT NULL,'',
     ''    db     INTEGER NOT NULL DEFAULT 0,'',
     ''    member TEXT    NOT NULL,'',
     ''    PRIMARY KEY (key, db, member),'',
     ''    FOREIGN KEY (key, db) REFERENCES keys(key, db) ON DELETE CASCADE'',
     '');'',
     '''',
     ''CREATE TABLE IF NOT EXISTS zsets ('',
     ''    key    TEXT    NOT NULL,'',
     ''    db     INTEGER NOT NULL DEFAULT 0,'',
     ''    member TEXT    NOT NULL,'',
     ''    score  REAL    NOT NULL,'',
     ''    PRIMARY KEY (key, db, member),'',
     ''    FOREIGN KEY (key, db) REFERENCES keys(key, db) ON DELETE CASCADE'',
     '');'',
     '''',
     ''CREATE INDEX IF NOT EXISTS zsets_score ON zsets(key, db, score);'']"

definition postgresSchema :: string where
  "postgresSchema = raw
    ['''',
     ''CREATE TABLE IF NOT EXISTS keys ('',
     ''    key        TEXT   NOT NULL,'',
     ''    db         INT    NOT NULL DEFAULT 0,'',
     ''    type       TEXT   NOT NULL,'',
     ''    expires_at BIGINT,'',
     ''    PRIMARY KEY (key, db)'',
     '');'',
     '''',
     ''CREATE TABLE IF NOT EXISTS strings ('',
     ''    key   TEXT NOT NULL,'',
     ''    db    INT  NOT NULL DEFAULT 0,'',
     ''    value TEXT NOT NULL,'',
     ''    PRIMARY KEY (key, db),'',
     ''    FOREIGN KEY (key, db) REFERENCES keys(key, db) ON DELETE CASCADE'',
     '');'',
     '''',
     ''CREATE TABLE IF NOT EXISTS lists ('',
     ''    key   TEXT NOT NULL,'',
     ''    db    INT  NOT NULL DEFAULT 0,'',
     ''    idx   BIGINT NOT NULL,'',
     ''    value TEXT NOT NULL,'',
     ''    PRIMARY KEY (key, db, idx),'',
     ''    FOREIGN KEY (key, db) REFERENCES keys(key, db) ON DELETE CASCADE'',
     '');'',
     '''',
     ''CREATE TABLE IF NOT EXISTS hashes ('',
     ''    key   TEXT NOT NULL,'',
     ''    db    INT  NOT NULL DEFAULT 0,'',
     ''    field TEXT NOT NULL,'',
     ''    value TEXT NOT NULL,'',
     ''    PRIMARY KEY (key, db, field),'',
     ''    FOREIGN KEY (key, db) REFERENCES keys(key, db) ON DELETE CASCADE'',
     '');'',
     '''',
     ''CREATE TABLE IF NOT EXISTS sets ('',
     ''    key    TEXT NOT NULL,'',
     ''    db     INT  NOT NULL DEFAULT 0,'',
     ''    member TEXT NOT NULL,'',
     ''    PRIMARY KEY (key, db, member),'',
     ''    FOREIGN KEY (key, db) REFERENCES keys(key, db) ON DELETE CASCADE'',
     '');'',
     '''',
     ''CREATE TABLE IF NOT EXISTS zsets ('',
     ''    key    TEXT             NOT NULL,'',
     ''    db     INT              NOT NULL DEFAULT 0,'',
     ''    member TEXT             NOT NULL,'',
     ''    score  DOUBLE PRECISION NOT NULL,'',
     ''    PRIMARY KEY (key, db, member),'',
     ''    FOREIGN KEY (key, db) REFERENCES keys(key, db) ON DELETE CASCADE'',
     '');'',
     '''',
     ''CREATE INDEX IF NOT EXISTS zsets_score ON zsets(key, db, score);'']"

definition col :: "string \<Rightarrow> column" where
  "col c = \<lparr>cname = c, notnull = True, default0 = False\<rparr>"

definition data_table :: "string \<Rightarrow> string list \<Rightarrow> string list \<Rightarrow> table_def" where
  "data_table t ks cs =
     \<lparr>tname = t,
      columns = col ''key'' # (col ''db'')\<lparr>default0 := True\<rparr> # map col (ks @ cs),
      pkey = [''key'', ''db''] @ ks,
      fkeys = [\<lparr>fcols = [''key'', ''db''], parent = ''keys'', pcols = [''key'', ''db'']\<rparr>]\<rparr>"

definition keys_table :: table_def where
  "keys_table =
     \<lparr>tname = ''keys'',
      columns = [col ''key'', (col ''db'')\<lparr>default0 := True\<rparr>, col ''type'',
        (col ''expires_at'')\<lparr>notnull := False\<rparr>],
      pkey = [''key'', ''db''], fkeys = []\<rparr>"

definition schema :: "table_def list" where
  "schema =
     [keys_table,
      data_table ''strings'' [] [''value''],
      data_table ''lists'' [''idx''] [''value''],
      data_table ''hashes'' [''field''] [''value''],
      data_table ''sets'' [''member''] [],
      data_table ''zsets'' [''member''] [''score'']]"

definition schema_script :: "statement list" where
  "schema_script = map CreateTable schema @ [CreateIndex ''zsets_score'' ''zsets'' [''key'', ''db'', ''score'']]"


lemma tokens_raw:
  assumes "\<forall>l \<in> set ls. quote \<notin> set l \<and> CHR ''?'' \<notin> set l"
  shows "sql_tokens (raw ls) = concat (map (lex False []) ls)"
    "quote \<notin> set (raw ls)" "CHR ''?'' \<notin> set (raw ls)"
proof -
  show q: "quote \<notin> set (raw ls)" "CHR ''?'' \<notin> set (raw ls)" using assms by (auto simp: raw_def)
  then show "sql_tokens (raw ls) = concat (map (lex False []) ls)"
    using assms by (simp add: sql_tokens_lex lex_raw)
qed

lemma parse_script_raw:
  assumes "list_all (\<lambda>l. quote \<notin> set l \<and> CHR ''?'' \<notin> set l) ls"
    "map parse_tokens (filter (\<lambda>ts. ts \<noteq> []) (split_script (concat (map (lex False []) ls)))) = map Some sts"
  shows "parse_script (raw ls) = Some sts"
proof -
  have "those (map Some sts) = Some sts" by (induction sts) simp_all
  then show ?thesis using assms by (simp add: parse_script_def tokens_raw list_all_iff)
qed

lemma parse_sqliteSchema: "parse_script sqliteSchema = Some schema_script"
  unfolding sqliteSchema_def by (rule parse_script_raw) code_simp+

lemma parse_postgresSchema: "parse_script postgresSchema = Some schema_script"
  unfolding postgresSchema_def by (rule parse_script_raw) code_simp+

text \<open>SQLite's text is a script, not a statement; PostgreSQL's is cut into its statements.\<close>

lemma script_not_statement: "parse_sql sqliteSchema = None"
proof -
  have "parse_tokens (concat (map (lex False []) ls)) = None \<Longrightarrow> list_all (\<lambda>l. quote \<notin> set l \<and> CHR ''?'' \<notin> set l) ls \<Longrightarrow>
      parse_sql (raw ls) = None" for ls
    by (simp add: parse_sql_def tokens_raw list_all_iff)
  then show ?thesis unfolding sqliteSchema_def by this code_simp+
qed

lemma parse_statements: "map parse_sql (splitStatements postgresSchema) = map Some schema_script"
proof -
  have q: "quote \<notin> set postgresSchema" "CHR ''?'' \<notin> set postgresSchema"
    unfolding postgresSchema_def by (rule tokens_raw; code_simp)+
  have those_Some: "those ys = Some zs \<Longrightarrow> ys = map Some zs" for ys zs
    by (induction ys arbitrary: zs) (auto split: option.splits)
  have "map parse_sql (splitStatements postgresSchema) = map parse_tokens (map sql_tokens (splitStatements postgresSchema))"
    by (simp add: parse_sql_def o_def)
  also have "\<dots> = map Some schema_script"
    using parse_postgresSchema unfolding parse_script_def split_tokens [OF q] by (rule those_Some)
  finally show ?thesis .
qed

section \<open>What the schema demands\<close>

lemma get_simps [simp]:
  "get (keys_row r) ''key'' = TextV (fst (fst r))" "get (keys_row r) ''db'' = IntV (snd (fst r))"
  "get (keys_row r) ''type'' = TextV (fst (snd r))" "get (keys_row r) ''expires_at'' = opt_int (snd (snd r))"
  "get (strings_row s) ''key'' = TextV (fst (fst s))" "get (strings_row s) ''db'' = IntV (snd (fst s))"
  "get (strings_row s) ''value'' = TextV (snd s)"
  "get (lists_row l) ''key'' = TextV (fst (fst (fst l)))" "get (lists_row l) ''db'' = IntV (snd (fst (fst l)))"
  "get (lists_row l) ''idx'' = IntV (snd (fst l))" "get (lists_row l) ''value'' = TextV (snd l)"
  "get (hashes_row h) ''key'' = TextV (fst (fst (fst h)))" "get (hashes_row h) ''db'' = IntV (snd (fst (fst h)))"
  "get (hashes_row h) ''field'' = TextV (snd (fst h))" "get (hashes_row h) ''value'' = TextV (snd h)"
  "get (sets_row m) ''key'' = TextV (fst (fst (fst m)))" "get (sets_row m) ''db'' = IntV (snd (fst (fst m)))"
  "get (sets_row m) ''member'' = TextV (snd (fst m))"
  "get (zsets_row z) ''key'' = TextV (fst (fst (fst z)))" "get (zsets_row z) ''db'' = IntV (snd (fst (fst z)))"
  "get (zsets_row z) ''member'' = TextV (snd (fst z))" "get (zsets_row z) ''score'' = RealV (snd z)"
  by (cases r; cases s; cases l rule: lists_row.cases; cases h rule: hashes_row.cases;
      cases m rule: sets_row.cases; cases z rule: zsets_row.cases; simp add: get_def key_cols_def)+

lemma tables_db_simps [simp]:
  "tables_db T ''keys'' = map keys_row (keysT T)" "tables_db T ''strings'' = map strings_row (stringsT T)"
  "tables_db T ''lists'' = map lists_row (listsT T)" "tables_db T ''hashes'' = map hashes_row (hashesT T)"
  "tables_db T ''sets'' = map sets_row (setsT T)" "tables_db T ''zsets'' = map zsets_row (zsetsT T)"
  by (simp_all add: tables_db_def)

text \<open>The values of the key columns.\<close>

definition key_vals :: "key_id \<Rightarrow> val list" where
  "key_vals kd = [TextV (fst kd), IntV (snd kd)]"

lemma inj_key_vals: "inj key_vals"
  by (rule injI) (simp add: key_vals_def prod_eq_iff)

lemma key_vals_eq [simp]: "key_vals a = key_vals b \<longleftrightarrow> a = b"
  by (rule inj_eq [OF inj_key_vals])

lemma get_key_cols:
  "map (get (keys_row r)) [''key'', ''db''] = key_vals (fst r)"
  "map (get (strings_row s)) [''key'', ''db''] = key_vals (fst s)"
  "map (get (lists_row l)) [''key'', ''db''] = key_vals (fst (fst l))"
  "map (get (hashes_row h)) [''key'', ''db''] = key_vals (fst (fst h))"
  "map (get (sets_row m)) [''key'', ''db''] = key_vals (fst (fst m))"
  "map (get (zsets_row z)) [''key'', ''db''] = key_vals (fst (fst z))"
  by (simp_all add: key_vals_def)

lemma distinct_map_fst:
  assumes "\<And>x. f x = g (fst x)" "inj g"
  shows "distinct (map f xs) \<longleftrightarrow> distinct (map fst xs)"
proof -
  have "map f xs = map g (map fst xs)" using assms(1) by simp
  then show ?thesis using assms(2) by (metis distinct_map inj_on_subset subset_UNIV)
qed

lemma opt_int_Null [simp]: "opt_int ex = Null \<longleftrightarrow> ex = None"
  by (cases ex) (simp_all add: opt_int_def)

lemma not_null_tables: "list_all (not_null_holds (tables_db T)) schema"
  by (simp add: schema_def keys_table_def data_table_def col_def not_null_holds_def)

lemma primary_keys_tables: "list_all (primary_key_holds (tables_db T)) schema \<longleftrightarrow> pk_ok T"
proof -
  have k: "inj (\<lambda>p :: key_id \<times> 'x. TextV (fst (fst p)) # IntV (snd (fst p)) # c (snd p) # [])"
    if "inj c" for c :: "'x \<Rightarrow> val"
    using that by (auto intro!: injI simp: prod_eq_iff inj_eq)
  have ti: "inj TextV" "inj IntV" by (auto intro: injI)
  have "distinct (map (\<lambda>r. map (get (keys_row r)) [''key'', ''db'']) (keysT T)) \<longleftrightarrow> distinct (map fst (keysT T))"
    "distinct (map (\<lambda>r. map (get (strings_row r)) [''key'', ''db'']) (stringsT T)) \<longleftrightarrow> distinct (map fst (stringsT T))"
    by (rule distinct_map_fst [OF _ inj_key_vals], rule get_key_cols)+
  moreover have "distinct (map (\<lambda>r. map (get (lists_row r)) [''key'', ''db'', ''idx'']) (listsT T)) \<longleftrightarrow>
      distinct (map fst (listsT T))"
    by (rule distinct_map_fst [OF _ k [OF ti(2)]]) simp
  moreover have "distinct (map (\<lambda>r. map (get (hashes_row r)) [''key'', ''db'', ''field'']) (hashesT T)) \<longleftrightarrow>
      distinct (map fst (hashesT T))"
    "distinct (map (\<lambda>r. map (get (sets_row r)) [''key'', ''db'', ''member'']) (setsT T)) \<longleftrightarrow>
      distinct (map fst (setsT T))"
    "distinct (map (\<lambda>r. map (get (zsets_row r)) [''key'', ''db'', ''member'']) (zsetsT T)) \<longleftrightarrow>
      distinct (map fst (zsetsT T))"
    by (rule distinct_map_fst [OF _ k [OF ti(1)]], simp)+
  ultimately show ?thesis
    by (simp add: schema_def keys_table_def data_table_def primary_key_holds_def pk_ok_def o_def del: list.map)
qed

lemma references_keys:
  assumes "tables_db T t = map f xs" "\<And>x. map (get (f x)) [''key'', ''db''] = key_vals (g x)"
  shows "foreign_keys_hold (tables_db T) (data_table t ks cs) \<longleftrightarrow> g ` set xs \<subseteq> fst ` set (keysT T)"
proof -
  have "get (f x) ''key'' = TextV (fst (g x))" "get (f x) ''db'' = IntV (snd (g x))" for x
    using assms(2) [of x] by (simp_all add: key_vals_def)
  then show ?thesis
    by (simp add: foreign_keys_hold_def data_table_def assms(1) image_subset_iff image_iff prod_eq_iff)
qed

lemma foreign_keys_tables: "list_all (foreign_keys_hold (tables_db T)) schema \<longleftrightarrow> fk_ok T"
proof -
  note data = references_keys [OF tables_db_simps(2) get_key_cols(2)]
    references_keys [OF tables_db_simps(3) get_key_cols(3)]
    references_keys [OF tables_db_simps(4) get_key_cols(4)]
    references_keys [OF tables_db_simps(5) get_key_cols(5)]
    references_keys [OF tables_db_simps(6) get_key_cols(6)]
  have "foreign_keys_hold D keys_table" for D by (simp add: keys_table_def foreign_keys_hold_def)
  then show ?thesis by (simp add: schema_def data fk_ok_def o_def)
qed

lemma violation_tables:
  "violation schema (tables_db T) =
     (if \<not> pk_ok T then Some ''PRIMARY KEY'' else if \<not> fk_ok T then Some ''FOREIGN KEY'' else None)"
  by (simp add: violation_def not_null_tables primary_keys_tables foreign_keys_tables)

section \<open>Property\<close>

text \<open>C17. The two schema texts that the program sends to SQLite and to PostgreSQL define the same tables, columns, primary
  keys, foreign keys with cascading deletes and index, and the rows of the six tables satisfy what these texts demand
  (\<^verbatim>\<open>NOT NULL\<close>, \<^verbatim>\<open>PRIMARY KEY\<close>, \<^verbatim>\<open>FOREIGN KEY\<close>) exactly when \<^const>\<open>schema_ok\<close> holds of them.\<close>

theorem schema_texts_agree:
  "parse_script sqliteSchema = Some schema_script \<and> parse_script postgresSchema = Some schema_script \<and>
   (violation schema (tables_db T) = None \<longleftrightarrow> schema_ok T)"
  by (simp add: parse_sqliteSchema parse_postgresSchema violation_tables schema_ok_def)

end
