(* ===== verification/Sql_Writes.thy ===== *)
theory Sql_Writes
  imports Schema_Text Sql_Laws
begin

text \<open>
  The statements of the store that write, text by text: \<open>writes e q args m\<close> says that the text \<open>q\<close>, and what the
  PostgreSQL driver makes of \<open>q\<close>, is a statement with as many parameters as \<open>args\<close> has values, and that running it
  does to the tables what the model's statement \<open>m\<close> does, whenever the tables satisfy the schema.
\<close>

section \<open>Meaning of a text\<close>

definition writes :: "environ \<Rightarrow> string \<Rightarrow> val list \<Rightarrow> stmt \<Rightarrow> bool" where
  "writes e q args m \<longleftrightarrow>
     (\<exists>st. is_write st \<and> prepare q args = Inr st \<and> prepare (rewritePlaceholders q) args = Inr st \<and>
       (\<forall>T. schema_ok T \<longrightarrow>
         run_write schema e (map (bind_val (dialect e)) args) st (tables_db T) = map_sum id (map_prod id tables_db) (m T)))"

text \<open>The PostgreSQL driver's rewriting does not change the tokens.\<close>

definition stable :: "string \<Rightarrow> bool" where
  "stable q \<longleftrightarrow> sql_tokens (rewritePlaceholders q) = sql_tokens q"

lemma prepare_stable:
  "stable q \<Longrightarrow> prepare (rewritePlaceholders q) args = prepare q args"
  by (simp add: prepare_def parse_sql_def stable_def)

lemma writesI:
  assumes "parse_sql q = Some st \<and> stable q" "params st = length args \<and> is_write st"
    "\<And>T. schema_ok T \<Longrightarrow> run_write schema e (map (bind_val (dialect e)) args) st (tables_db T) =
      map_sum id (map_prod id tables_db) (m T)"
  shows "writes e q args m"
  using assms by (auto simp: writes_def prepare_stable) (simp add: prepare_def)

section \<open>Evaluating conditions\<close>

lemma three_valued [simp]:
  "and3 (Some a) (Some b) = Some (a \<and> b)" "or3 (Some a) (Some b) = Some (a \<or> b)"
  "and3 (Some False) x = Some False" "and3 x (Some False) = Some False"
  "or3 (Some True) x = Some True" "or3 x (Some True) = Some True"
  "and3 (Some True) x = x" "or3 (Some False) x = x"
  by (auto simp: and3_def or3_def) (cases x; auto)+

lemma compare_simps [simp]:
  "compare e Equal (TextV s) (TextV t) = Some (s = t)"
  "compare e Equal (IntV a) (IntV b) = Some (a = b)"
  "compare e LessEq (IntV a) (IntV b) = Some (a \<le> b)"
  "compare e Greater (IntV a) (IntV b) = Some (b < a)"
  "compare e Less (RealV x) (RealV y) = Some (sc_less (dialect e) x y)"
  "compare e LessEq (RealV x) (RealV y) = Some (sc_le (dialect e) x y)"
  "compare e Greater (RealV x) (RealV y) = Some (sc_less (dialect e) y x)"
  "compare e GreaterEq (RealV x) (RealV y) = Some (sc_le (dialect e) y x)"
  "compare e c v Null = None"
  by simp_all (cases v; simp)

text \<open>The conditions the store writes.\<close>

abbreviation column_is :: "string \<Rightarrow> nat \<Rightarrow> sql_cond" where
  "column_is c n \<equiv> Compare (Column c) Equal (Param n)"

abbreviation key_is :: "nat \<Rightarrow> nat \<Rightarrow> sql_cond" where
  "key_is m n \<equiv> And (column_is ''key'' m) (column_is ''db'' n)"

abbreviation entry_is :: "string \<Rightarrow> nat \<Rightarrow> nat \<Rightarrow> nat \<Rightarrow> sql_cond" where
  "entry_is c m n k \<equiv> And (column_is ''key'' m) (And (column_is ''db'' n) (column_is c k))"

abbreviation expired_at :: "nat \<Rightarrow> sql_cond" where
  "expired_at n \<equiv> And (NotNull (Column ''expires_at'')) (Compare (Column ''expires_at'') LessEq (Param n))"

section \<open>Tables after a statement\<close>

lemma tables_db_update:
  "(tables_db T)(''keys'' := map keys_row ks) = tables_db (T\<lparr>keysT := ks\<rparr>)"
  "(tables_db T)(''strings'' := map strings_row ss) = tables_db (T\<lparr>stringsT := ss\<rparr>)"
  "(tables_db T)(''lists'' := map lists_row ls) = tables_db (T\<lparr>listsT := ls\<rparr>)"
  "(tables_db T)(''hashes'' := map hashes_row hs) = tables_db (T\<lparr>hashesT := hs\<rparr>)"
  "(tables_db T)(''sets'' := map sets_row ms) = tables_db (T\<lparr>setsT := ms\<rparr>)"
  "(tables_db T)(''zsets'' := map zsets_row zs) = tables_db (T\<lparr>zsetsT := zs\<rparr>)"
  by (auto simp: tables_db_def fun_eq_iff)

lemma finish_tables:
  "finish schema n (tables_db T) =
     (if \<not> pk_ok T then Inl (ErrConstraint ''PRIMARY KEY'')
      else if \<not> fk_ok T then Inl (ErrConstraint ''FOREIGN KEY'')
      else Inr (n, tables_db T))"
  by (simp add: finish_def violation_tables)

lemma find_table_schema [simp]:
  "find_table schema ''keys'' = Some keys_table"
  "find_table schema ''strings'' = Some (data_table ''strings'' [] [''value''])"
  "find_table schema ''lists'' = Some (data_table ''lists'' [''idx''] [''value''])"
  "find_table schema ''hashes'' = Some (data_table ''hashes'' [''field''] [''value''])"
  "find_table schema ''sets'' = Some (data_table ''sets'' [''member''] [])"
  "find_table schema ''zsets'' = Some (data_table ''zsets'' [''member''] [''score''])"
  by (simp_all add: find_table_def schema_def keys_table_def data_table_def)

section \<open>Deleting\<close>

text \<open>Deleting keys takes the rows that reference them along; deleting data rows does not.\<close>

lemma refers_data:
  assumes "map (get r) [''key'', ''db''] = key_vals kd"
  shows "refers (data_table t ks cs) ''keys'' (map keys_row rows) r \<longleftrightarrow> kd \<in> fst ` set rows"
proof -
  have "get r ''key'' = TextV (fst kd)" "get r ''db'' = IntV (snd kd)"
    using assms by (simp_all add: key_vals_def)
  then show ?thesis by (auto simp: refers_def data_table_def image_iff prod_eq_iff)
qed

lemma cascade_keys:
  assumes "keysT T' = [r \<leftarrow> keysT T. fst r \<notin> fst ` set gone]"
    and "T' = T\<lparr>keysT := keysT T'\<rparr>"
  shows "cascade schema ''keys'' (map keys_row gone) (tables_db T') = tables_db (drop_keys (fst ` set gone) T)"
proof (rule ext)
  fix u
  have D: "tables_db T' = (tables_db T)(''keys'' := map keys_row [r \<leftarrow> keysT T. fst r \<notin> fst ` set gone])"
    using assms tables_db_update(1) by metis
  have none: "\<not> refers keys_table t g r" for t g r by (simp add: refers_def keys_table_def)
  consider "u = ''keys''" | "u = ''strings''" | "u = ''lists''" | "u = ''hashes''" | "u = ''sets''" | "u = ''zsets''"
    | "u \<notin> {''keys'', ''strings'', ''lists'', ''hashes'', ''sets'', ''zsets''}" by auto
  then show "cascade schema ''keys'' (map keys_row gone) (tables_db T') u = tables_db (drop_keys (fst ` set gone) T) u"
  proof cases
    case 7
    then have "find_table schema u = None"
      by (auto simp: find_table_def schema_def keys_table_def data_table_def)
    with 7 show ?thesis by (simp add: cascade_def D) (simp add: tables_db_def)
  qed (simp_all add: cascade_def D none drop_keys_def filter_map o_def refers_data [OF get_key_cols(2)]
      refers_data [OF get_key_cols(3)] refers_data [OF get_key_cols(4)] refers_data [OF get_key_cols(5)]
      refers_data [OF get_key_cols(6)] del: list.map)
qed

lemma filter_not_gone:
  assumes "distinct (map fst xs)"
  shows "[r \<leftarrow> xs. \<not> Q r] = [r \<leftarrow> xs. fst r \<notin> fst ` set (filter Q xs)]"
proof (rule filter_cong [OF refl])
  fix r assume "r \<in> set xs"
  moreover have "inj_on fst (set xs)" using assms by (simp add: distinct_map)
  ultimately show "(\<not> Q r) = (fst r \<notin> fst ` set (filter Q xs))"
    by (auto dest: inj_onD)
qed

lemma run_delete_keys:
  assumes "pk_ok T" "\<And>r. truth e args (tables_db T) [] (keys_row r) cnd = Some (P (fst r) (fst (snd r)) (snd (snd r)))"
  shows "run_write schema e args (Delete ''keys'' cnd) (tables_db T) =
    map_sum id (map_prod id tables_db) (delete_keys P T)"
proof -
  let ?Q = "\<lambda>r. P (fst r) (fst (snd r)) (snd (snd r))"
  let ?gone = "filter ?Q (keysT T)"
  have d: "distinct (map fst (keysT T))" using assms(1) by (simp add: pk_ok_def)
  have Q: "(\<lambda>(kd, ty, ex). P kd ty ex) = ?Q" by auto
  have m: "matching e args (tables_db T) ''keys'' cnd = map keys_row ?gone"
    by (simp add: matching_def filter_map o_def assms(2))
  have "[r \<leftarrow> map keys_row (keysT T). truth e args (tables_db T) [] r cnd \<noteq> Some True] =
      map keys_row [r \<leftarrow> keysT T. fst r \<notin> fst ` set ?gone]"
    unfolding filter_not_gone [OF d, of ?Q, symmetric] by (simp add: filter_map o_def assms(2))
  then show ?thesis
    by (simp add: run_write_def Let_def m tables_db_update cascade_keys delete_keys_def Q)
qed

lemma cascade_data: "t \<noteq> ''keys'' \<Longrightarrow> cascade schema t gone D = D"
proof (rule ext)
  fix u assume t: "t \<noteq> ''keys''"
  have "\<not> refers d t gone r" if "find_table schema u = Some d" for d r
  proof -
    from that have "d \<in> set schema" by (auto simp: find_table_def find_Some_iff)
    with t show ?thesis by (auto simp: schema_def keys_table_def data_table_def refers_def)
  qed
  then show "cascade schema t gone D u = D u" by (simp add: cascade_def split: option.splits)
qed

lemma run_delete_data:
  assumes "t \<noteq> ''keys''" "find_table schema t \<noteq> None" "tables_db T t = map f xs"
    "\<And>r. truth e args (tables_db T) [] (f r) cnd = Some (Q r)"
  shows "run_write schema e args (Delete t cnd) (tables_db T) =
    Inr (length (filter Q xs), (tables_db T)(t := map f [r \<leftarrow> xs. \<not> Q r]))"
  using assms by (simp add: run_write_def cascade_data matching_def filter_map o_def)

lemma schema_pk [simp]: "schema_ok T \<Longrightarrow> pk_ok T"
  by (simp add: schema_ok_def)

lemma delete_keysI:
  assumes "parse_sql q = Some (Delete ''keys'' cnd) \<and> stable q" "cond_params cnd = length args"
    "\<And>T r. truth e (map (bind_val (dialect e)) args) (tables_db T) [] (keys_row r) cnd =
      Some (P (fst r) (fst (snd r)) (snd (snd r)))"
  shows "writes e q args (delete_keys P)"
  using assms by (intro writesI [OF assms(1)]) (simp_all add: run_delete_keys)

lemma text_delete_key:
  "writes e ''DELETE FROM keys WHERE key=? AND db=?'' [TextV k, IntV d] (delete_key (k, d))"
proof -
  have "parse_sql ''DELETE FROM keys WHERE key=? AND db=?'' = Some (Delete ''keys'' (key_is 1 2)) \<and>
      stable ''DELETE FROM keys WHERE key=? AND db=?''"
    by code_simp
  then show ?thesis unfolding delete_key_def by (rule delete_keysI) (auto simp: prod_eq_iff)
qed

lemma text_delete_expired:
  "writes e ''DELETE FROM keys WHERE key=? AND db=? AND expires_at IS NOT NULL AND expires_at <= ?''
     [TextV k, IntV d, IntV t] (delete_keys (\<lambda>kd ty ex. kd = (k, d) \<and> \<not> alive t ex))"
proof -
  have "parse_sql ''DELETE FROM keys WHERE key=? AND db=? AND expires_at IS NOT NULL AND expires_at <= ?'' =
      Some (Delete ''keys'' (And (column_is ''key'' 1) (And (column_is ''db'' 2) (expired_at 3)))) \<and>
      stable ''DELETE FROM keys WHERE key=? AND db=? AND expires_at IS NOT NULL AND expires_at <= ?''"
    by code_simp
  then show ?thesis
    by (rule delete_keysI) (auto simp: prod_eq_iff alive_def opt_int_def not_less split: option.splits)
qed

lemma text_sweep:
  "writes e ''DELETE FROM keys WHERE expires_at IS NOT NULL AND expires_at <= ?'' [IntV t]
     (delete_keys (\<lambda>kd ty ex. \<not> alive t ex))"
proof -
  have "parse_sql ''DELETE FROM keys WHERE expires_at IS NOT NULL AND expires_at <= ?'' =
      Some (Delete ''keys'' (expired_at 1)) \<and>
      stable ''DELETE FROM keys WHERE expires_at IS NOT NULL AND expires_at <= ?''"
    by code_simp
  then show ?thesis
    by (rule delete_keysI) (auto simp: alive_def opt_int_def not_less split: option.splits)
qed

lemma text_flushdb:
  "writes e ''DELETE FROM keys WHERE db=?'' [IntV d] (delete_keys (\<lambda>kd ty ex. snd kd = d))"
proof -
  have "parse_sql ''DELETE FROM keys WHERE db=?'' = Some (Delete ''keys'' (column_is ''db'' 1)) \<and>
      stable ''DELETE FROM keys WHERE db=?''"
    by code_simp
  then show ?thesis by (rule delete_keysI) simp_all
qed

lemma text_flushall: "writes e ''DELETE FROM keys'' [] (delete_keys (\<lambda>kd ty ex. True))"
proof -
  have "parse_sql ''DELETE FROM keys'' = Some (Delete ''keys'' Always) \<and> stable ''DELETE FROM keys''"
    by code_simp
  then show ?thesis by (rule delete_keysI) simp_all
qed

lemma delete_dataI:
  assumes "parse_sql q = Some (Delete t cnd) \<and> stable q" "cond_params cnd = length args"
    "t \<noteq> ''keys''" "find_table schema t \<noteq> None" "\<And>T. tables_db T t = map f (rows T)"
    "\<And>T r. truth e (map (bind_val (dialect e)) args) (tables_db T) [] (f r) cnd = Some (Q r)"
    "\<And>T. m T = Inr (length (filter Q (rows T)), put T [r \<leftarrow> rows T. \<not> Q r])"
    "\<And>T xs. (tables_db T)(t := map f xs) = tables_db (put T xs)"
  shows "writes e q args m"
  using assms by (intro writesI [OF assms(1)]) (simp_all add: run_delete_data)

lemma text_delete_list:
  "writes e ''DELETE FROM lists WHERE key=? AND db=?'' [TextV k, IntV d] (delete_list_rows (k, d))"
proof -
  have "parse_sql ''DELETE FROM lists WHERE key=? AND db=?'' = Some (Delete ''lists'' (key_is 1 2)) \<and>
      stable ''DELETE FROM lists WHERE key=? AND db=?''"
    by code_simp
  then show ?thesis
    by (rule delete_dataI [where f = lists_row and rows = listsT and Q = "\<lambda>r. fst (fst r) = (k, d)" and
          put = "\<lambda>T xs. T\<lparr>listsT := xs\<rparr>"])
      (auto simp: prod_eq_iff delete_list_rows_def tables_db_update)
qed

lemma text_delete_field:
  "writes e ''DELETE FROM hashes WHERE key=? AND db=? AND field=?'' [TextV k, IntV d, TextV f]
     (delete_field (k, d) f)"
proof -
  have "parse_sql ''DELETE FROM hashes WHERE key=? AND db=? AND field=?'' =
      Some (Delete ''hashes'' (entry_is ''field'' 1 2 3)) \<and>
      stable ''DELETE FROM hashes WHERE key=? AND db=? AND field=?''"
    by code_simp
  then show ?thesis
    by (rule delete_dataI [where f = hashes_row and rows = hashesT and Q = "\<lambda>r. fst r = ((k, d), f)" and
          put = "\<lambda>T xs. T\<lparr>hashesT := xs\<rparr>"])
      (auto simp: prod_eq_iff delete_field_def tables_db_update)
qed

lemma text_delete_member:
  "writes e ''DELETE FROM sets WHERE key=? AND db=? AND member=?'' [TextV k, IntV d, TextV m]
     (delete_member (k, d) m)"
proof -
  have "parse_sql ''DELETE FROM sets WHERE key=? AND db=? AND member=?'' =
      Some (Delete ''sets'' (entry_is ''member'' 1 2 3)) \<and>
      stable ''DELETE FROM sets WHERE key=? AND db=? AND member=?''"
    by code_simp
  then show ?thesis
    by (rule delete_dataI [where f = sets_row and rows = setsT and Q = "\<lambda>r. fst r = ((k, d), m)" and
          put = "\<lambda>T xs. T\<lparr>setsT := xs\<rparr>"])
      (auto simp: prod_eq_iff delete_member_def tables_db_update)
qed

lemma text_delete_score:
  "writes e ''DELETE FROM zsets WHERE key=? AND db=? AND member=?'' [TextV k, IntV d, TextV m]
     (delete_score (k, d) m)"
proof -
  have "parse_sql ''DELETE FROM zsets WHERE key=? AND db=? AND member=?'' =
      Some (Delete ''zsets'' (entry_is ''member'' 1 2 3)) \<and>
      stable ''DELETE FROM zsets WHERE key=? AND db=? AND member=?''"
    by code_simp
  then show ?thesis
    by (rule delete_dataI [where f = zsets_row and rows = zsetsT and Q = "\<lambda>r. fst r = ((k, d), m)" and
          put = "\<lambda>T xs. T\<lparr>zsetsT := xs\<rparr>"])
      (auto simp: prod_eq_iff delete_score_def tables_db_update)
qed

section \<open>Inserting\<close>

text \<open>Adding a row succeeds unless its primary key is taken or its key is missing.\<close>

definition added :: "nat \<Rightarrow> tables \<Rightarrow> error + (nat \<times> tables)" where
  "added n T =
     (if \<not> pk_ok T then Inl (ErrConstraint ''PRIMARY KEY'')
      else if \<not> fk_ok T then Inl (ErrConstraint ''FOREIGN KEY'') else Inr (n, T))"

lemma finish_added: "finish schema n (tables_db T) = map_sum id (map_prod id tables_db) (added n T)"
  by (simp add: finish_tables added_def)

lemma finish_ok: "schema_ok T \<Longrightarrow> finish schema n (tables_db T) = Inr (n, tables_db T)"
  by (simp add: finish_tables schema_ok_def)

lemma append_ok:
  assumes "schema_ok T"
  shows "pk_ok (T\<lparr>keysT := keysT T @ [(kd, x)]\<rparr>) \<longleftrightarrow> \<not> has_key T kd" "fk_ok (T\<lparr>keysT := keysT T @ [(kd, x)]\<rparr>)"
    "pk_ok (T\<lparr>stringsT := stringsT T @ [(kd, s)]\<rparr>) \<longleftrightarrow> kd \<notin> fst ` set (stringsT T)"
    "fk_ok (T\<lparr>stringsT := stringsT T @ [(kd, s)]\<rparr>) \<longleftrightarrow> has_key T kd"
    "pk_ok (T\<lparr>listsT := listsT T @ [((kd, i), l)]\<rparr>) \<longleftrightarrow> (kd, i) \<notin> fst ` set (listsT T)"
    "fk_ok (T\<lparr>listsT := listsT T @ [((kd, i), l)]\<rparr>) \<longleftrightarrow> has_key T kd"
    "pk_ok (T\<lparr>hashesT := hashesT T @ [((kd, f), h)]\<rparr>) \<longleftrightarrow> (kd, f) \<notin> fst ` set (hashesT T)"
    "fk_ok (T\<lparr>hashesT := hashesT T @ [((kd, f), h)]\<rparr>) \<longleftrightarrow> has_key T kd"
    "pk_ok (T\<lparr>setsT := setsT T @ [((kd, m), u)]\<rparr>) \<longleftrightarrow> (kd, m) \<notin> fst ` set (setsT T)"
    "fk_ok (T\<lparr>setsT := setsT T @ [((kd, m), u)]\<rparr>) \<longleftrightarrow> has_key T kd"
    "pk_ok (T\<lparr>zsetsT := zsetsT T @ [((kd, m), z)]\<rparr>) \<longleftrightarrow> (kd, m) \<notin> fst ` set (zsetsT T)"
    "fk_ok (T\<lparr>zsetsT := zsetsT T @ [((kd, m), z)]\<rparr>) \<longleftrightarrow> has_key T kd"
  using assms by (auto simp: schema_ok_def pk_ok_def fk_ok_def Let_def has_key_def)

text \<open>A row of a data table has its key.\<close>

lemma rows_have_key:
  assumes "schema_ok T"
  shows "kd \<in> fst ` set (stringsT T) \<Longrightarrow> has_key T kd" "(kd, i) \<in> fst ` set (listsT T) \<Longrightarrow> has_key T kd"
    "(kd, f) \<in> fst ` set (hashesT T) \<Longrightarrow> has_key T kd" "(kd, f) \<in> fst ` set (setsT T) \<Longrightarrow> has_key T kd"
    "(kd, f) \<in> fst ` set (zsetsT T) \<Longrightarrow> has_key T kd"
proof -
  have sub: "kd \<in> B" if "(kd, c) \<in> fst ` A" "(fst \<circ> fst) ` A \<subseteq> B" for c A B
    using that by force
  from assms have fk: "fk_ok T" by (simp add: schema_ok_def)
  show "kd \<in> fst ` set (stringsT T) \<Longrightarrow> has_key T kd" using fk by (auto simp: fk_ok_def Let_def has_key_def)
  have ids: "(fst \<circ> fst) ` set (listsT T) \<subseteq> fst ` set (keysT T)" "(fst \<circ> fst) ` set (hashesT T) \<subseteq> fst ` set (keysT T)"
    "(fst \<circ> fst) ` set (setsT T) \<subseteq> fst ` set (keysT T)" "(fst \<circ> fst) ` set (zsetsT T) \<subseteq> fst ` set (keysT T)"
    using fk unfolding fk_ok_def Let_def by simp_all
  show "(kd, i) \<in> fst ` set (listsT T) \<Longrightarrow> has_key T kd" "(kd, f) \<in> fst ` set (hashesT T) \<Longrightarrow> has_key T kd"
    "(kd, f) \<in> fst ` set (setsT T) \<Longrightarrow> has_key T kd" "(kd, f) \<in> fst ` set (zsetsT T) \<Longrightarrow> has_key T kd"
    unfolding has_key_def by (fact sub [OF _ ids(1)] sub [OF _ ids(2)] sub [OF _ ids(3)] sub [OF _ ids(4)])+
qed

lemma conflict_iff:
  assumes "\<And>r. C (f r) \<longleftrightarrow> fst r = k"
  shows "(\<exists>r \<in> set (map f xs). C r) \<longleftrightarrow> k \<in> fst ` set xs"
  by (simp add: assms image_iff) metis

lemma insertI_text:
  assumes "parse_sql q = Some (Insert t cs (Values vs) Abort) \<and> stable q" "max_params (map expr_params vs) = length args"
    "find_table schema t = Some d" "\<And>T. tables_db T t = map f (rows T)"
    "\<And>D. new_row d cs (map (eval e (map (bind_val (dialect e)) args) D [] []) vs) = f x"
    "\<And>T xs. (tables_db T)(t := map f xs) = tables_db (put T xs)"
    "\<And>T. schema_ok T \<Longrightarrow> m T = added 1 (put T (rows T @ [x]))"
  shows "writes e q args m"
proof (rule writesI [OF assms(1)])
  fix T assume "schema_ok T"
  moreover have "(tables_db T)(t := map f (rows T) @ [f x]) = tables_db (put T (rows T @ [x]))"
    using assms(6) [of T "rows T @ [x]"] by simp
  ultimately show "run_write schema e (map (bind_val (dialect e)) args) (Insert t cs (Values vs) Abort) (tables_db T) =
      map_sum id (map_prod id tables_db) (m T)"
    using assms by (simp add: run_write_def add_row_def finish_added [symmetric])
qed (use assms in simp)

lemma insert_nothingI:
  assumes "parse_sql q = Some (Insert t cs (Values vs) (DoNothing pk)) \<and> stable q"
    "max_params (map expr_params vs) = length args"
    "find_table schema t = Some d" "\<And>T. tables_db T t = map f (rows T)"
    "\<And>D. new_row d cs (map (eval e (map (bind_val (dialect e)) args) D [] []) vs) = f x"
    "\<And>T xs. (tables_db T)(t := map f xs) = tables_db (put T xs)"
    "\<And>r. map (get (f r)) pk = map (get (f x)) pk \<longleftrightarrow> fst r = fst x"
    "\<And>T. schema_ok T \<Longrightarrow> m T = (if fst x \<in> fst ` set (rows T) then Inr (0, T) else added 1 (put T (rows T @ [x])))"
  shows "writes e q args m"
proof (rule writesI [OF assms(1)])
  fix T assume T: "schema_ok T"
  have "(tables_db T)(t := map f (rows T) @ [f x]) = tables_db (put T (rows T @ [x]))"
    using assms(6) [of T "rows T @ [x]"] by simp
  moreover have "(\<exists>r \<in> set (map f (rows T)). map (get r) pk = map (get (f x)) pk) \<longleftrightarrow> fst x \<in> fst ` set (rows T)"
    by (rule conflict_iff) (rule assms(7))
  moreover have "(tables_db T)(t := map f (rows T)) = tables_db T" using assms(4) by (metis fun_upd_triv)
  ultimately show "run_write schema e (map (bind_val (dialect e)) args) (Insert t cs (Values vs) (DoNothing pk))
      (tables_db T) = map_sum id (map_prod id tables_db) (m T)"
    using assms T by (simp add: run_write_def add_row_def finish_added [symmetric] finish_ok del: set_map)
qed (use assms in simp)

lemma upsertI:
  assumes "parse_sql q = Some (Insert t cs (Values vs) (DoUpdate pk sets)) \<and> stable q"
    "max (max_params (map expr_params vs)) (max_params (map (expr_params \<circ> snd) sets)) = length args"
    "find_table schema t = Some d" "\<And>T. tables_db T t = map f (rows T)"
    "\<And>D. new_row d cs (map (eval e (map (bind_val (dialect e)) args) D [] []) vs) = f x"
    "\<And>T xs. (tables_db T)(t := map f xs) = tables_db (put T xs)"
    "\<And>r. map (get (f r)) pk = map (get (f x)) pk \<longleftrightarrow> fst r = fst x"
    "\<And>D r. assign e (map (bind_val (dialect e)) args) D (f x) sets (f r) = f (fst r, upd (snd r))"
    "\<And>T. schema_ok T \<Longrightarrow> fst x \<in> fst ` set (rows T) \<Longrightarrow> schema_ok (put T (update_rows (fst x) upd (rows T)))"
    "\<And>T. schema_ok T \<Longrightarrow> m T = (if fst x \<in> fst ` set (rows T) then Inr (1, put T (update_rows (fst x) upd (rows T)))
       else added 1 (put T (rows T @ [x])))"
  shows "writes e q args m"
proof (rule writesI [OF assms(1)])
  fix T assume T: "schema_ok T"
  let ?args = "map (bind_val (dialect e)) args"
  have "(tables_db T)(t := map f (rows T) @ [f x]) = tables_db (put T (rows T @ [x]))"
    using assms(6) [of T "rows T @ [x]"] by simp
  moreover have "(\<exists>r \<in> set (map f (rows T)). map (get r) pk = map (get (f x)) pk) \<longleftrightarrow> fst x \<in> fst ` set (rows T)"
    by (rule conflict_iff) (rule assms(7))
  moreover have "map (\<lambda>r. if map (get r) pk = map (get (f x)) pk then assign e ?args (tables_db T) (f x) sets r else r)
      (map f (rows T)) = map f (update_rows (fst x) upd (rows T))"
    unfolding update_rows_def map_map o_def assms(7,8) by (rule map_cong) auto
  ultimately show "run_write schema e ?args (Insert t cs (Values vs) (DoUpdate pk sets)) (tables_db T) =
      map_sum id (map_prod id tables_db) (m T)"
    using assms T by (simp add: run_write_def add_row_def finish_added [symmetric] finish_ok del: set_map map_map)
qed (use assms in simp)

text \<open>Updating an association list at a key that is there changes its rows in place.\<close>

lemma update_rows_absent: "k \<notin> fst ` set xs \<Longrightarrow> update_rows k f xs = xs"
  by (induction xs) (auto simp: update_rows_def)

lemma update_rows_Cons: "update_rows k f (x # xs) = (fst x, if fst x = k then f (snd x) else snd x) # update_rows k f xs"
  by (cases x) (simp add: update_rows_def)

lemma update_alist:
  "distinct (map fst xs) \<Longrightarrow> AList.update k v xs = (if k \<in> fst ` set xs then update_rows k (\<lambda>_. v) xs else xs @ [(k, v)])"
  by (induction xs) (auto simp: update_rows_Cons update_rows_absent)

lemma update_rows_at:
  assumes "distinct (map fst xs)" "map_of xs k = Some v"
  shows "update_rows k f xs = update_rows k (\<lambda>_. f v) xs"
proof -
  have "x = (k, v)" if "x \<in> set xs" "fst x = k" for x
    using assms that by (metis map_of_eq_Some_iff option.inject prod.collapse)
  then show ?thesis unfolding update_rows_def by (intro map_cong refl) auto
qed

lemma update_rows_ok [simp]:
  "schema_ok (T\<lparr>keysT := update_rows k f (keysT T)\<rparr>) = schema_ok T"
  "schema_ok (T\<lparr>stringsT := update_rows k g (stringsT T)\<rparr>) = schema_ok T"
  "schema_ok (T\<lparr>hashesT := update_rows i h (hashesT T)\<rparr>) = schema_ok T"
  "schema_ok (T\<lparr>zsetsT := update_rows i z (zsetsT T)\<rparr>) = schema_ok T"
  by (simp_all add: schema_ok_def pk_ok_def fk_ok_def o_def ids_update_rows)

lemma schema_distinct:
  assumes "schema_ok T"
  shows "distinct (map fst (keysT T))" "distinct (map fst (stringsT T))" "distinct (map fst (hashesT T))"
    "distinct (map fst (zsetsT T))"
  using assms by (simp_all add: schema_ok_def pk_ok_def)

lemma upsert_key_type_rows:
  assumes "schema_ok T"
  shows "upsert_key_type kd ty T =
    Inr (1, T\<lparr>keysT := (if kd \<in> fst ` set (keysT T) then update_rows kd (\<lambda>(_, ex). (ty, ex)) (keysT T)
      else keysT T @ [(kd, ty, None)])\<rparr>)"
proof (cases "map_of (keysT T) kd")
  case None
  then have "kd \<notin> fst ` set (keysT T)" by (simp add: map_of_eq_None_iff)
  with None show ?thesis by (simp add: upsert_key_type_def update_alist schema_distinct [OF assms])
next
  case (Some v)
  then have "kd \<in> fst ` set (keysT T)" by (metis domI dom_map_of_conv_image_fst)
  moreover obtain ty' ex where "v = (ty', ex)" by (cases v)
  ultimately show ?thesis
    using Some update_rows_at [OF schema_distinct(1) [OF assms] Some, of "\<lambda>(_, ex). (ty, ex)"]
    by (simp add: upsert_key_type_def update_alist schema_distinct [OF assms])
qed

lemma bind_opt_int [simp]: "bind_val d (opt_int ex) = opt_int ex"
  by (cases ex) (simp_all add: opt_int_def)

lemmas insert_simps = tables_db_update added_def append_ok max_params_def new_row_def keys_table_def data_table_def
  col_def key_cols_def prod_eq_iff get_def

lemmas upsert_simps = insert_simps assign_def update_alist schema_distinct

lemma text_insert_key:
  "writes e (''INSERT INTO keys(key, db, type, expires_at) VALUES(?,?,?,?)'') [TextV k, IntV d, TextV ty, opt_int ex] (insert_key (k, d) ty ex)"
proof -
  have "parse_sql (''INSERT INTO keys(key, db, type, expires_at) VALUES(?,?,?,?)'') =
      Some (Insert ''keys'' [''key'', ''db'', ''type'', ''expires_at''] (Values [Param 1, Param 2, Param 3, Param 4]) Abort) \<and>
      stable (''INSERT INTO keys(key, db, type, expires_at) VALUES(?,?,?,?)'')"
    by code_simp
  then show ?thesis
    by (rule insertI_text [where f = keys_row and rows = keysT and x = "((k, d), ty, ex)" and
          put = "\<lambda>T xs. T\<lparr>keysT := xs\<rparr>"]) (auto simp: insert_simps insert_key_def dest: rows_have_key)
qed

lemma text_insert_string:
  "writes e (''INSERT INTO strings(key, db, value) VALUES(?,?,?)'') [TextV k, IntV d, TextV v] (insert_string (k, d) v)"
proof -
  have "parse_sql (''INSERT INTO strings(key, db, value) VALUES(?,?,?)'') =
      Some (Insert ''strings'' [''key'', ''db'', ''value''] (Values [Param 1, Param 2, Param 3]) Abort) \<and>
      stable (''INSERT INTO strings(key, db, value) VALUES(?,?,?)'')"
    by code_simp
  then show ?thesis
    by (rule insertI_text [where f = strings_row and rows = stringsT and x = "((k, d), v)" and
          put = "\<lambda>T xs. T\<lparr>stringsT := xs\<rparr>"]) (auto simp: insert_simps insert_string_def dest: rows_have_key)
qed

lemma text_insert_list_row:
  "writes e (''INSERT INTO lists(key,db,idx,value) VALUES(?,?,?,?)'') [TextV k, IntV d, IntV i, TextV v] (insert_list_row (k, d) i v)"
proof -
  have "parse_sql (''INSERT INTO lists(key,db,idx,value) VALUES(?,?,?,?)'') =
      Some (Insert ''lists'' [''key'', ''db'', ''idx'', ''value''] (Values [Param 1, Param 2, Param 3, Param 4]) Abort) \<and>
      stable (''INSERT INTO lists(key,db,idx,value) VALUES(?,?,?,?)'')"
    by code_simp
  then show ?thesis
    by (rule insertI_text [where f = lists_row and rows = listsT and x = "(((k, d), i), v)" and
          put = "\<lambda>T xs. T\<lparr>listsT := xs\<rparr>"]) (auto simp: insert_simps insert_list_row_def dest: rows_have_key)
qed

lemma text_ensure_list:
  "writes e (''INSERT INTO keys(key,db,type) VALUES(?,?,'list') ON CONFLICT(key,db) DO NOTHING'') [TextV k, IntV d] (insert_key_or_nothing (k, d) ''list'')"
proof -
  have "parse_sql (''INSERT INTO keys(key,db,type) VALUES(?,?,'list') ON CONFLICT(key,db) DO NOTHING'') =
      Some (Insert ''keys'' [''key'', ''db'', ''type''] (Values [Param 1, Param 2, Const ''list'']) (DoNothing [''key'', ''db''])) \<and>
      stable (''INSERT INTO keys(key,db,type) VALUES(?,?,'list') ON CONFLICT(key,db) DO NOTHING'')"
    by code_simp
  then show ?thesis
    by (rule insert_nothingI [where f = keys_row and rows = keysT and x = "((k, d), ''list'', None)" and
          put = "\<lambda>T xs. T\<lparr>keysT := xs\<rparr>"]) (auto simp: insert_simps insert_key_or_nothing_def has_key_def opt_int_def)
qed

lemma text_ensure_hash:
  "writes e (''INSERT INTO keys(key,db,type) VALUES(?,?,'hash') ON CONFLICT(key,db) DO NOTHING'') [TextV k, IntV d] (insert_key_or_nothing (k, d) ''hash'')"
proof -
  have "parse_sql (''INSERT INTO keys(key,db,type) VALUES(?,?,'hash') ON CONFLICT(key,db) DO NOTHING'') =
      Some (Insert ''keys'' [''key'', ''db'', ''type''] (Values [Param 1, Param 2, Const ''hash'']) (DoNothing [''key'', ''db''])) \<and>
      stable (''INSERT INTO keys(key,db,type) VALUES(?,?,'hash') ON CONFLICT(key,db) DO NOTHING'')"
    by code_simp
  then show ?thesis
    by (rule insert_nothingI [where f = keys_row and rows = keysT and x = "((k, d), ''hash'', None)" and
          put = "\<lambda>T xs. T\<lparr>keysT := xs\<rparr>"]) (auto simp: insert_simps insert_key_or_nothing_def has_key_def opt_int_def)
qed

lemma text_ensure_set:
  "writes e (''INSERT INTO keys(key,db,type) VALUES(?,?,'set') ON CONFLICT(key,db) DO NOTHING'') [TextV k, IntV d] (insert_key_or_nothing (k, d) ''set'')"
proof -
  have "parse_sql (''INSERT INTO keys(key,db,type) VALUES(?,?,'set') ON CONFLICT(key,db) DO NOTHING'') =
      Some (Insert ''keys'' [''key'', ''db'', ''type''] (Values [Param 1, Param 2, Const ''set'']) (DoNothing [''key'', ''db''])) \<and>
      stable (''INSERT INTO keys(key,db,type) VALUES(?,?,'set') ON CONFLICT(key,db) DO NOTHING'')"
    by code_simp
  then show ?thesis
    by (rule insert_nothingI [where f = keys_row and rows = keysT and x = "((k, d), ''set'', None)" and
          put = "\<lambda>T xs. T\<lparr>keysT := xs\<rparr>"]) (auto simp: insert_simps insert_key_or_nothing_def has_key_def opt_int_def)
qed

lemma text_ensure_zset:
  "writes e (''INSERT INTO keys(key,db,type) VALUES(?,?,'zset') ON CONFLICT(key,db) DO NOTHING'') [TextV k, IntV d] (insert_key_or_nothing (k, d) ''zset'')"
proof -
  have "parse_sql (''INSERT INTO keys(key,db,type) VALUES(?,?,'zset') ON CONFLICT(key,db) DO NOTHING'') =
      Some (Insert ''keys'' [''key'', ''db'', ''type''] (Values [Param 1, Param 2, Const ''zset'']) (DoNothing [''key'', ''db''])) \<and>
      stable (''INSERT INTO keys(key,db,type) VALUES(?,?,'zset') ON CONFLICT(key,db) DO NOTHING'')"
    by code_simp
  then show ?thesis
    by (rule insert_nothingI [where f = keys_row and rows = keysT and x = "((k, d), ''zset'', None)" and
          put = "\<lambda>T xs. T\<lparr>keysT := xs\<rparr>"]) (auto simp: insert_simps insert_key_or_nothing_def has_key_def opt_int_def)
qed

lemma text_insert_member:
  "writes e (''INSERT INTO sets(key,db,member) VALUES(?,?,?) ON CONFLICT(key,db,member) DO NOTHING'') [TextV k, IntV d, TextV m] (insert_member_or_nothing (k, d) m)"
proof -
  have "parse_sql (''INSERT INTO sets(key,db,member) VALUES(?,?,?) ON CONFLICT(key,db,member) DO NOTHING'') =
      Some (Insert ''sets'' [''key'', ''db'', ''member''] (Values [Param 1, Param 2, Param 3]) (DoNothing [''key'', ''db'', ''member''])) \<and>
      stable (''INSERT INTO sets(key,db,member) VALUES(?,?,?) ON CONFLICT(key,db,member) DO NOTHING'')"
    by code_simp
  then show ?thesis
    by (rule insert_nothingI [where f = sets_row and rows = setsT and x = "(((k, d), m), ())" and
          put = "\<lambda>T xs. T\<lparr>setsT := xs\<rparr>"]) (auto simp: insert_simps insert_member_or_nothing_def dest: rows_have_key)
qed

lemma text_upsert_key_persist:
  "writes e (''INSERT INTO keys(key, db, type, expires_at) VALUES(?,?,?,NULL)
			 ON CONFLICT(key,db) DO UPDATE SET type=excluded.type, expires_at=NULL'') [TextV k, IntV d, TextV ty] (upsert_key_row (k, d) ty None)"
proof -
  have "parse_sql (''INSERT INTO keys(key, db, type, expires_at) VALUES(?,?,?,NULL)
			 ON CONFLICT(key,db) DO UPDATE SET type=excluded.type, expires_at=NULL'') =
      Some (Insert ''keys'' [''key'', ''db'', ''type'', ''expires_at''] (Values [Param 1, Param 2, Param 3, NullE])
        (DoUpdate [''key'', ''db''] [(''type'', Excluded ''type''), (''expires_at'', NullE)])) \<and>
      stable (''INSERT INTO keys(key, db, type, expires_at) VALUES(?,?,?,NULL)
			 ON CONFLICT(key,db) DO UPDATE SET type=excluded.type, expires_at=NULL'')"
    by code_simp
  then show ?thesis
    by (rule upsertI [where f = keys_row and rows = keysT and x = "((k, d), ty, None)" and
          put = "\<lambda>T xs. T\<lparr>keysT := xs\<rparr>" and upd = "\<lambda>_. (ty, None)"]) (auto simp: upsert_simps upsert_key_row_def opt_int_def has_key_def dest: rows_have_key)
qed

lemma text_upsert_key_expire:
  "writes e (''INSERT INTO keys(key, db, type, expires_at) VALUES(?,?,?,?)
		 ON CONFLICT(key,db) DO UPDATE SET type=excluded.type, expires_at=excluded.expires_at'') [TextV k, IntV d, TextV ty, IntV t] (upsert_key_row (k, d) ty (Some t))"
proof -
  have "parse_sql (''INSERT INTO keys(key, db, type, expires_at) VALUES(?,?,?,?)
		 ON CONFLICT(key,db) DO UPDATE SET type=excluded.type, expires_at=excluded.expires_at'') =
      Some (Insert ''keys'' [''key'', ''db'', ''type'', ''expires_at''] (Values [Param 1, Param 2, Param 3, Param 4])
        (DoUpdate [''key'', ''db''] [(''type'', Excluded ''type''), (''expires_at'', Excluded ''expires_at'')])) \<and>
      stable (''INSERT INTO keys(key, db, type, expires_at) VALUES(?,?,?,?)
		 ON CONFLICT(key,db) DO UPDATE SET type=excluded.type, expires_at=excluded.expires_at'')"
    by code_simp
  then show ?thesis
    by (rule upsertI [where f = keys_row and rows = keysT and x = "((k, d), ty, Some t)" and
          put = "\<lambda>T xs. T\<lparr>keysT := xs\<rparr>" and upd = "\<lambda>_. (ty, Some t)"]) (auto simp: upsert_simps upsert_key_row_def opt_int_def has_key_def dest: rows_have_key)
qed

lemma text_upsert_string:
  "writes e (''INSERT INTO strings(key, db, value) VALUES(?,?,?)
		 ON CONFLICT(key,db) DO UPDATE SET value=excluded.value'') [TextV k, IntV d, TextV v] (upsert_string (k, d) v)"
proof -
  have "parse_sql (''INSERT INTO strings(key, db, value) VALUES(?,?,?)
		 ON CONFLICT(key,db) DO UPDATE SET value=excluded.value'') =
      Some (Insert ''strings'' [''key'', ''db'', ''value''] (Values [Param 1, Param 2, Param 3])
        (DoUpdate [''key'', ''db''] [(''value'', Excluded ''value'')])) \<and>
      stable (''INSERT INTO strings(key, db, value) VALUES(?,?,?)
		 ON CONFLICT(key,db) DO UPDATE SET value=excluded.value'')"
    by code_simp
  then show ?thesis
    by (rule upsertI [where f = strings_row and rows = stringsT and x = "((k, d), v)" and
          put = "\<lambda>T xs. T\<lparr>stringsT := xs\<rparr>" and upd = "\<lambda>_. v"]) (auto simp: upsert_simps upsert_string_def dest: rows_have_key)
qed

lemma text_upsert_field:
  "writes e (''INSERT INTO hashes(key,db,field,value) VALUES(?,?,?,?)
			 ON CONFLICT(key,db,field) DO UPDATE SET value=excluded.value'') [TextV k, IntV d, TextV f, TextV v] (upsert_field (k, d) f v)"
proof -
  have "parse_sql (''INSERT INTO hashes(key,db,field,value) VALUES(?,?,?,?)
			 ON CONFLICT(key,db,field) DO UPDATE SET value=excluded.value'') =
      Some (Insert ''hashes'' [''key'', ''db'', ''field'', ''value''] (Values [Param 1, Param 2, Param 3, Param 4])
        (DoUpdate [''key'', ''db'', ''field''] [(''value'', Excluded ''value'')])) \<and>
      stable (''INSERT INTO hashes(key,db,field,value) VALUES(?,?,?,?)
			 ON CONFLICT(key,db,field) DO UPDATE SET value=excluded.value'')"
    by code_simp
  then show ?thesis
    by (rule upsertI [where f = hashes_row and rows = hashesT and x = "(((k, d), f), v)" and
          put = "\<lambda>T xs. T\<lparr>hashesT := xs\<rparr>" and upd = "\<lambda>_. v"]) (auto simp: upsert_simps upsert_field_def dest: rows_have_key)
qed

lemma text_upsert_key_type:
  "writes e (''INSERT INTO keys(key, db, type) VALUES(?,?,'string')
			 ON CONFLICT(key,db) DO UPDATE SET type='string'' @ [quote]) [TextV k, IntV d] (upsert_key_type (k, d) ''string'')"
proof -
  have "parse_sql (''INSERT INTO keys(key, db, type) VALUES(?,?,'string')
			 ON CONFLICT(key,db) DO UPDATE SET type='string'' @ [quote]) =
      Some (Insert ''keys'' [''key'', ''db'', ''type''] (Values [Param 1, Param 2, Const ''string''])
        (DoUpdate [''key'', ''db''] [(''type'', Const ''string'')])) \<and>
      stable (''INSERT INTO keys(key, db, type) VALUES(?,?,'string')
			 ON CONFLICT(key,db) DO UPDATE SET type='string'' @ [quote])"
    by code_simp
  then show ?thesis
    by (rule upsertI [where f = keys_row and rows = keysT and x = "((k, d), ''string'', None)" and
          put = "\<lambda>T xs. T\<lparr>keysT := xs\<rparr>" and upd = "\<lambda>(_, ex). (''string'', ex)"]) (auto simp: upsert_simps upsert_key_type_rows opt_int_def has_key_def dest: rows_have_key)
qed

text \<open>A score that the engine binds as NULL violates the column's \<^verbatim>\<open>NOT NULL\<close>.\<close>

lemma not_null_violated:
  assumes "find_table schema t = Some d" "c \<in> set (columns d)" "notnull c" "r \<in> set rows" "get r (cname c) = Null"
  shows "finish schema n (D(t := rows)) = Inl (ErrConstraint ''NOT NULL'')"
proof -
  from assms(1) have "d \<in> set schema" "tname d = t" by (auto simp: find_table_def find_Some_iff)
  with assms have "\<not> list_all (not_null_holds (D(t := rows))) schema"
    by (auto simp: list_all_iff not_null_holds_def)
  then show ?thesis by (simp add: finish_def violation_def)
qed

lemma text_insert_score:
  "writes e ''INSERT INTO zsets(key,db,member,score) VALUES(?,?,?,?)'' [TextV k, IntV d, TextV m, RealV x]
     (insert_score (k, d) m (bind_score (dialect e) x))"
proof -
  let ?st = "Insert ''zsets'' [''key'', ''db'', ''member'', ''score''] (Values [Param 1, Param 2, Param 3, Param 4]) Abort"
  have p: "parse_sql ''INSERT INTO zsets(key,db,member,score) VALUES(?,?,?,?)'' = Some ?st \<and>
      stable ''INSERT INTO zsets(key,db,member,score) VALUES(?,?,?,?)''"
    by code_simp
  show ?thesis
  proof (cases "bind_score (dialect e) x")
    case None
    show ?thesis
    proof (rule writesI [OF p])
      fix T
      have "finish schema 1 ((tables_db T)(''zsets'' := map zsets_row (zsetsT T) @
          [key_cols (k, d) @ [(''member'', TextV m), (''score'', Null)]])) = Inl (ErrConstraint ''NOT NULL'')"
        by (rule not_null_violated [where c = "col ''score''" and d = "data_table ''zsets'' [''member''] [''score'']" and
              r = "key_cols (k, d) @ [(''member'', TextV m), (''score'', Null)]"])
          (simp, simp_all add: data_table_def col_def get_def key_cols_def)
      then show "run_write schema e (map (bind_val (dialect e)) [TextV k, IntV d, TextV m, RealV x]) ?st (tables_db T) =
          map_sum id (map_prod id tables_db) (insert_score (k, d) m (bind_score (dialect e) x) T)"
        by (simp add: run_write_def add_row_def None insert_score_def new_row_def data_table_def col_def key_cols_def)
    qed (simp add: max_params_def)
  next
    case (Some y)
    with p show ?thesis
      by (intro insertI_text [where f = zsets_row and rows = zsetsT and x = "(((k, d), m), y)" and
            put = "\<lambda>T xs. T\<lparr>zsetsT := xs\<rparr>"])
        (auto simp: insert_simps insert_score_def dest: rows_have_key)
  qed
qed

section \<open>Updating\<close>

lemma updateI:
  assumes "parse_sql q = Some (Update t sets cnd) \<and> stable q"
    "max_params (cond_params cnd # map (expr_params \<circ> snd) sets) = length args"
    "find_table schema t \<noteq> None" "\<And>T. tables_db T t = map f (rows T)"
    "\<And>T xs. (tables_db T)(t := map f xs) = tables_db (put T xs)"
    "\<And>T r. truth e (map (bind_val (dialect e)) args) (tables_db T) [] (f r) cnd = Some (fst r = k)"
    "\<And>D r. assign e (map (bind_val (dialect e)) args) D [] sets (f r) = f (fst r, upd (snd r))"
    "\<And>T. schema_ok T \<Longrightarrow> schema_ok (put T (update_rows k upd (rows T)))"
    "\<And>T. m T = Inr (length [r \<leftarrow> rows T. fst r = k], put T (update_rows k upd (rows T)))"
  shows "writes e q args m"
proof (rule writesI [OF assms(1)])
  fix T assume T: "schema_ok T"
  let ?args = "map (bind_val (dialect e)) args"
  have "map (\<lambda>r. if truth e ?args (tables_db T) [] r cnd = Some True then assign e ?args (tables_db T) [] sets r else r)
      (map f (rows T)) = map f (update_rows k upd (rows T))"
    unfolding update_rows_def map_map o_def assms(6,7) by (rule map_cong) auto
  moreover have "length (matching e ?args (tables_db T) t cnd) = length [r \<leftarrow> rows T. fst r = k]"
    by (simp add: matching_def assms(4,6) filter_map o_def)
  ultimately show "run_write schema e ?args (Update t sets cnd) (tables_db T) =
      map_sum id (map_prod id tables_db) (m T)"
    using assms T by (simp add: run_write_def finish_ok del: map_map)
qed (use assms in simp)

lemma text_update_expiry:
  "writes e ''UPDATE keys SET expires_at=? WHERE key=? AND db=?'' [IntV t, TextV k, IntV d]
     (update_expiry (k, d) (Some t))"
proof -
  have "parse_sql ''UPDATE keys SET expires_at=? WHERE key=? AND db=?'' =
      Some (Update ''keys'' [(''expires_at'', Param 1)] (key_is 2 3)) \<and>
      stable ''UPDATE keys SET expires_at=? WHERE key=? AND db=?''"
    by code_simp
  then show ?thesis
    by (rule updateI [where f = keys_row and rows = keysT and k = "(k, d)" and upd = "\<lambda>(ty, _). (ty, Some t)" and
          put = "\<lambda>T xs. T\<lparr>keysT := xs\<rparr>"])
      (auto simp: max_params_def tables_db_update assign_def key_cols_def prod_eq_iff update_expiry_def opt_int_def)
qed

lemma text_persist:
  "writes e ''UPDATE keys SET expires_at=NULL WHERE key=? AND db=?'' [TextV k, IntV d]
     (update_expiry (k, d) None)"
proof -
  have "parse_sql ''UPDATE keys SET expires_at=NULL WHERE key=? AND db=?'' =
      Some (Update ''keys'' [(''expires_at'', NullE)] (key_is 1 2)) \<and>
      stable ''UPDATE keys SET expires_at=NULL WHERE key=? AND db=?''"
    by code_simp
  then show ?thesis
    by (rule updateI [where f = keys_row and rows = keysT and k = "(k, d)" and upd = "\<lambda>(ty, _). (ty, None)" and
          put = "\<lambda>T xs. T\<lparr>keysT := xs\<rparr>"])
      (auto simp: max_params_def tables_db_update assign_def key_cols_def prod_eq_iff update_expiry_def opt_int_def)
qed

lemma text_update_string:
  "writes e ''UPDATE strings SET value=? WHERE key=? AND db=?'' [TextV v, TextV k, IntV d]
     (update_string (k, d) v)"
proof -
  have "parse_sql ''UPDATE strings SET value=? WHERE key=? AND db=?'' =
      Some (Update ''strings'' [(''value'', Param 1)] (key_is 2 3)) \<and>
      stable ''UPDATE strings SET value=? WHERE key=? AND db=?''"
    by code_simp
  then show ?thesis
    by (rule updateI [where f = strings_row and rows = stringsT and k = "(k, d)" and upd = "\<lambda>_. v" and
          put = "\<lambda>T xs. T\<lparr>stringsT := xs\<rparr>"])
      (auto simp: max_params_def tables_db_update assign_def key_cols_def prod_eq_iff update_string_def)
qed

lemma text_update_score:
  "writes e ''UPDATE zsets SET score=? WHERE key=? AND db=? AND member=?'' [RealV x, TextV k, IntV d, TextV m]
     (update_score (k, d) m (bind_score (dialect e) x))"
proof -
  let ?q = "''UPDATE zsets SET score=? WHERE key=? AND db=? AND member=?''"
  let ?st = "Update ''zsets'' [(''score'', Param 1)] (entry_is ''member'' 2 3 4)"
  have p: "parse_sql ?q = Some ?st \<and> stable ?q" by code_simp
  show ?thesis
  proof (cases "bind_score (dialect e) x")
    case None
    let ?args = "[Null, TextV k, IntV d, TextV m]" and ?i = "((k, d), m)"
    show ?thesis
    proof (rule writesI [OF p])
      fix T assume T: "schema_ok T"
      define null :: "(key_id \<times> string) \<times> float64 \<Rightarrow> row" where
        "null r = (if fst r = ?i then assign e ?args (tables_db T) [] [(''score'', Param 1)] (zsets_row r) else zsets_row r)" for r
      have rows: "map (\<lambda>r. if truth e ?args (tables_db T) [] r (entry_is ''member'' 2 3 4) = Some True
            then assign e ?args (tables_db T) [] [(''score'', Param 1)] r else r) (tables_db T ''zsets'') = map null (zsetsT T)"
        by (auto simp: null_def prod_eq_iff)
      have "finish schema n ((tables_db T)(''zsets'' := map null (zsetsT T))) =
          (if ?i \<in> fst ` set (zsetsT T) then Inl (ErrConstraint ''NOT NULL'') else Inr (n, tables_db T))" for n
      proof (cases "?i \<in> fst ` set (zsetsT T)")
        case True
        then obtain v where r: "(?i, v) \<in> set (zsetsT T)" by auto
        have "finish schema n ((tables_db T)(''zsets'' := map null (zsetsT T))) = Inl (ErrConstraint ''NOT NULL'')"
        proof (rule not_null_violated [where c = "col ''score''" and d = "data_table ''zsets'' [''member''] [''score'']"])
          show "null (?i, v) \<in> set (map null (zsetsT T))" using r by (simp add: image_iff) blast
          show "get (null (?i, v)) (cname (col ''score'')) = Null"
            by (simp add: null_def assign_def key_cols_def get_def col_def)
        qed (simp, simp_all add: data_table_def col_def)
        with True show ?thesis by simp
      next
        case False
        have "map null (zsetsT T) = map zsets_row (zsetsT T)"
          using False by (intro map_cong refl) (auto simp: null_def image_iff)
        then have "(tables_db T)(''zsets'' := map null (zsetsT T)) = tables_db T"
          by (simp only: tables_db_update) simp
        with False T show ?thesis by (simp add: finish_ok)
      qed
      moreover have "matching e ?args (tables_db T) ''zsets'' (entry_is ''member'' 2 3 4) = []"
        if "?i \<notin> fst ` set (zsetsT T)"
        using that by (force simp: matching_def filter_empty_conv)
      moreover have "run_write schema e ?args ?st (tables_db T) =
          finish schema (length (matching e ?args (tables_db T) ''zsets'' (entry_is ''member'' 2 3 4)))
            ((tables_db T)(''zsets'' := map null (zsetsT T)))"
        by (simp only: run_write_def statement.case rows find_table_schema option.simps if_False)
      moreover have "map (bind_val (dialect e)) [RealV x, TextV k, IntV d, TextV m] = ?args"
        by (simp add: None)
      ultimately show "run_write schema e (map (bind_val (dialect e)) [RealV x, TextV k, IntV d, TextV m]) ?st (tables_db T) =
          map_sum id (map_prod id tables_db) (update_score (k, d) m (bind_score (dialect e) x) T)"
        by (cases "?i \<in> fst ` set (zsetsT T)") (simp_all only: None update_score_def option.case if_True if_False
            map_sum.simps map_prod_simp id_apply list.size not_False_eq_True)
    qed (simp add: max_params_def)
  next
    case (Some y)
    with p show ?thesis
      by (intro updateI [where f = zsets_row and rows = zsetsT and k = "((k, d), m)" and upd = "\<lambda>_. y" and
            put = "\<lambda>T xs. T\<lparr>zsetsT := xs\<rparr>"])
        (auto simp: max_params_def tables_db_update assign_def key_cols_def prod_eq_iff get_def update_score_def)
  qed
qed

section \<open>Copying\<close>

lemma add_rows_abort: "add_rows e args D Abort xs rows = (rows @ xs, length xs)"
  by (induction xs arbitrary: rows) (simp_all add: add_row_def)

lemma copyI:
  assumes "parse_sql q = Some (Insert t cs (FromSelect xs t cnd) Abort) \<and> stable q"
    "max_params (cond_params cnd # map expr_params xs) = length args"
    "find_table schema t = Some d" "\<And>T. tables_db T t = map f (rows T)"
    "\<And>T xs. (tables_db T)(t := map f xs) = tables_db (put T xs)"
    "\<And>T r. truth e (map (bind_val (dialect e)) args) (tables_db T) [] (f r) cnd = Some (Q r)"
    "\<And>D r. Q r \<Longrightarrow> new_row d cs (map (eval e (map (bind_val (dialect e)) args) D [] (f r)) xs) = f (g r)"
    "\<And>T. schema_ok T \<Longrightarrow> m T = added (length (filter Q (rows T))) (put T (rows T @ map g (filter Q (rows T))))"
  shows "writes e q args m"
proof (rule writesI [OF assms(1)])
  fix T assume T: "schema_ok T"
  let ?args = "map (bind_val (dialect e)) args" and ?new = "map g (filter Q (rows T))"
  have "map (\<lambda>r. new_row d cs (map (eval e ?args (tables_db T) [] r) xs)) (matching e ?args (tables_db T) t cnd) =
      map f ?new"
    by (simp add: matching_def assms(4,6) filter_map o_def assms(7))
  moreover have "(tables_db T)(t := map f (rows T) @ map f ?new) = tables_db (put T (rows T @ ?new))"
    using assms(5) [of T "rows T @ ?new"] by simp
  ultimately show "run_write schema e ?args (Insert t cs (FromSelect xs t cnd) Abort) (tables_db T) =
      map_sum id (map_prod id tables_db) (m T)"
    using assms T by (simp add: run_write_def add_rows_abort finish_added del: map_map)
qed (use assms in simp)

lemma put_ok:
  assumes "schema_ok T"
  shows "pk_ok (T\<lparr>stringsT := ss\<rparr>) \<longleftrightarrow> distinct (map fst ss)" "fk_ok (T\<lparr>stringsT := ss\<rparr>) \<longleftrightarrow> (\<forall>r \<in> set ss. has_key T (id (fst r)))"
    "pk_ok (T\<lparr>listsT := ls\<rparr>) \<longleftrightarrow> distinct (map fst ls)" "fk_ok (T\<lparr>listsT := ls\<rparr>) \<longleftrightarrow> (\<forall>r \<in> set ls. has_key T (fst (fst r)))"
    "pk_ok (T\<lparr>hashesT := hs\<rparr>) \<longleftrightarrow> distinct (map fst hs)" "fk_ok (T\<lparr>hashesT := hs\<rparr>) \<longleftrightarrow> (\<forall>r \<in> set hs. has_key T (fst (fst r)))"
    "pk_ok (T\<lparr>setsT := ms\<rparr>) \<longleftrightarrow> distinct (map fst ms)" "fk_ok (T\<lparr>setsT := ms\<rparr>) \<longleftrightarrow> (\<forall>r \<in> set ms. has_key T (fst (fst r)))"
    "pk_ok (T\<lparr>zsetsT := zs\<rparr>) \<longleftrightarrow> distinct (map fst zs)" "fk_ok (T\<lparr>zsetsT := zs\<rparr>) \<longleftrightarrow> (\<forall>r \<in> set zs. has_key T (fst (fst r)))"
  using assms by (simp_all add: schema_ok_def pk_ok_def fk_ok_def Let_def has_key_def image_subset_iff)

text \<open>\<open>kid\<close> is the key of a row, \<open>new\<close> the rows of the source under the key of the destination.\<close>

lemma copy_result:
  assumes pk: "\<And>xs. pk_ok (put xs) \<longleftrightarrow> distinct (map fst xs)"
    and fk: "\<And>xs. fk_ok (put xs) \<longleftrightarrow> (\<forall>r \<in> set xs. has_key T (kid (fst r)))"
    and T: "put t = T" "schema_ok T" and new: "\<And>r. r \<in> set new \<Longrightarrow> kid (fst r) = dst" "distinct (map fst new)"
  shows "(case copy_into T dst new t of Inl e \<Rightarrow> Inl e | Inr t' \<Rightarrow> Inr (length t' - length t, put t')) =
    added (length new) (put (t @ new))"
proof -
  have old: "distinct (map fst t)" "\<forall>r \<in> set t. has_key T (kid (fst r))"
    using T pk [of t] fk [of t] by (simp_all add: schema_ok_def)
  have taken: "has_key T dst" if "r \<in> set new" "fst r \<in> fst ` set t" for r
    using that old(2) new(1) by (metis imageE)
  define clash where "clash \<longleftrightarrow> (\<exists>r \<in> set new. fst r \<in> fst ` set t)"
  have c: "clash \<Longrightarrow> has_key T dst" using taken by (auto simp: clash_def)
  have d: "distinct (map fst (t @ new)) \<longleftrightarrow> \<not> clash"
  proof -
    have "clash \<longleftrightarrow> (\<exists>i \<in> fst ` set new. i \<in> fst ` set t)" by (simp add: clash_def)
    then show ?thesis using old(1) new(2) by (simp only: map_append distinct_append set_map disjoint_iff) metis
  qed
  have k: "(\<forall>r \<in> set (t @ new). has_key T (kid (fst r))) \<longleftrightarrow> new = [] \<or> has_key T dst"
  proof (cases new)
    case (Cons r rs)
    then have "(\<forall>r \<in> set new. has_key T (kid (fst r))) \<longleftrightarrow> has_key T dst" using new(1) by fastforce
    with old(2) Cons show ?thesis by (simp only: set_append ball_Un) simp
  qed (use old(2) in simp)
  show ?thesis
  proof (cases "new = []")
    case True
    with T show ?thesis by (simp add: copy_into_def added_def schema_ok_def)
  next
    case False
    then have "copy_into T dst new t = (if \<not> has_key T dst then Inl (ErrConstraint ''FOREIGN KEY'')
        else if clash then Inl (ErrConstraint ''PRIMARY KEY'') else Inr (t @ new))"
      by (simp add: copy_into_def clash_def)
    moreover have "added (length new) (put (t @ new)) = (if clash then Inl (ErrConstraint ''PRIMARY KEY'')
        else if \<not> has_key T dst then Inl (ErrConstraint ''FOREIGN KEY'') else Inr (length new, put (t @ new)))"
      unfolding added_def pk fk d k using False by simp
    ultimately show ?thesis using c by (cases clash; cases "has_key T dst") simp_all
  qed
qed

lemma rekey_distinct:
  assumes "distinct (map fst t)"
  shows "distinct (map fst (rekey src dst t))"
proof -
  have "map fst (rekey src dst t) = map (\<lambda>i. (dst, snd i)) [i \<leftarrow> map fst t. fst i = src]"
    by (simp add: rekey_def filter_map o_def case_prod_beta)
  moreover have "inj_on (\<lambda>i. (dst, snd i)) (set [i \<leftarrow> map fst t. fst i = src])"
    by (rule inj_onI) (simp add: prod_eq_iff)
  moreover have "distinct [i \<leftarrow> map fst t. fst i = src]" using assms by simp
  ultimately show ?thesis by (simp only: distinct_map)
qed

lemma rekey_id: "r \<in> set (rekey src dst t) \<Longrightarrow> fst (fst r) = dst"
  by (auto simp: rekey_def)

lemma rekey_filter: "rekey src dst t = map (\<lambda>((kd, c), v). ((dst, c), v)) [r \<leftarrow> t. fst (fst r) = src]"
  by (simp add: rekey_def)

lemma one_row: "distinct (map fst xs) \<Longrightarrow> length [r \<leftarrow> xs. fst r = k] \<le> 1"
  by (induction xs) (auto simp: filter_empty_conv image_iff)

lemma text_copy_strings:
  "writes e ''INSERT INTO strings(key, db, value) SELECT ?, db, value FROM strings WHERE key=? AND db=?''
     [TextV dst, TextV src, IntV d] (copy_strings (src, d) (dst, d))"
proof -
  let ?q = "''INSERT INTO strings(key, db, value) SELECT ?, db, value FROM strings WHERE key=? AND db=?''"
  have p: "parse_sql ?q = Some (Insert ''strings'' [''key'', ''db'', ''value''] (FromSelect [Param 1, Column ''db'', Column ''value''] ''strings'' (key_is 2 3)) Abort) \<and> stable ?q"
    by code_simp
  have "copy_strings (src, d) (dst, d) T = added (length [r \<leftarrow> stringsT T. fst r = (src, d)])
      (T\<lparr>stringsT := stringsT T @ map (\<lambda>r. ((dst, d), snd r)) [r \<leftarrow> stringsT T. fst r = (src, d)]\<rparr>)" if T: "schema_ok T" for T
  proof -
    let ?new = "map (\<lambda>r. ((dst, d), snd r)) [r \<leftarrow> stringsT T. fst r = (src, d)]"
    have n: "length ?new \<le> 1"
      using one_row [OF schema_distinct(2) [OF T], of "(src, d)"] by simp
    have "(case copy_into T (dst, d) ?new (stringsT T) of Inl e \<Rightarrow> Inl e
        | Inr t' \<Rightarrow> Inr (length t' - length (stringsT T), T\<lparr>stringsT := t'\<rparr>)) =
        added (length ?new) (T\<lparr>stringsT := stringsT T @ ?new\<rparr>)"
    proof (rule copy_result [OF put_ok(1,2) [OF T] _ T])
      show "distinct (map fst ?new)" using n by (cases ?new) auto
    qed auto
    then show ?thesis by (simp add: copy_strings_def case_prod_unfold)
  qed
  with p show ?thesis
    by (intro copyI [where f = strings_row and rows = stringsT and Q = "\<lambda>r. fst r = (src, d)" and
          g = "\<lambda>r. ((dst, d), snd r)" and put = "\<lambda>T xs. T\<lparr>stringsT := xs\<rparr>"])
      (auto simp: insert_simps)
qed

lemma text_copy_lists:
  "writes e ''INSERT INTO lists(key, db, idx, value) SELECT ?, db, idx, value FROM lists WHERE key=? AND db=?''
     [TextV dst, TextV src, IntV d] (copy_lists (src, d) (dst, d))"
proof -
  let ?q = "''INSERT INTO lists(key, db, idx, value) SELECT ?, db, idx, value FROM lists WHERE key=? AND db=?''"
  have p: "parse_sql ?q = Some (Insert ''lists'' [''key'', ''db'', ''idx'', ''value''] (FromSelect [Param 1, Column ''db'', Column ''idx'', Column ''value''] ''lists'' (key_is 2 3)) Abort) \<and> stable ?q"
    by code_simp
  have "copy_lists (src, d) (dst, d) T = added (length (rekey (src, d) (dst, d) (listsT T)))
      (T\<lparr>listsT := listsT T @ rekey (src, d) (dst, d) (listsT T)\<rparr>)" if T: "schema_ok T" for T
    unfolding copy_lists_def
    by (rule copy_result [OF put_ok(3,4) [OF T] _ T])
      (use T in \<open>auto simp: rekey_id schema_ok_def pk_ok_def intro: rekey_distinct\<close>)
  with p show ?thesis
    by (intro copyI [where f = lists_row and rows = listsT and Q = "\<lambda>r. fst (fst r) = (src, d)" and
          g = "\<lambda>((kd, c), v). (((dst, d), c), v)" and put = "\<lambda>T xs. T\<lparr>listsT := xs\<rparr>"])
      (auto simp: insert_simps rekey_filter)
qed

lemma text_copy_hashes:
  "writes e ''INSERT INTO hashes(key, db, field, value) SELECT ?, db, field, value FROM hashes WHERE key=? AND db=?''
     [TextV dst, TextV src, IntV d] (copy_hashes (src, d) (dst, d))"
proof -
  let ?q = "''INSERT INTO hashes(key, db, field, value) SELECT ?, db, field, value FROM hashes WHERE key=? AND db=?''"
  have p: "parse_sql ?q = Some (Insert ''hashes'' [''key'', ''db'', ''field'', ''value''] (FromSelect [Param 1, Column ''db'', Column ''field'', Column ''value''] ''hashes'' (key_is 2 3)) Abort) \<and> stable ?q"
    by code_simp
  have "copy_hashes (src, d) (dst, d) T = added (length (rekey (src, d) (dst, d) (hashesT T)))
      (T\<lparr>hashesT := hashesT T @ rekey (src, d) (dst, d) (hashesT T)\<rparr>)" if T: "schema_ok T" for T
    unfolding copy_hashes_def
    by (rule copy_result [OF put_ok(5,6) [OF T] _ T])
      (use T in \<open>auto simp: rekey_id schema_ok_def pk_ok_def intro: rekey_distinct\<close>)
  with p show ?thesis
    by (intro copyI [where f = hashes_row and rows = hashesT and Q = "\<lambda>r. fst (fst r) = (src, d)" and
          g = "\<lambda>((kd, c), v). (((dst, d), c), v)" and put = "\<lambda>T xs. T\<lparr>hashesT := xs\<rparr>"])
      (auto simp: insert_simps rekey_filter)
qed

lemma text_copy_sets:
  "writes e ''INSERT INTO sets(key, db, member) SELECT ?, db, member FROM sets WHERE key=? AND db=?''
     [TextV dst, TextV src, IntV d] (copy_sets (src, d) (dst, d))"
proof -
  let ?q = "''INSERT INTO sets(key, db, member) SELECT ?, db, member FROM sets WHERE key=? AND db=?''"
  have p: "parse_sql ?q = Some (Insert ''sets'' [''key'', ''db'', ''member''] (FromSelect [Param 1, Column ''db'', Column ''member''] ''sets'' (key_is 2 3)) Abort) \<and> stable ?q"
    by code_simp
  have "copy_sets (src, d) (dst, d) T = added (length (rekey (src, d) (dst, d) (setsT T)))
      (T\<lparr>setsT := setsT T @ rekey (src, d) (dst, d) (setsT T)\<rparr>)" if T: "schema_ok T" for T
    unfolding copy_sets_def
    by (rule copy_result [OF put_ok(7,8) [OF T] _ T])
      (use T in \<open>auto simp: rekey_id schema_ok_def pk_ok_def intro: rekey_distinct\<close>)
  with p show ?thesis
    by (intro copyI [where f = sets_row and rows = setsT and Q = "\<lambda>r. fst (fst r) = (src, d)" and
          g = "\<lambda>((kd, c), v). (((dst, d), c), v)" and put = "\<lambda>T xs. T\<lparr>setsT := xs\<rparr>"])
      (auto simp: insert_simps rekey_filter)
qed

lemma text_copy_zsets:
  "writes e ''INSERT INTO zsets(key, db, member, score) SELECT ?, db, member, score FROM zsets WHERE key=? AND db=?''
     [TextV dst, TextV src, IntV d] (copy_zsets (src, d) (dst, d))"
proof -
  let ?q = "''INSERT INTO zsets(key, db, member, score) SELECT ?, db, member, score FROM zsets WHERE key=? AND db=?''"
  have p: "parse_sql ?q = Some (Insert ''zsets'' [''key'', ''db'', ''member'', ''score''] (FromSelect [Param 1, Column ''db'', Column ''member'', Column ''score''] ''zsets'' (key_is 2 3)) Abort) \<and> stable ?q"
    by code_simp
  have "copy_zsets (src, d) (dst, d) T = added (length (rekey (src, d) (dst, d) (zsetsT T)))
      (T\<lparr>zsetsT := zsetsT T @ rekey (src, d) (dst, d) (zsetsT T)\<rparr>)" if T: "schema_ok T" for T
    unfolding copy_zsets_def
    by (rule copy_result [OF put_ok(9,10) [OF T] _ T])
      (use T in \<open>auto simp: rekey_id schema_ok_def pk_ok_def intro: rekey_distinct\<close>)
  with p show ?thesis
    by (intro copyI [where f = zsets_row and rows = zsetsT and Q = "\<lambda>r. fst (fst r) = (src, d)" and
          g = "\<lambda>((kd, c), v). (((dst, d), c), v)" and put = "\<lambda>T xs. T\<lparr>zsetsT := xs\<rparr>"])
      (auto simp: insert_simps rekey_filter)
qed

section \<open>Property\<close>

text \<open>C13. Every statement that the store executes means what the model says it does: the text of the source, run with its
  arguments by an engine that follows the schema, and also after the PostgreSQL driver has numbered its placeholders,
  has as many placeholders as arguments and changes the six tables, counts rows and violates constraints exactly as
  the model's statement does, as long as the tables satisfy the schema.\<close>

theorem write_texts:
  "writes e ''DELETE FROM keys WHERE key=? AND db=?'' [TextV k, IntV d] (delete_key (k, d)) \<and>
   writes e ''DELETE FROM keys WHERE key=? AND db=? AND expires_at IS NOT NULL AND expires_at <= ?''
     [TextV k, IntV d, IntV t] (delete_keys (\<lambda>kd ty ex. kd = (k, d) \<and> \<not> alive t ex)) \<and>
   writes e ''DELETE FROM keys WHERE expires_at IS NOT NULL AND expires_at <= ?'' [IntV t]
     (delete_keys (\<lambda>kd ty ex. \<not> alive t ex)) \<and>
   writes e ''DELETE FROM keys WHERE db=?'' [IntV d] (delete_keys (\<lambda>kd ty ex. snd kd = d)) \<and>
   writes e ''DELETE FROM keys'' [] (delete_keys (\<lambda>kd ty ex. True)) \<and>
   writes e ''DELETE FROM lists WHERE key=? AND db=?'' [TextV k, IntV d] (delete_list_rows (k, d)) \<and>
   writes e ''DELETE FROM hashes WHERE key=? AND db=? AND field=?'' [TextV k, IntV d, TextV f]
     (delete_field (k, d) f) \<and>
   writes e ''DELETE FROM sets WHERE key=? AND db=? AND member=?'' [TextV k, IntV d, TextV m]
     (delete_member (k, d) m) \<and>
   writes e ''DELETE FROM zsets WHERE key=? AND db=? AND member=?'' [TextV k, IntV d, TextV m]
     (delete_score (k, d) m) \<and>
   writes e (''INSERT INTO keys(key, db, type, expires_at) VALUES(?,?,?,?)'') [TextV k, IntV d, TextV ty, opt_int ex] (insert_key (k, d) ty ex) \<and>
   writes e (''INSERT INTO strings(key, db, value) VALUES(?,?,?)'') [TextV k, IntV d, TextV v] (insert_string (k, d) v) \<and>
   writes e (''INSERT INTO lists(key,db,idx,value) VALUES(?,?,?,?)'') [TextV k, IntV d, IntV i, TextV v] (insert_list_row (k, d) i v) \<and>
   writes e (''INSERT INTO keys(key,db,type) VALUES(?,?,'list') ON CONFLICT(key,db) DO NOTHING'') [TextV k, IntV d] (insert_key_or_nothing (k, d) ''list'') \<and>
   writes e (''INSERT INTO keys(key,db,type) VALUES(?,?,'hash') ON CONFLICT(key,db) DO NOTHING'') [TextV k, IntV d] (insert_key_or_nothing (k, d) ''hash'') \<and>
   writes e (''INSERT INTO keys(key,db,type) VALUES(?,?,'set') ON CONFLICT(key,db) DO NOTHING'') [TextV k, IntV d] (insert_key_or_nothing (k, d) ''set'') \<and>
   writes e (''INSERT INTO keys(key,db,type) VALUES(?,?,'zset') ON CONFLICT(key,db) DO NOTHING'') [TextV k, IntV d] (insert_key_or_nothing (k, d) ''zset'') \<and>
   writes e (''INSERT INTO sets(key,db,member) VALUES(?,?,?) ON CONFLICT(key,db,member) DO NOTHING'') [TextV k, IntV d, TextV m] (insert_member_or_nothing (k, d) m) \<and>
   writes e (''INSERT INTO keys(key, db, type, expires_at) VALUES(?,?,?,NULL)
			 ON CONFLICT(key,db) DO UPDATE SET type=excluded.type, expires_at=NULL'') [TextV k, IntV d, TextV ty] (upsert_key_row (k, d) ty None) \<and>
   writes e (''INSERT INTO keys(key, db, type, expires_at) VALUES(?,?,?,?)
		 ON CONFLICT(key,db) DO UPDATE SET type=excluded.type, expires_at=excluded.expires_at'') [TextV k, IntV d, TextV ty, IntV t] (upsert_key_row (k, d) ty (Some t)) \<and>
   writes e (''INSERT INTO strings(key, db, value) VALUES(?,?,?)
		 ON CONFLICT(key,db) DO UPDATE SET value=excluded.value'') [TextV k, IntV d, TextV v] (upsert_string (k, d) v) \<and>
   writes e (''INSERT INTO hashes(key,db,field,value) VALUES(?,?,?,?)
			 ON CONFLICT(key,db,field) DO UPDATE SET value=excluded.value'') [TextV k, IntV d, TextV f, TextV v] (upsert_field (k, d) f v) \<and>
   writes e (''INSERT INTO keys(key, db, type) VALUES(?,?,'string')
			 ON CONFLICT(key,db) DO UPDATE SET type='string'' @ [quote]) [TextV k, IntV d] (upsert_key_type (k, d) ''string'') \<and>
   writes e ''INSERT INTO zsets(key,db,member,score) VALUES(?,?,?,?)'' [TextV k, IntV d, TextV m, RealV x]
     (insert_score (k, d) m (bind_score (dialect e) x)) \<and>
   writes e ''UPDATE keys SET expires_at=? WHERE key=? AND db=?'' [IntV t, TextV k, IntV d]
     (update_expiry (k, d) (Some t)) \<and>
   writes e ''UPDATE keys SET expires_at=NULL WHERE key=? AND db=?'' [TextV k, IntV d]
     (update_expiry (k, d) None) \<and>
   writes e ''UPDATE strings SET value=? WHERE key=? AND db=?'' [TextV v, TextV k, IntV d]
     (update_string (k, d) v) \<and>
   writes e ''UPDATE zsets SET score=? WHERE key=? AND db=? AND member=?'' [RealV x, TextV k, IntV d, TextV m]
     (update_score (k, d) m (bind_score (dialect e) x)) \<and>
   writes e ''INSERT INTO strings(key, db, value) SELECT ?, db, value FROM strings WHERE key=? AND db=?''
     [TextV dst, TextV src, IntV d] (copy_strings (src, d) (dst, d)) \<and>
   writes e ''INSERT INTO lists(key, db, idx, value) SELECT ?, db, idx, value FROM lists WHERE key=? AND db=?''
     [TextV dst, TextV src, IntV d] (copy_lists (src, d) (dst, d)) \<and>
   writes e ''INSERT INTO hashes(key, db, field, value) SELECT ?, db, field, value FROM hashes WHERE key=? AND db=?''
     [TextV dst, TextV src, IntV d] (copy_hashes (src, d) (dst, d)) \<and>
   writes e ''INSERT INTO sets(key, db, member) SELECT ?, db, member FROM sets WHERE key=? AND db=?''
     [TextV dst, TextV src, IntV d] (copy_sets (src, d) (dst, d)) \<and>
   writes e ''INSERT INTO zsets(key, db, member, score) SELECT ?, db, member, score FROM zsets WHERE key=? AND db=?''
     [TextV dst, TextV src, IntV d] (copy_zsets (src, d) (dst, d))"
  by (intro conjI text_delete_key text_delete_expired text_sweep text_flushdb text_flushall text_delete_list text_delete_field
    text_delete_member text_delete_score text_insert_key text_insert_string text_insert_list_row text_ensure_list
    text_ensure_hash text_ensure_set text_ensure_zset text_insert_member text_upsert_key_persist text_upsert_key_expire
    text_upsert_string text_upsert_field text_upsert_key_type text_insert_score text_update_expiry text_persist
    text_update_string text_update_score text_copy_strings text_copy_lists text_copy_hashes text_copy_sets
    text_copy_zsets)

end
