(* ===== verification/Sql_Reads.thy ===== *)
theory Sql_Reads
  imports Sql_Writes Store_Lists Store_Hashes Store_Sets
begin

text \<open>
  The queries of the store, text by text: \<open>reads e q args f\<close> says that the engine running the query \<open>q\<close>
  with the arguments \<open>args\<close>, and running what the PostgreSQL driver makes of \<open>q\<close>, gives the rows that \<open>f\<close>
  computes from the tables of the model, for every order \<open>perm\<close> in which the engine may give rows that no
  \<^verbatim>\<open>ORDER BY\<close> sorts.
\<close>

section \<open>Meaning of a query\<close>

definition reads :: "environ \<Rightarrow> string \<Rightarrow> val list \<Rightarrow> (nat list \<Rightarrow> tables \<Rightarrow> val list list) \<Rightarrow> bool" where
  "reads e q args f \<longleftrightarrow> (\<forall>T perm. schema_ok T \<longrightarrow>
     query_text schema e perm q args (tables_db T) = Inr (f perm T) \<and>
     query_text schema e perm (rewritePlaceholders q) args (tables_db T) = Inr (f perm T))"

lemma readsI:
  assumes "parse_sql q = Some st \<and> stable q" "params st = length args"
    "\<And>T perm. schema_ok T \<Longrightarrow> run_query schema e (map (bind_val (dialect e)) args) perm st (tables_db T) = Inr (f perm T)"
  shows "reads e q args f"
  using assms by (simp add: reads_def query_text_def prepare_stable) (simp add: prepare_def)

definition one_int :: "nat \<Rightarrow> val list list" where
  "one_int n = [[IntV (int n)]]"

lemma readsI_count:
  assumes "parse_sql q = Some (Select [CountAll] t cnd Unordered None None) \<and> stable q" "cond_params cnd = length args"
    "find_table schema t \<noteq> None" "\<And>T. tables_db T t = map f (rows T)"
    "\<And>T r. truth e (map (bind_val (dialect e)) args) (tables_db T) [] (f r) cnd = Some (Q r)"
    "\<And>T. n T = length (filter Q (rows T))"
  shows "reads e q args (\<lambda>_ T. one_int (n T))"
  using assms
  by (intro readsI [OF assms(1)]) (simp_all add: run_query_def matching_def filter_map o_def one_int_def max_params_def opt_params_def)

lemma limited_none [simp]: "limited e args D None None rows = Inr rows"
  by (simp add: limited_def Let_def)

lemma readsI_rows:
  assumes "parse_sql q = Some (Select (map Item xs) t cnd Unordered None None) \<and> stable q" "xs \<noteq> []"
    "max_params (cond_params cnd # map expr_params xs) = length args"
    "find_table schema t \<noteq> None" "\<And>T. tables_db T t = map f (rows T)"
    "\<And>T r. truth e (map (bind_val (dialect e)) args) (tables_db T) [] (f r) cnd = Some (Q r)"
    "\<And>D r. map (eval e (map (bind_val (dialect e)) args) D [] (f r)) xs = out r"
  shows "reads e q args (\<lambda>perm T. map out (arrange perm (filter Q (rows T))))"
proof (rule readsI [OF assms(1)])
  have "map Item xs \<noteq> [CountAll]" by (cases xs) auto
  then show "run_query schema e (map (bind_val (dialect e)) args) perm (Select (map Item xs) t cnd Unordered None None)
      (tables_db T) = Inr (map out (arrange perm (filter Q (rows T))))" for T perm
    using assms by (simp add: run_query_def matching_def filter_map o_def Let_def arrange_map flip: assms(7))
qed (use assms in \<open>simp add: max_params_def opt_params_def o_def\<close>)

lemma arrange_short: "length xs \<le> 1 \<Longrightarrow> arrange perm xs = xs"
proof -
  assume "length xs \<le> 1"
  then consider "xs = []" | x where "xs = [x]" by (cases xs) auto
  then show ?thesis
  proof cases
    case 1
    then show ?thesis by (metis length_arrange length_0_conv)
  next
    case 2
    have "length (arrange perm [x]) = 1" "set (arrange perm [x]) = {x}" by simp_all
    with 2 show ?thesis by (cases "arrange perm [x]") auto
  qed
qed

lemma filter_key_map_of:
  "distinct (map fst xs) \<Longrightarrow> [r \<leftarrow> xs. fst r = k] = (case map_of xs k of None \<Rightarrow> [] | Some v \<Rightarrow> [(k, v)])"
proof (induction xs)
  case (Cons x xs)
  then show ?case
    by (cases x) (auto simp: filter_empty_conv image_iff split: option.splits)
qed simp

lemma readsI_lookup:
  assumes "parse_sql q = Some (Select (map Item xs) t cnd Unordered None None) \<and> stable q" "xs \<noteq> []"
    "max_params (cond_params cnd # map expr_params xs) = length args"
    "find_table schema t \<noteq> None" "\<And>T. tables_db T t = map f (rows T)"
    "\<And>T r. truth e (map (bind_val (dialect e)) args) (tables_db T) [] (f r) cnd = Some (fst r = k \<and> P (snd r))"
    "\<And>D v. map (eval e (map (bind_val (dialect e)) args) D [] (f (k, v))) xs = out v"
    "\<And>T. schema_ok T \<Longrightarrow> distinct (map fst (rows T))"
  shows "reads e q args (\<lambda>_ T. case map_of (rows T) k of None \<Rightarrow> [] | Some v \<Rightarrow> if P v then [out v] else [])"
proof (rule readsI [OF assms(1)])
  fix T perm assume T: "schema_ok T"
  have "map Item xs \<noteq> [CountAll]" by (cases xs) auto
  moreover have "[r \<leftarrow> rows T. fst r = k \<and> P (snd r)] =
      (case map_of (rows T) k of None \<Rightarrow> [] | Some v \<Rightarrow> if P v then [(k, v)] else [])"
    using filter_key_map_of [OF assms(8) [OF T], of k] by (simp flip: filter_filter split: option.splits)
  ultimately show "run_query schema e (map (bind_val (dialect e)) args) perm (Select (map Item xs) t cnd Unordered None None)
      (tables_db T) = Inr (case map_of (rows T) k of None \<Rightarrow> [] | Some v \<Rightarrow> if P v then [out v] else [])"
    using assms(4-7) by (auto simp: run_query_def matching_def filter_map o_def Let_def arrange_short simp flip: assms(7)
        split: option.splits)
qed (use assms in \<open>simp add: max_params_def opt_params_def o_def\<close>)

section \<open>Keys and strings\<close>

definition aliveWhere :: string where
  "aliveWhere = ''(expires_at IS NULL OR expires_at > ?)''"

abbreviation alive_at :: "nat \<Rightarrow> sql_cond" where
  "alive_at n \<equiv> Or (IsNull (Column ''expires_at'')) (Compare (Column ''expires_at'') Greater (Param n))"

lemmas read_simps = prod_eq_iff alive_def opt_int_def max_params_def count_alive_def case_prod_unfold get_def
  key_cols_def

lemma text_key_type:
  "reads e (''SELECT type FROM keys WHERE key=? AND db=? AND '' @ aliveWhere) [TextV k, IntV d, IntV t]
     (\<lambda>_ T. case map_of (keysT T) (k, d) of None \<Rightarrow> [] | Some (ty, ex) \<Rightarrow> if alive t ex then [[TextV ty]] else [])"
proof -
  have "parse_sql (''SELECT type FROM keys WHERE key=? AND db=? AND '' @ aliveWhere) =
      Some (Select (map Item [Column ''type'']) ''keys'' (And (column_is ''key'' 1) (And (column_is ''db'' 2) (alive_at 3))) Unordered None None) \<and>
      stable (''SELECT type FROM keys WHERE key=? AND db=? AND '' @ aliveWhere)"
    by code_simp
  then have "reads e (''SELECT type FROM keys WHERE key=? AND db=? AND '' @ aliveWhere) [TextV k, IntV d, IntV t]
      (\<lambda>_ T. case map_of (keysT T) (k, d) of None \<Rightarrow> [] | Some v \<Rightarrow> if alive t (snd v) then [[TextV (fst v)]] else [])"
    by (rule readsI_lookup [where f = keys_row])
      (auto simp: read_simps schema_distinct split: option.splits)
  then show ?thesis by (simp add: case_prod_unfold cong: option.case_cong)
qed

lemma text_get:
  "reads e (''SELECT value FROM strings WHERE key=? AND db=?'') [TextV k, IntV d]
     (\<lambda>_ T. case map_of (stringsT T) (k, d) of None \<Rightarrow> [] | Some v \<Rightarrow> [[TextV v]])"
proof -
  have "parse_sql (''SELECT value FROM strings WHERE key=? AND db=?'') =
      Some (Select (map Item [Column ''value'']) ''strings'' (key_is 1 2) Unordered None None) \<and>
      stable (''SELECT value FROM strings WHERE key=? AND db=?'')"
    by code_simp
  then have "reads e (''SELECT value FROM strings WHERE key=? AND db=?'') [TextV k, IntV d]
      (\<lambda>_ T. case map_of (stringsT T) (k, d) of None \<Rightarrow> [] | Some v \<Rightarrow> if True then [[TextV v]] else [])"
    by (rule readsI_lookup [where f = strings_row])
      (auto simp: read_simps schema_distinct split: option.splits)
  then show ?thesis by (simp add: case_prod_unfold cong: option.case_cong)
qed

lemma text_expiry:
  "reads e (''SELECT expires_at FROM keys WHERE key=? AND db=?'') [TextV k, IntV d]
     (\<lambda>_ T. case map_of (keysT T) (k, d) of None \<Rightarrow> [] | Some (ty, ex) \<Rightarrow> [[opt_int ex]])"
proof -
  have "parse_sql (''SELECT expires_at FROM keys WHERE key=? AND db=?'') =
      Some (Select (map Item [Column ''expires_at'']) ''keys'' (key_is 1 2) Unordered None None) \<and>
      stable (''SELECT expires_at FROM keys WHERE key=? AND db=?'')"
    by code_simp
  then have "reads e (''SELECT expires_at FROM keys WHERE key=? AND db=?'') [TextV k, IntV d]
      (\<lambda>_ T. case map_of (keysT T) (k, d) of None \<Rightarrow> [] | Some v \<Rightarrow> if True then [[opt_int (snd v)]] else [])"
    by (rule readsI_lookup [where f = keys_row])
      (auto simp: read_simps schema_distinct split: option.splits)
  then show ?thesis by (simp add: case_prod_unfold cong: option.case_cong)
qed

lemma text_key_row:
  "reads e (''SELECT type, expires_at FROM keys WHERE key=? AND db=?'') [TextV k, IntV d]
     (\<lambda>_ T. case map_of (keysT T) (k, d) of None \<Rightarrow> [] | Some (ty, ex) \<Rightarrow> [[TextV ty, opt_int ex]])"
proof -
  have "parse_sql (''SELECT type, expires_at FROM keys WHERE key=? AND db=?'') =
      Some (Select (map Item [Column ''type'', Column ''expires_at'']) ''keys'' (key_is 1 2) Unordered None None) \<and>
      stable (''SELECT type, expires_at FROM keys WHERE key=? AND db=?'')"
    by code_simp
  then have "reads e (''SELECT type, expires_at FROM keys WHERE key=? AND db=?'') [TextV k, IntV d]
      (\<lambda>_ T. case map_of (keysT T) (k, d) of None \<Rightarrow> [] | Some v \<Rightarrow> if True then [[TextV (fst v), opt_int (snd v)]] else [])"
    by (rule readsI_lookup [where f = keys_row])
      (auto simp: read_simps schema_distinct split: option.splits)
  then show ?thesis by (simp add: case_prod_unfold cong: option.case_cong)
qed

lemma text_count_alive:
  "reads e (''SELECT COUNT(*) FROM keys WHERE key=? AND db=? AND '' @ aliveWhere) [TextV k, IntV d, IntV t] (\<lambda>_ T. one_int (count_alive T (k, d) t))"
proof -
  have "parse_sql (''SELECT COUNT(*) FROM keys WHERE key=? AND db=? AND '' @ aliveWhere) =
      Some (Select [CountAll] ''keys'' (And (column_is ''key'' 1) (And (column_is ''db'' 2) (alive_at 3))) Unordered None None) \<and>
      stable (''SELECT COUNT(*) FROM keys WHERE key=? AND db=? AND '' @ aliveWhere)"
    by code_simp
  then show ?thesis
    by (rule readsI_count [where f = keys_row and rows = keysT and Q = "\<lambda>r. fst r = (k, d) \<and> alive t (snd (snd r))"])
      (auto simp: read_simps  split: option.splits)
qed

lemma text_exists:
  "reads e (''SELECT COUNT(*) FROM keys WHERE key=? AND db=?'') [TextV k, IntV d] (\<lambda>_ T. one_int (length [r \<leftarrow> keysT T. fst r = (k, d)]))"
proof -
  have "parse_sql (''SELECT COUNT(*) FROM keys WHERE key=? AND db=?'') =
      Some (Select [CountAll] ''keys'' (key_is 1 2) Unordered None None) \<and>
      stable (''SELECT COUNT(*) FROM keys WHERE key=? AND db=?'')"
    by code_simp
  then show ?thesis
    by (rule readsI_count [where f = keys_row and rows = keysT and Q = "\<lambda>r. fst r = (k, d)"])
      (auto simp: read_simps  split: option.splits)
qed

lemma text_dbsize:
  "reads e (''SELECT COUNT(*) FROM keys WHERE db=? AND '' @ aliveWhere) [IntV d, IntV t] (\<lambda>_ T. one_int (length [(kd, ty, ex) \<leftarrow> keysT T. snd kd = d \<and> alive t ex]))"
proof -
  have "parse_sql (''SELECT COUNT(*) FROM keys WHERE db=? AND '' @ aliveWhere) =
      Some (Select [CountAll] ''keys'' (And (column_is ''db'' 1) (alive_at 2)) Unordered None None) \<and>
      stable (''SELECT COUNT(*) FROM keys WHERE db=? AND '' @ aliveWhere)"
    by code_simp
  then show ?thesis
    by (rule readsI_count [where f = keys_row and rows = keysT and Q = "\<lambda>r. snd (fst r) = d \<and> alive t (snd (snd r))"])
      (auto simp: read_simps  split: option.splits)
qed

lemma text_keys:
  "reads e (''SELECT key FROM keys WHERE db=? AND '' @ aliveWhere) [IntV d, IntV t] (\<lambda>perm T. map (\<lambda>k. [TextV k]) (arrange perm (alive_names d t T)))"
proof -
  have "parse_sql (''SELECT key FROM keys WHERE db=? AND '' @ aliveWhere) =
      Some (Select (map Item [Column ''key'']) ''keys'' (And (column_is ''db'' 1) (alive_at 2)) Unordered None None) \<and>
      stable (''SELECT key FROM keys WHERE db=? AND '' @ aliveWhere)"
    by code_simp
  then have "reads e (''SELECT key FROM keys WHERE db=? AND '' @ aliveWhere) [IntV d, IntV t]
      (\<lambda>perm T. map (\<lambda>r. [TextV (fst (fst r))]) (arrange perm [r \<leftarrow> keysT T. snd (fst r) = d \<and> alive t (snd (snd r))]))"
    by (rule readsI_rows [where f = keys_row]) (auto simp: read_simps split: option.splits)
  then show ?thesis by (simp add: alive_names_def arrange_map case_prod_unfold o_def)
qed

section \<open>Lists, hashes, sets and sorted sets\<close>

lemma text_llen:
  "reads e (''SELECT COUNT(*) FROM lists WHERE key=? AND db=?'') [TextV k, IntV d] (\<lambda>_ T. one_int (length [r \<leftarrow> listsT T. fst (fst r) = (k, d)]))"
proof -
  have "parse_sql (''SELECT COUNT(*) FROM lists WHERE key=? AND db=?'') =
      Some (Select [CountAll] ''lists'' (key_is 1 2) Unordered None None) \<and>
      stable (''SELECT COUNT(*) FROM lists WHERE key=? AND db=?'')"
    by code_simp
  then show ?thesis
    by (rule readsI_count [where f = lists_row and rows = listsT and Q = "\<lambda>r. fst (fst r) = (k, d)"])
      (auto simp: read_simps  split: option.splits)
qed

lemma text_count_field:
  "reads e (''SELECT COUNT(*) FROM hashes WHERE key=? AND db=? AND field=?'') [TextV k, IntV d, TextV f] (\<lambda>_ T. one_int (count_field T (k, d) f))"
proof -
  have "parse_sql (''SELECT COUNT(*) FROM hashes WHERE key=? AND db=? AND field=?'') =
      Some (Select [CountAll] ''hashes'' (entry_is ''field'' 1 2 3) Unordered None None) \<and>
      stable (''SELECT COUNT(*) FROM hashes WHERE key=? AND db=? AND field=?'')"
    by code_simp
  then show ?thesis
    by (rule readsI_count [where f = hashes_row and rows = hashesT and Q = "\<lambda>r. fst r = ((k, d), f)"])
      (auto simp: read_simps count_field_def split: option.splits)
qed

lemma text_hget:
  "reads e (''SELECT value FROM hashes WHERE key=? AND db=? AND field=?'') [TextV k, IntV d, TextV f]
     (\<lambda>_ T. case map_of (hashesT T) ((k, d), f) of None \<Rightarrow> [] | Some v \<Rightarrow> [[TextV v]])"
proof -
  have "parse_sql (''SELECT value FROM hashes WHERE key=? AND db=? AND field=?'') =
      Some (Select (map Item [Column ''value'']) ''hashes'' (entry_is ''field'' 1 2 3) Unordered None None) \<and>
      stable (''SELECT value FROM hashes WHERE key=? AND db=? AND field=?'')"
    by code_simp
  then have "reads e (''SELECT value FROM hashes WHERE key=? AND db=? AND field=?'') [TextV k, IntV d, TextV f]
      (\<lambda>_ T. case map_of (hashesT T) ((k, d), f) of None \<Rightarrow> [] | Some v \<Rightarrow> if True then [[TextV v]] else [])"
    by (rule readsI_lookup [where f = hashes_row])
      (auto simp: read_simps schema_distinct split: option.splits)
  then show ?thesis by (simp add: case_prod_unfold cong: option.case_cong)
qed

lemma text_hgetall:
  "reads e (''SELECT field, value FROM hashes WHERE key=? AND db=?'') [TextV k, IntV d] (\<lambda>perm T. map (\<lambda>(f, v). [TextV f, TextV v]) (arrange perm (hash_rows T (k, d))))"
proof -
  have "parse_sql (''SELECT field, value FROM hashes WHERE key=? AND db=?'') =
      Some (Select (map Item [Column ''field'', Column ''value'']) ''hashes'' (key_is 1 2) Unordered None None) \<and>
      stable (''SELECT field, value FROM hashes WHERE key=? AND db=?'')"
    by code_simp
  then have "reads e (''SELECT field, value FROM hashes WHERE key=? AND db=?'') [TextV k, IntV d]
      (\<lambda>perm T. map (\<lambda>r. [TextV (snd (fst r)), TextV (snd r)]) (arrange perm [r \<leftarrow> hashesT T. fst (fst r) = (k, d)]))"
    by (rule readsI_rows [where f = hashes_row]) (auto simp: read_simps split: option.splits)
  then show ?thesis by (simp add: hash_rows_def arrange_map case_prod_unfold o_def)
qed

lemma text_hkeys:
  "reads e (''SELECT field FROM hashes WHERE key=? AND db=?'') [TextV k, IntV d] (\<lambda>perm T. map (\<lambda>f. [TextV f]) (arrange perm (map fst (hash_rows T (k, d)))))"
proof -
  have "parse_sql (''SELECT field FROM hashes WHERE key=? AND db=?'') =
      Some (Select (map Item [Column ''field'']) ''hashes'' (key_is 1 2) Unordered None None) \<and>
      stable (''SELECT field FROM hashes WHERE key=? AND db=?'')"
    by code_simp
  then have "reads e (''SELECT field FROM hashes WHERE key=? AND db=?'') [TextV k, IntV d]
      (\<lambda>perm T. map (\<lambda>r. [TextV (snd (fst r))]) (arrange perm [r \<leftarrow> hashesT T. fst (fst r) = (k, d)]))"
    by (rule readsI_rows [where f = hashes_row]) (auto simp: read_simps split: option.splits)
  then show ?thesis by (simp add: hash_rows_def arrange_map case_prod_unfold o_def)
qed

lemma text_hvals:
  "reads e (''SELECT value FROM hashes WHERE key=? AND db=?'') [TextV k, IntV d] (\<lambda>perm T. map (\<lambda>v. [TextV v]) (arrange perm (map snd (hash_rows T (k, d)))))"
proof -
  have "parse_sql (''SELECT value FROM hashes WHERE key=? AND db=?'') =
      Some (Select (map Item [Column ''value'']) ''hashes'' (key_is 1 2) Unordered None None) \<and>
      stable (''SELECT value FROM hashes WHERE key=? AND db=?'')"
    by code_simp
  then have "reads e (''SELECT value FROM hashes WHERE key=? AND db=?'') [TextV k, IntV d]
      (\<lambda>perm T. map (\<lambda>r. [TextV (snd r)]) (arrange perm [r \<leftarrow> hashesT T. fst (fst r) = (k, d)]))"
    by (rule readsI_rows [where f = hashes_row]) (auto simp: read_simps split: option.splits)
  then show ?thesis by (simp add: hash_rows_def arrange_map case_prod_unfold o_def)
qed

lemma text_hlen:
  "reads e (''SELECT COUNT(*) FROM hashes WHERE key=? AND db=?'') [TextV k, IntV d] (\<lambda>_ T. one_int (length (hash_rows T (k, d))))"
proof -
  have "parse_sql (''SELECT COUNT(*) FROM hashes WHERE key=? AND db=?'') =
      Some (Select [CountAll] ''hashes'' (key_is 1 2) Unordered None None) \<and>
      stable (''SELECT COUNT(*) FROM hashes WHERE key=? AND db=?'')"
    by code_simp
  then show ?thesis
    by (rule readsI_count [where f = hashes_row and rows = hashesT and Q = "\<lambda>r. fst (fst r) = (k, d)"])
      (auto simp: read_simps hash_rows_def split: option.splits)
qed

lemma text_smembers:
  "reads e (''SELECT member FROM sets WHERE key=? AND db=?'') [TextV k, IntV d] (\<lambda>perm T. map (\<lambda>m. [TextV m]) (arrange perm (set_rows T (k, d))))"
proof -
  have "parse_sql (''SELECT member FROM sets WHERE key=? AND db=?'') =
      Some (Select (map Item [Column ''member'']) ''sets'' (key_is 1 2) Unordered None None) \<and>
      stable (''SELECT member FROM sets WHERE key=? AND db=?'')"
    by code_simp
  then have "reads e (''SELECT member FROM sets WHERE key=? AND db=?'') [TextV k, IntV d]
      (\<lambda>perm T. map (\<lambda>r. [TextV (snd (fst r))]) (arrange perm [r \<leftarrow> setsT T. fst (fst r) = (k, d)]))"
    by (rule readsI_rows [where f = sets_row]) (auto simp: read_simps split: option.splits)
  then show ?thesis by (simp add: set_rows_def arrange_map case_prod_unfold o_def)
qed

lemma text_sismember:
  "reads e (''SELECT COUNT(*) FROM sets WHERE key=? AND db=? AND member=?'') [TextV k, IntV d, TextV m] (\<lambda>_ T. one_int (length [r \<leftarrow> setsT T. fst r = ((k, d), m)]))"
proof -
  have "parse_sql (''SELECT COUNT(*) FROM sets WHERE key=? AND db=? AND member=?'') =
      Some (Select [CountAll] ''sets'' (entry_is ''member'' 1 2 3) Unordered None None) \<and>
      stable (''SELECT COUNT(*) FROM sets WHERE key=? AND db=? AND member=?'')"
    by code_simp
  then show ?thesis
    by (rule readsI_count [where f = sets_row and rows = setsT and Q = "\<lambda>r. fst r = ((k, d), m)"])
      (auto simp: read_simps  split: option.splits)
qed

lemma text_scard:
  "reads e (''SELECT COUNT(*) FROM sets WHERE key=? AND db=?'') [TextV k, IntV d] (\<lambda>_ T. one_int (length (set_rows T (k, d))))"
proof -
  have "parse_sql (''SELECT COUNT(*) FROM sets WHERE key=? AND db=?'') =
      Some (Select [CountAll] ''sets'' (key_is 1 2) Unordered None None) \<and>
      stable (''SELECT COUNT(*) FROM sets WHERE key=? AND db=?'')"
    by code_simp
  then show ?thesis
    by (rule readsI_count [where f = sets_row and rows = setsT and Q = "\<lambda>r. fst (fst r) = (k, d)"])
      (auto simp: read_simps set_rows_def split: option.splits)
qed

lemma text_count_score:
  "reads e (''SELECT COUNT(*) FROM zsets WHERE key=? AND db=? AND member=?'') [TextV k, IntV d, TextV m] (\<lambda>_ T. one_int (count_score T (k, d) m))"
proof -
  have "parse_sql (''SELECT COUNT(*) FROM zsets WHERE key=? AND db=? AND member=?'') =
      Some (Select [CountAll] ''zsets'' (entry_is ''member'' 1 2 3) Unordered None None) \<and>
      stable (''SELECT COUNT(*) FROM zsets WHERE key=? AND db=? AND member=?'')"
    by code_simp
  then show ?thesis
    by (rule readsI_count [where f = zsets_row and rows = zsetsT and Q = "\<lambda>r. fst r = ((k, d), m)"])
      (auto simp: read_simps count_score_def split: option.splits)
qed

lemma text_zscore:
  "reads e (''SELECT score FROM zsets WHERE key=? AND db=? AND member=?'') [TextV k, IntV d, TextV m]
     (\<lambda>_ T. case map_of (zsetsT T) ((k, d), m) of None \<Rightarrow> [] | Some v \<Rightarrow> [[RealV v]])"
proof -
  have "parse_sql (''SELECT score FROM zsets WHERE key=? AND db=? AND member=?'') =
      Some (Select (map Item [Column ''score'']) ''zsets'' (entry_is ''member'' 1 2 3) Unordered None None) \<and>
      stable (''SELECT score FROM zsets WHERE key=? AND db=? AND member=?'')"
    by code_simp
  then have "reads e (''SELECT score FROM zsets WHERE key=? AND db=? AND member=?'') [TextV k, IntV d, TextV m]
      (\<lambda>_ T. case map_of (zsetsT T) ((k, d), m) of None \<Rightarrow> [] | Some v \<Rightarrow> if True then [[RealV v]] else [])"
    by (rule readsI_lookup [where f = zsets_row])
      (auto simp: read_simps schema_distinct split: option.splits)
  then show ?thesis by (simp add: case_prod_unfold cong: option.case_cong)
qed

lemma text_zcard:
  "reads e (''SELECT COUNT(*) FROM zsets WHERE key=? AND db=?'') [TextV k, IntV d] (\<lambda>_ T. one_int (length (zset_rows T (k, d))))"
proof -
  have "parse_sql (''SELECT COUNT(*) FROM zsets WHERE key=? AND db=?'') =
      Some (Select [CountAll] ''zsets'' (key_is 1 2) Unordered None None) \<and>
      stable (''SELECT COUNT(*) FROM zsets WHERE key=? AND db=?'')"
    by code_simp
  then show ?thesis
    by (rule readsI_count [where f = zsets_row and rows = zsetsT and Q = "\<lambda>r. fst (fst r) = (k, d)"])
      (auto simp: read_simps zset_rows_def split: option.splits)
qed

section \<open>Ordered queries\<close>

lemma insert_by_map: "insert_by le (h x) (map h ys) = map h (insert_by (\<lambda>x y. le (h x) (h y)) x ys)"
  by (induction ys) auto

lemma order_by_map: "order_by le (map h xs) = map h (order_by (\<lambda>x y. le (h x) (h y)) xs)"
  by (induction xs) (simp_all add: order_by_def insert_by_map)

lemma sort_key_order_by: "sort_key f xs = order_by (\<lambda>x y. f x \<le> f y) xs"
proof -
  have "insort_key f x ys = insert_by (\<lambda>x y. f x \<le> f y) x ys" for x ys by (induction ys) auto
  then have "insort_key f = insert_by (\<lambda>x y. f x \<le> f y)" by (intro ext)
  then show ?thesis by (simp add: sort_key_def order_by_def)
qed

lemma readsI_ordered:
  assumes "parse_sql q = Some (Select (map Item xs) t cnd (OrderBy cs) mx off) \<and> stable q" "xs \<noteq> []"
    "params (Select (map Item xs) t cnd (OrderBy cs) mx off) = length args"
    "find_table schema t \<noteq> None" "\<And>T. tables_db T t = map f (rows T)"
    "\<And>T r. truth e (map (bind_val (dialect e)) args) (tables_db T) [] (f r) cnd = Some True \<longleftrightarrow> Q r"
    "\<And>D r. map (eval e (map (bind_val (dialect e)) args) D [] (f r)) xs = out r"
    "\<And>r r'. rows_le e cs (f r) (f r') \<longleftrightarrow> le r r'"
    "\<And>D rs. limited e (map (bind_val (dialect e)) args) D mx off rs = Inr (page rs)"
    "\<And>rs. page (map f rs) = map f (page' rs)"
  shows "reads e q args (\<lambda>_ T. map out (page' (order_by le (filter Q (rows T)))))"
proof (rule readsI [OF assms(1,3)])
  have "map Item xs \<noteq> [CountAll]" by (cases xs) auto
  then show "run_query schema e (map (bind_val (dialect e)) args) perm (Select (map Item xs) t cnd (OrderBy cs) mx off)
      (tables_db T) = Inr (map out (page' (order_by le (filter Q (rows T)))))" for T perm
    using assms by (simp add: run_query_def matching_def filter_map o_def Let_def order_by_map flip: assms(7))
qed

lemma text_lrange:
  "reads e ''SELECT value FROM lists WHERE key=? AND db=? ORDER BY idx ASC'' [TextV k, IntV d]
     (\<lambda>_ T. map (\<lambda>v. [TextV v]) (list_values T (k, d)))"
proof -
  have "parse_sql ''SELECT value FROM lists WHERE key=? AND db=? ORDER BY idx ASC'' =
      Some (Select (map Item [Column ''value'']) ''lists'' (key_is 1 2) (OrderBy [''idx'']) None None) \<and>
      stable ''SELECT value FROM lists WHERE key=? AND db=? ORDER BY idx ASC''"
    by code_simp
  then have "reads e ''SELECT value FROM lists WHERE key=? AND db=? ORDER BY idx ASC'' [TextV k, IntV d]
      (\<lambda>_ T. map (\<lambda>r. [TextV (snd r)]) (id (order_by (\<lambda>r r'. snd (fst r) \<le> snd (fst r'))
        [r \<leftarrow> listsT T. fst (fst r) = (k, d)])))"
    by (rule readsI_ordered [where f = lists_row and page = id]) (auto simp: read_simps opt_params_def)
  then show ?thesis by (simp add: list_values_def sort_key_order_by o_def)
qed

lemma text_randomkey:
  "reads e (''SELECT key FROM keys WHERE db=? AND '' @ aliveWhere @ '' ORDER BY RANDOM() LIMIT 1'') [IntV d, IntV t]
     (\<lambda>perm T. map (\<lambda>k. [TextV k]) (take 1 (arrange perm (alive_names d t T))))"
proof -
  let ?c = "And (column_is ''db'' 1) (alive_at 2)"
  have p: "parse_sql (''SELECT key FROM keys WHERE db=? AND '' @ aliveWhere @ '' ORDER BY RANDOM() LIMIT 1'') =
      Some (Select [Item (Column ''key'')] ''keys'' ?c OrderRandom (Some (Number 1)) None) \<and>
      stable (''SELECT key FROM keys WHERE db=? AND '' @ aliveWhere @ '' ORDER BY RANDOM() LIMIT 1'')"
    by code_simp
  show ?thesis
  proof (rule readsI [OF p])
    fix T perm
    have "truth e [IntV d, IntV t] (tables_db T) [] (keys_row r) ?c = Some (snd (fst r) = d \<and> alive t (snd (snd r)))" for r
      by (auto simp: alive_def opt_int_def split: option.splits)
    then have m: "matching e [IntV d, IntV t] (tables_db T) ''keys'' ?c =
        map keys_row [r \<leftarrow> keysT T. snd (fst r) = d \<and> alive t (snd (snd r))]"
      by (simp add: matching_def filter_map o_def)
    have page: "limited e args D (Some (Number 1)) None rows = Inr (take 1 rows)" for args D rows
      by (simp add: limited_def int_of_def)
    show "run_query schema e (map (bind_val (dialect e)) [IntV d, IntV t]) perm
        (Select [Item (Column ''key'')] ''keys'' ?c OrderRandom (Some (Number 1)) None) (tables_db T) =
        Inr (map (\<lambda>k. [TextV k]) (take 1 (arrange perm (alive_names d t T))))"
      by (simp add: run_query_def m page arrange_map take_map alive_names_def case_prod_unfold o_def del: truth.simps One_nat_def)
  qed (simp add: max_params_def opt_params_def)
qed

definition minOp :: "bool \<Rightarrow> string" where
  "minOp minExcl = (if minExcl then ''>'' else ''>='')"

definition maxOp :: "bool \<Rightarrow> string" where
  "maxOp maxExcl = (if maxExcl then ''<'' else ''<='')"

definition range_query :: "bool \<Rightarrow> bool \<Rightarrow> string" where
  "range_query minExcl maxExcl = ''SELECT member FROM zsets WHERE key=? AND db=? AND score '' @ minOp minExcl @
     '' ? AND score '' @ maxOp maxExcl @ '' ? ORDER BY score ASC, member ASC''"

lemma zset_order:
  "rows_le e [''score'', ''member''] (zsets_row r) (zsets_row r') \<longleftrightarrow>
     row_le e (snd (fst r), snd r) (snd (fst r'), snd r')"
  by (simp add: row_le_def)

lemma zset_rows_pairs:
  "zset_rows T kd = map (\<lambda>r. (snd (fst r), snd r)) [r \<leftarrow> zsetsT T. fst (fst r) = kd]"
  by (simp add: zset_rows_def case_prod_unfold)

lemma ordered_zset_rows:
  "order_by le (zset_rows T kd) =
     map (\<lambda>r. (snd (fst r), snd r)) (order_by (\<lambda>r r'. le (snd (fst r), snd r) (snd (fst r'), snd r'))
       [r \<leftarrow> zsetsT T. fst (fst r) = kd])"
  by (simp add: zset_rows_pairs order_by_map)

lemma text_zrange:
  "reads e ''SELECT member FROM zsets WHERE key=? AND db=? ORDER BY score ASC, member ASC LIMIT ? OFFSET ?''
    [TextV k, IntV d, IntV (int n), IntV (int start)]
    (\<lambda>_ T. map (\<lambda>m. [TextV m]) (take n (drop start (map fst (order_by (row_le e) (zset_rows T (k, d)))))))"
proof -
  let ?q = "''SELECT member FROM zsets WHERE key=? AND db=? ORDER BY score ASC, member ASC LIMIT ? OFFSET ?''"
  have "parse_sql ?q = Some (Select (map Item [Column ''member'']) ''zsets'' (key_is 1 2) (OrderBy [''score'', ''member''])
      (Some (Param 3)) (Some (Param 4))) \<and> stable ?q"
    by code_simp
  then have "reads e ?q [TextV k, IntV d, IntV (int n), IntV (int start)]
      (\<lambda>_ T. map (\<lambda>r. [TextV (snd (fst r))]) (take n (drop start
        (order_by (\<lambda>r r'. row_le e (snd (fst r), snd r) (snd (fst r'), snd r')) [r \<leftarrow> zsetsT T. fst (fst r) = (k, d)]))))"
    by (rule readsI_ordered [where f = zsets_row and page = "\<lambda>rs. take n (drop start rs)" and
          page' = "\<lambda>rs. take n (drop start rs)"])
      (simp_all only: zset_order,
       auto simp: max_params_def opt_params_def limited_def int_of_def prod_eq_iff take_map drop_map)
  then show ?thesis by (simp add: ordered_zset_rows take_map drop_map o_def)
qed

text \<open>What binding does to a bound does not change comparisons with it.\<close>

lemma bind_bound:
  "compare e Less (RealV s) (bind_val (dialect e) (RealV x)) = Some True \<longleftrightarrow> sc_less (dialect e) s x"
  "compare e LessEq (RealV s) (bind_val (dialect e) (RealV x)) = Some True \<longleftrightarrow> sc_le (dialect e) s x"
  "compare e Greater (RealV s) (bind_val (dialect e) (RealV x)) = Some True \<longleftrightarrow> sc_less (dialect e) x s"
  "compare e GreaterEq (RealV s) (bind_val (dialect e) (RealV x)) = Some True \<longleftrightarrow> sc_le (dialect e) x s"
  by (cases "dialect e"; cases x; simp add: bind_score_def sc_less_def sc_le_def f_less_def f_le_def)+

lemma and3_True: "and3 a b = Some True \<longleftrightarrow> a = Some True \<and> b = Some True"
  by (auto simp: and3_def)

lemma text_zrangebyscore:
  "reads e (range_query (snd lo) (snd hi)) [TextV k, IntV d, RealV (fst lo), RealV (fst hi)]
     (\<lambda>_ T. map (\<lambda>m. [TextV m]) (map fst (order_by (row_le e)
       [r \<leftarrow> zset_rows T (k, d). in_bounds (dialect e) lo hi (snd r)])))"
proof -
  let ?min = "if snd lo then Greater else GreaterEq" and ?max = "if snd hi then Less else LessEq"
  let ?c = "And (column_is ''key'' 1) (And (column_is ''db'' 2)
    (And (Compare (Column ''score'') ?min (Param 3)) (Compare (Column ''score'') ?max (Param 4))))"
  let ?Q = "\<lambda>r. fst (fst r) = (k, d) \<and> in_bounds (dialect e) lo hi (snd r)"
  have "parse_sql (range_query a b) = Some (Select (map Item [Column ''member'']) ''zsets''
      (And (column_is ''key'' 1) (And (column_is ''db'' 2)
        (And (Compare (Column ''score'') (if a then Greater else GreaterEq) (Param 3))
          (Compare (Column ''score'') (if b then Less else LessEq) (Param 4)))))
      (OrderBy [''score'', ''member'']) None None) \<and> stable (range_query a b)" for a b
    by (cases a; cases b; simp only: if_True if_False simp_thms; code_simp)
  then have "parse_sql (range_query (snd lo) (snd hi)) =
      Some (Select (map Item [Column ''member'']) ''zsets'' ?c (OrderBy [''score'', ''member'']) None None) \<and>
      stable (range_query (snd lo) (snd hi))"
    by blast
  then have "reads e (range_query (snd lo) (snd hi)) [TextV k, IntV d, RealV (fst lo), RealV (fst hi)]
      (\<lambda>_ T. map (\<lambda>r. [TextV (snd (fst r))]) (id (order_by (\<lambda>r r'. row_le e (snd (fst r), snd r) (snd (fst r'), snd r'))
        (filter ?Q (zsetsT T)))))"
  proof (rule readsI_ordered [where f = zsets_row and page = id])
    show "truth e (map (bind_val (dialect e)) [TextV k, IntV d, RealV (fst lo), RealV (fst hi)]) (tables_db T) []
        (zsets_row r) ?c = Some True \<longleftrightarrow> ?Q r" for T r
      by (cases "snd lo"; cases "snd hi")
        (simp_all add: and3_True in_bounds_def bind_bound prod_eq_iff del: bind_val.simps(1) compare_simps(5-8))
  qed (simp_all only: zset_order, auto simp: max_params_def opt_params_def)
  moreover have "order_by (row_le e) [r \<leftarrow> zset_rows T (k, d). in_bounds (dialect e) lo hi (snd r)] =
      map (\<lambda>r. (snd (fst r), snd r)) (order_by (\<lambda>r r'. row_le e (snd (fst r), snd r) (snd (fst r'), snd r'))
        (filter ?Q (zsetsT T)))" for T
  proof -
    have "[r \<leftarrow> zset_rows T (k, d). in_bounds (dialect e) lo hi (snd r)] =
        map (\<lambda>r. (snd (fst r), snd r)) (filter ?Q (zsetsT T))"
      by (simp add: zset_rows_pairs filter_map o_def conj_commute)
    then show ?thesis by (simp add: order_by_map)
  qed
  ultimately show ?thesis by (simp add: o_def)
qed

lemma text_zrank:
  "reads e ''SELECT COUNT(*) FROM zsets WHERE key=? AND db=? AND score < (
			SELECT score FROM zsets WHERE key=? AND db=? AND member=?
		)'' [TextV k, IntV d, TextV k, IntV d, TextV m] (\<lambda>_ T. one_int (rank_count (dialect e) T (k, d) m))"
proof -
  let ?q = "''SELECT COUNT(*) FROM zsets WHERE key=? AND db=? AND score < (
			SELECT score FROM zsets WHERE key=? AND db=? AND member=?
		)''"
  let ?sub = "Scalar ''score'' ''zsets'' (entry_is ''member'' 3 4 5)"
  let ?c = "And (column_is ''key'' 1) (And (column_is ''db'' 2) (Compare (Column ''score'') Less ?sub))"
  let ?args = "[TextV k, IntV d, TextV k, IntV d, TextV m]"
  have p: "parse_sql ?q = Some (Select [CountAll] ''zsets'' ?c Unordered None None) \<and> stable ?q"
    by code_simp
  show ?thesis
  proof (rule readsI [OF p])
    fix T perm assume T: "schema_ok T"
    have one: "[s \<leftarrow> tables_db T ''zsets''. truth e ?args (tables_db T) x s (entry_is ''member'' 3 4 5) = Some True] =
        map zsets_row (case map_of (zsetsT T) ((k, d), m) of None \<Rightarrow> [] | Some v \<Rightarrow> [(((k, d), m), v)])" for x
      using filter_key_map_of [OF schema_distinct(4) [OF T], of "((k, d), m)"]
      by (simp add: filter_map o_def prod_eq_iff)
    have sub: "eval e ?args (tables_db T) x r ?sub =
        (case map_of (zsetsT T) ((k, d), m) of None \<Rightarrow> Null | Some v \<Rightarrow> RealV v)" for x r
      unfolding eval.simps one by (simp add: get_def key_cols_def split: option.split)
    have "truth e ?args (tables_db T) [] (zsets_row r) ?c = Some True \<longleftrightarrow>
        fst (fst r) = (k, d) \<and> (\<exists>s. map_of (zsetsT T) ((k, d), m) = Some s \<and> sc_less (dialect e) (snd r) s)" for r
      unfolding truth.simps sub by (auto simp: and3_True prod_eq_iff split: option.splits)
    then have "matching e ?args (tables_db T) ''zsets'' ?c = map zsets_row [r \<leftarrow> zsetsT T. fst (fst r) = (k, d) \<and>
        (\<exists>s. map_of (zsetsT T) ((k, d), m) = Some s \<and> sc_less (dialect e) (snd r) s)]"
      by (simp only: matching_def tables_db_simps filter_map o_def)
    moreover have "rank_count (dialect e) T (k, d) m = length [r \<leftarrow> zsetsT T. fst (fst r) = (k, d) \<and>
        (\<exists>s. map_of (zsetsT T) ((k, d), m) = Some s \<and> sc_less (dialect e) (snd r) s)]"
      by (cases "map_of (zsetsT T) ((k, d), m)")
        (simp_all add: rank_count_def zset_rows_pairs filter_map o_def conj_commute)
    ultimately show "run_query schema e (map (bind_val (dialect e)) ?args) perm
        (Select [CountAll] ''zsets'' ?c Unordered None None) (tables_db T) = Inr (one_int (rank_count (dialect e) T (k, d) m))"
      by (simp add: run_query_def one_int_def del: truth.simps One_nat_def)
  qed (simp add: max_params_def opt_params_def)
qed

section \<open>Property\<close>

text \<open>C14. Every query that the store makes means what the model says it does: the text of the source, run with its
  arguments by an engine that follows the schema, and also after the PostgreSQL driver has numbered its placeholders,
  has as many placeholders as arguments and gives the rows that the model computes from the tables, in the order that
  the text asks for, as long as the tables satisfy the schema.\<close>

theorem read_texts:
  "reads e (''SELECT type FROM keys WHERE key=? AND db=? AND '' @ aliveWhere) [TextV k, IntV d, IntV t]
     (\<lambda>_ T. case map_of (keysT T) (k, d) of None \<Rightarrow> [] | Some (ty, ex) \<Rightarrow> if alive t ex then [[TextV ty]] else []) \<and>
   reads e (''SELECT value FROM strings WHERE key=? AND db=?'') [TextV k, IntV d]
     (\<lambda>_ T. case map_of (stringsT T) (k, d) of None \<Rightarrow> [] | Some v \<Rightarrow> [[TextV v]]) \<and>
   reads e (''SELECT expires_at FROM keys WHERE key=? AND db=?'') [TextV k, IntV d]
     (\<lambda>_ T. case map_of (keysT T) (k, d) of None \<Rightarrow> [] | Some (ty, ex) \<Rightarrow> [[opt_int ex]]) \<and>
   reads e (''SELECT type, expires_at FROM keys WHERE key=? AND db=?'') [TextV k, IntV d]
     (\<lambda>_ T. case map_of (keysT T) (k, d) of None \<Rightarrow> [] | Some (ty, ex) \<Rightarrow> [[TextV ty, opt_int ex]]) \<and>
   reads e (''SELECT COUNT(*) FROM keys WHERE key=? AND db=? AND '' @ aliveWhere) [TextV k, IntV d, IntV t] (\<lambda>_ T. one_int (count_alive T (k, d) t)) \<and>
   reads e (''SELECT COUNT(*) FROM keys WHERE key=? AND db=?'') [TextV k, IntV d] (\<lambda>_ T. one_int (length [r \<leftarrow> keysT T. fst r = (k, d)])) \<and>
   reads e (''SELECT COUNT(*) FROM keys WHERE db=? AND '' @ aliveWhere) [IntV d, IntV t] (\<lambda>_ T. one_int (length [(kd, ty, ex) \<leftarrow> keysT T. snd kd = d \<and> alive t ex])) \<and>
   reads e (''SELECT key FROM keys WHERE db=? AND '' @ aliveWhere) [IntV d, IntV t] (\<lambda>perm T. map (\<lambda>k. [TextV k]) (arrange perm (alive_names d t T))) \<and>
   reads e (''SELECT COUNT(*) FROM lists WHERE key=? AND db=?'') [TextV k, IntV d] (\<lambda>_ T. one_int (length [r \<leftarrow> listsT T. fst (fst r) = (k, d)])) \<and>
   reads e (''SELECT COUNT(*) FROM hashes WHERE key=? AND db=? AND field=?'') [TextV k, IntV d, TextV f] (\<lambda>_ T. one_int (count_field T (k, d) f)) \<and>
   reads e (''SELECT value FROM hashes WHERE key=? AND db=? AND field=?'') [TextV k, IntV d, TextV f]
     (\<lambda>_ T. case map_of (hashesT T) ((k, d), f) of None \<Rightarrow> [] | Some v \<Rightarrow> [[TextV v]]) \<and>
   reads e (''SELECT field, value FROM hashes WHERE key=? AND db=?'') [TextV k, IntV d] (\<lambda>perm T. map (\<lambda>(f, v). [TextV f, TextV v]) (arrange perm (hash_rows T (k, d)))) \<and>
   reads e (''SELECT field FROM hashes WHERE key=? AND db=?'') [TextV k, IntV d] (\<lambda>perm T. map (\<lambda>f. [TextV f]) (arrange perm (map fst (hash_rows T (k, d))))) \<and>
   reads e (''SELECT value FROM hashes WHERE key=? AND db=?'') [TextV k, IntV d] (\<lambda>perm T. map (\<lambda>v. [TextV v]) (arrange perm (map snd (hash_rows T (k, d))))) \<and>
   reads e (''SELECT COUNT(*) FROM hashes WHERE key=? AND db=?'') [TextV k, IntV d] (\<lambda>_ T. one_int (length (hash_rows T (k, d)))) \<and>
   reads e (''SELECT member FROM sets WHERE key=? AND db=?'') [TextV k, IntV d] (\<lambda>perm T. map (\<lambda>m. [TextV m]) (arrange perm (set_rows T (k, d)))) \<and>
   reads e (''SELECT COUNT(*) FROM sets WHERE key=? AND db=? AND member=?'') [TextV k, IntV d, TextV m] (\<lambda>_ T. one_int (length [r \<leftarrow> setsT T. fst r = ((k, d), m)])) \<and>
   reads e (''SELECT COUNT(*) FROM sets WHERE key=? AND db=?'') [TextV k, IntV d] (\<lambda>_ T. one_int (length (set_rows T (k, d)))) \<and>
   reads e (''SELECT COUNT(*) FROM zsets WHERE key=? AND db=? AND member=?'') [TextV k, IntV d, TextV m] (\<lambda>_ T. one_int (count_score T (k, d) m)) \<and>
   reads e (''SELECT score FROM zsets WHERE key=? AND db=? AND member=?'') [TextV k, IntV d, TextV m]
     (\<lambda>_ T. case map_of (zsetsT T) ((k, d), m) of None \<Rightarrow> [] | Some v \<Rightarrow> [[RealV v]]) \<and>
   reads e (''SELECT COUNT(*) FROM zsets WHERE key=? AND db=?'') [TextV k, IntV d] (\<lambda>_ T. one_int (length (zset_rows T (k, d)))) \<and>
   reads e ''SELECT value FROM lists WHERE key=? AND db=? ORDER BY idx ASC'' [TextV k, IntV d]
     (\<lambda>_ T. map (\<lambda>v. [TextV v]) (list_values T (k, d))) \<and>
   reads e (''SELECT key FROM keys WHERE db=? AND '' @ aliveWhere @ '' ORDER BY RANDOM() LIMIT 1'') [IntV d, IntV t]
     (\<lambda>perm T. map (\<lambda>k. [TextV k]) (take 1 (arrange perm (alive_names d t T)))) \<and>
   reads e ''SELECT member FROM zsets WHERE key=? AND db=? ORDER BY score ASC, member ASC LIMIT ? OFFSET ?''
    [TextV k, IntV d, IntV (int n), IntV (int start)]
    (\<lambda>_ T. map (\<lambda>m. [TextV m]) (take n (drop start (map fst (order_by (row_le e) (zset_rows T (k, d))))))) \<and>
   reads e (range_query (snd lo) (snd hi)) [TextV k, IntV d, RealV (fst lo), RealV (fst hi)]
     (\<lambda>_ T. map (\<lambda>m. [TextV m]) (map fst (order_by (row_le e)
       [r \<leftarrow> zset_rows T (k, d). in_bounds (dialect e) lo hi (snd r)]))) \<and>
   reads e ''SELECT COUNT(*) FROM zsets WHERE key=? AND db=? AND score < (
			SELECT score FROM zsets WHERE key=? AND db=? AND member=?
		)'' [TextV k, IntV d, TextV k, IntV d, TextV m] (\<lambda>_ T. one_int (rank_count (dialect e) T (k, d) m))"
  by (intro conjI text_key_type text_get text_expiry text_key_row text_count_alive text_exists
    text_dbsize text_keys text_llen text_count_field text_hget text_hgetall
    text_hkeys text_hvals text_hlen text_smembers text_sismember text_scard
    text_count_score text_zscore text_zcard text_lrange text_randomkey text_zrange
    text_zrangebyscore text_zrank)

end
