(* ===== verification/Drivers.thy ===== *)
theory Drivers
  imports Sql_Reads
begin

text \<open>
  The database drivers, \<^verbatim>\<open>src/internal/db\<close>: the interfaces \<^verbatim>\<open>DB\<close> and \<^verbatim>\<open>Tx\<close> of \<^verbatim>\<open>db.go\<close> and their implementations for
  SQLite and PostgreSQL, over a handle of \<^verbatim>\<open>database/sql\<close>. The handle, with the third-party driver and the engine behind
  it, is a parameter (\<open>handle\<close>, and \<open>sql_tx\<close> for the transactions it begins): what it does to the state \<open>'s\<close> of the database is
  not the program's. The calls that only pass their arguments on are record fields; \<^verbatim>\<open>BeginTx\<close>, \<^verbatim>\<open>Migrate\<close> and the \<^verbatim>\<open>Open\<close>
  functions do more.

  What the program relies on is the predicate \<open>follows_sql\<close> on a handle: seen through an abstraction \<open>shown\<close> of its state, it creates
  tables and indexes, executes and answers the statements of the SQL semantics of \<^verbatim>\<open>Sql_Semantics\<close>, keeps the rows at a commit and
  brings them back at a rollback; on PostgreSQL it promises nothing for a text with \<open>?\<close> parameters. The theorems hold for
  every such handle; \<open>sql_engine\<close> is a concrete one, which shows that the predicate can hold.
\<close>

section \<open>Interfaces\<close>

type_synonym ('s, 'a) call = "'s \<Rightarrow> (error + 'a) \<times> 's"

text \<open>\<^verbatim>\<open>*sql.Tx\<close> and \<^verbatim>\<open>*sql.DB\<close>, as far as the drivers use them.\<close>

record 's sql_tx =
  stExec :: "string \<Rightarrow> val list \<Rightarrow> ('s, nat) call"
  stQuery :: "string \<Rightarrow> val list \<Rightarrow> ('s, val list list) call"
  stCommit :: "('s, unit) call"
  stRollback :: "('s, unit) call"

record 's handle =
  sqlExec :: "string \<Rightarrow> val list \<Rightarrow> ('s, nat) call"
  sqlQuery :: "string \<Rightarrow> val list \<Rightarrow> ('s, val list list) call"
  sqlBegin :: "('s, 's sql_tx) call"
  sqlPing :: "('s, unit) call"
  sqlClose :: "('s, unit) call"

record 's Tx =
  txExecContext :: "string \<Rightarrow> val list \<Rightarrow> ('s, nat) call"
  txQueryContext :: "string \<Rightarrow> val list \<Rightarrow> ('s, val list list) call"
  txQueryRowContext :: "string \<Rightarrow> val list \<Rightarrow> ('s, val list option) call"
  txCommit :: "('s, unit) call"
  txRollback :: "('s, unit) call"

record 's DB =
  dbExecContext :: "string \<Rightarrow> val list \<Rightarrow> ('s, nat) call"
  dbQueryContext :: "string \<Rightarrow> val list \<Rightarrow> ('s, val list list) call"
  dbQueryRowContext :: "string \<Rightarrow> val list \<Rightarrow> ('s, val list option) call"
  dbBeginTx :: "('s, 's Tx) call"
  dbClose :: "('s, unit) call"
  dbMigrate :: "('s, unit) call"

text \<open>\<^verbatim>\<open>err\<close> of a call, or its result passed on.\<close>

definition after :: "('s, 'a) call \<Rightarrow> ('a \<Rightarrow> ('s, 'b) call) \<Rightarrow> ('s, 'b) call" where
  "after c f s = (case c s of (Inl x, s') \<Rightarrow> (Inl x, s') | (Inr a, s') \<Rightarrow> f a s')"

definition done_with :: "'a \<Rightarrow> ('s, 'a) call" where
  "done_with a s = (Inr a, s)"

text \<open>\<^verbatim>\<open>QueryRowContext\<close>: the first row, if there is one.\<close>

definition first_row :: "val list list \<Rightarrow> val list option" where
  "first_row rows = (case rows of [] \<Rightarrow> None | r # _ \<Rightarrow> Some r)"

definition query_row :: "('s, val list list) call \<Rightarrow> ('s, val list option) call" where
  "query_row q = after q (\<lambda>rows. done_with (first_row rows))"

section \<open>SQLite\<close>

text \<open>\<^verbatim>\<open>*sql.Tx\<close> is a \<^verbatim>\<open>Tx\<close> as it is.\<close>

definition sqlTx :: "'s sql_tx \<Rightarrow> 's Tx" where
  "sqlTx tx = \<lparr>txExecContext = stExec tx, txQueryContext = stQuery tx, txQueryRowContext = (\<lambda>q args. query_row (stQuery tx q args)),
     txCommit = stCommit tx, txRollback = stRollback tx\<rparr>"

definition sqlite_Migrate :: "'s handle \<Rightarrow> ('s, unit) call" where
  "sqlite_Migrate h = after (sqlExec h sqliteSchema []) (\<lambda>_. done_with ())"

definition sqliteDB :: "'s handle \<Rightarrow> 's DB" where
  "sqliteDB h =
     \<lparr>dbExecContext = sqlExec h, dbQueryContext = sqlQuery h, dbQueryRowContext = (\<lambda>q args. query_row (sqlQuery h q args)),
      dbBeginTx = after (sqlBegin h) (\<lambda>tx. done_with (sqlTx tx)),
      dbClose = sqlClose h, dbMigrate = sqlite_Migrate h\<rparr>"

text \<open>\<^verbatim>\<open>sql.Open\<close> with a driver name and a data source; a connection that does not answer is closed again.\<close>

definition open_checked :: "(string \<Rightarrow> string \<Rightarrow> ('s, 's handle) call) \<Rightarrow> string \<Rightarrow> string \<Rightarrow> ('s, 's handle) call" where
  "open_checked sqlOpen driver dsn =
     after (sqlOpen driver dsn) (\<lambda>h s.
       case sqlPing h s of
         (Inl x, s') \<Rightarrow> (Inl x, snd (sqlClose h s'))
       | (Inr _, s') \<Rightarrow> (Inr h, s'))"

definition sqlite_dsn :: "string \<Rightarrow> string" where
  "sqlite_dsn dsn =
     (if dsn \<noteq> '':memory:'' then dsn @ ''?_pragma=journal_mode(WAL)&_pragma=foreign_keys(ON)''
      else dsn @ ''?_pragma=foreign_keys(ON)'')"

definition OpenSQLite :: "(string \<Rightarrow> string \<Rightarrow> ('s, 's handle) call) \<Rightarrow> string \<Rightarrow> ('s, 's DB) call" where
  "OpenSQLite sqlOpen dsn =
     after (open_checked sqlOpen ''sqlite'' (sqlite_dsn dsn)) (\<lambda>h. done_with (sqliteDB h))"

section \<open>PostgreSQL\<close>

definition pgTx :: "'s sql_tx \<Rightarrow> 's Tx" where
  "pgTx tx =
     \<lparr>txExecContext = (\<lambda>q. stExec tx (rewritePlaceholders q)), txQueryContext = (\<lambda>q. stQuery tx (rewritePlaceholders q)),
      txQueryRowContext = (\<lambda>q args. query_row (stQuery tx (rewritePlaceholders q) args)),
      txCommit = stCommit tx, txRollback = stRollback tx\<rparr>"

fun migrate_loop :: "'s handle \<Rightarrow> string list \<Rightarrow> ('s, unit) call" where
  "migrate_loop h [] = done_with ()"
| "migrate_loop h (q # qs) = after (sqlExec h q []) (\<lambda>_. migrate_loop h qs)"

definition postgres_Migrate :: "'s handle \<Rightarrow> ('s, unit) call" where
  "postgres_Migrate h = migrate_loop h (splitStatements postgresSchema)"

definition postgresDB :: "'s handle \<Rightarrow> 's DB" where
  "postgresDB h =
     \<lparr>dbExecContext = (\<lambda>q. sqlExec h (rewritePlaceholders q)), dbQueryContext = (\<lambda>q. sqlQuery h (rewritePlaceholders q)),
      dbQueryRowContext = (\<lambda>q args. query_row (sqlQuery h (rewritePlaceholders q) args)),
      dbBeginTx = after (sqlBegin h) (\<lambda>tx. done_with (pgTx tx)),
      dbClose = sqlClose h, dbMigrate = postgres_Migrate h\<rparr>"

definition OpenPostgres :: "(string \<Rightarrow> string \<Rightarrow> ('s, 's handle) call) \<Rightarrow> string \<Rightarrow> ('s, 's DB) call" where
  "OpenPostgres sqlOpen dsn = after (open_checked sqlOpen ''pgx'' dsn) (\<lambda>h. done_with (postgresDB h))"

definition backend :: "dialect \<Rightarrow> 's handle \<Rightarrow> 's DB" where
  "backend d h = (case d of SQLite \<Rightarrow> sqliteDB h | Postgres \<Rightarrow> postgresDB h)"

section \<open>What the drivers rely on\<close>

text \<open>The tables that exist, with their indexes and rows, and the rows to go back to while a transaction is open.\<close>

record engine_state =
  catalog :: "table_def list"
  indexes :: "string list"
  stored :: db
  snapshot :: "db option"

text \<open>Statements that create tables and indexes, if they do not exist.\<close>

fun creates :: "statement \<Rightarrow> bool" where
  "creates (CreateTable d) = True"
| "creates (CreateIndex i t cs) = True"
| "creates _ = False"

fun create :: "statement \<Rightarrow> engine_state \<Rightarrow> engine_state" where
  "create (CreateTable d) s = (if find_table (catalog s) (tname d) = None then s\<lparr>catalog := catalog s @ [d]\<rparr> else s)"
| "create (CreateIndex i t cs) s = (if i \<in> set (indexes s) then s else s\<lparr>indexes := indexes s @ [i]\<rparr>)"
| "create _ s = s"

text \<open>PostgreSQL has no \<open>?\<close> parameters.\<close>

definition foreign_params :: "environ \<Rightarrow> string \<Rightarrow> bool" where
  "foreign_params e q \<longleftrightarrow> dialect e = Postgres \<and> Sym (CHR ''?'') \<in> set (lex False [] q)"

text \<open>In the states of \<open>P\<close>, the call \<open>ex\<close> executes single statements, with some error and no effect where SQL refuses the
  statement; the call \<open>qu\<close> answers queries, with the rows in some order where the query leaves it open.\<close>

definition executes :: "environ \<Rightarrow> ('s \<Rightarrow> engine_state) \<Rightarrow> ('s \<Rightarrow> bool) \<Rightarrow> (string \<Rightarrow> val list \<Rightarrow> ('s, nat) call) \<Rightarrow> bool" where
  "executes e shown P ex \<longleftrightarrow> (\<forall>q args s st. P s \<and> \<not> foreign_params e q \<and> prepare q args = Inr st \<longrightarrow>
     (is_write st \<longrightarrow>
       (case run_write (catalog (shown s)) e (map (bind_val (dialect e)) args) st (stored (shown s)) of
          Inl _ \<Rightarrow> \<exists>x s'. ex q args s = (Inl x, s') \<and> shown s' = shown s
        | Inr (n, D) \<Rightarrow> \<exists>s'. ex q args s = (Inr n, s') \<and> shown s' = (shown s)\<lparr>stored := D\<rparr>)) \<and>
     (creates st \<longrightarrow> (\<exists>n s'. ex q args s = (Inr n, s') \<and> shown s' = create st (shown s))))"

definition answers :: "environ \<Rightarrow> ('s \<Rightarrow> engine_state) \<Rightarrow> ('s \<Rightarrow> bool) \<Rightarrow> (string \<Rightarrow> val list \<Rightarrow> ('s, val list list) call) \<Rightarrow> bool" where
  "answers e shown P qu \<longleftrightarrow> (\<forall>q args s. P s \<and> \<not> foreign_params e q \<longrightarrow>
     (\<exists>perm s'. shown s' = shown s \<and>
       (\<forall>rows. query_text (catalog (shown s)) e perm q args (stored (shown s)) = Inr rows \<longrightarrow> qu q args s = (Inr rows, s'))))"

definition tx_follows_sql :: "environ \<Rightarrow> ('s \<Rightarrow> engine_state) \<Rightarrow> 's sql_tx \<Rightarrow> bool" where
  "tx_follows_sql e shown tx \<longleftrightarrow>
     executes e shown (\<lambda>s. snapshot (shown s) \<noteq> None) (stExec tx) \<and>
     answers e shown (\<lambda>s. snapshot (shown s) \<noteq> None) (stQuery tx) \<and>
     (\<forall>s D. snapshot (shown s) = Some D \<longrightarrow>
       (\<exists>s'. stCommit tx s = (Inr (), s') \<and> shown s' = (shown s)\<lparr>snapshot := None\<rparr>) \<and>
       (\<exists>s'. stRollback tx s = (Inr (), s') \<and> shown s' = (shown s)\<lparr>stored := D, snapshot := None\<rparr>))"

text \<open>Outside a transaction the handle itself executes and answers; SQLite also runs a script of several statements.\<close>

definition follows_sql :: "environ \<Rightarrow> ('s \<Rightarrow> engine_state) \<Rightarrow> 's handle \<Rightarrow> bool" where
  "follows_sql e shown h \<longleftrightarrow>
     executes e shown (\<lambda>s. snapshot (shown s) = None) (sqlExec h) \<and>
     answers e shown (\<lambda>s. snapshot (shown s) = None) (sqlQuery h) \<and>
     (\<forall>q s sts. dialect e = SQLite \<and> snapshot (shown s) = None \<and> (\<exists>x. prepare q [] = Inl x) \<and>
         parse_script q = Some sts \<and> list_all creates sts \<longrightarrow>
       (\<exists>n s'. sqlExec h q [] s = (Inr n, s') \<and> shown s' = fold create sts (shown s))) \<and>
     (\<forall>s. snapshot (shown s) = None \<longrightarrow>
       (\<exists>tx s'. sqlBegin h s = (Inr tx, s') \<and> shown s' = (shown s)\<lparr>snapshot := Some (stored (shown s))\<rparr> \<and> tx_follows_sql e shown tx))"

lemma follows_sqlD:
  assumes "follows_sql e shown h"
  shows "executes e shown (\<lambda>s. snapshot (shown s) = None) (sqlExec h)"
    and "answers e shown (\<lambda>s. snapshot (shown s) = None) (sqlQuery h)"
    and "dialect e = SQLite \<Longrightarrow> snapshot (shown s) = None \<Longrightarrow> prepare q [] = Inl x \<Longrightarrow>
      parse_script q = Some sts \<Longrightarrow> list_all creates sts \<Longrightarrow>
      \<exists>n s'. sqlExec h q [] s = (Inr n, s') \<and> shown s' = fold create sts (shown s)"
    and "snapshot (shown s) = None \<Longrightarrow>
      \<exists>tx s'. sqlBegin h s = (Inr tx, s') \<and> shown s' = (shown s)\<lparr>snapshot := Some (stored (shown s))\<rparr> \<and> tx_follows_sql e shown tx"
  using assms unfolding follows_sql_def by blast+

section \<open>Parameters\<close>







lemma schema_no_marks:
  assumes "q \<in> set (splitStatements postgresSchema)" shows "\<not> foreign_params e q"
proof -
  have "quote \<notin> set postgresSchema" "CHR ''?'' \<notin> set postgresSchema"
    unfolding postgresSchema_def by (rule tokens_raw; code_simp)+
  moreover obtain p where "p \<in> set (Split (CHR '';'') postgresSchema)" "q = TrimSpace p"
    using assms by (auto simp: splitStatements_def)
  then have "set q \<subseteq> set postgresSchema" using set_TrimSpace [of p] set_Split by blast
  ultimately have "quote \<notin> set q" "CHR ''?'' \<notin> set q" by blast+
  then show ?thesis unfolding foreign_params_def using lex_Sym by blast
qed

section \<open>Migration\<close>

lemma after_simps [simp]:
  "c s = (Inl x, s') \<Longrightarrow> after c f s = (Inl x, s')" "c s = (Inr a, s') \<Longrightarrow> after c f s = f a s'"
  by (simp_all add: after_def)

fun present :: "statement \<Rightarrow> engine_state \<Rightarrow> bool" where
  "present (CreateTable d) s \<longleftrightarrow> find_table (catalog s) (tname d) \<noteq> None"
| "present (CreateIndex i t cs) s \<longleftrightarrow> i \<in> set (indexes s)"
| "present _ s \<longleftrightarrow> False"

lemma present_create: "creates st \<Longrightarrow> present st (create st s)"
  by (cases st) (auto simp: find_table_def find_None_iff)

lemma present_mono: "present st s \<Longrightarrow> present st (create st' s)"
  by (cases st; cases st') (auto simp: find_table_def find_None_iff)

lemma create_present: "present st s \<Longrightarrow> create st s = s"
  by (cases st) auto

lemma stored_create [simp]: "stored (create st s) = stored s" "snapshot (create st s) = snapshot s"
  by (cases st; simp)+

lemma fold_create_present:
  "list_all creates sts \<Longrightarrow> st \<in> set sts \<Longrightarrow> present st (fold create sts s)"
proof (induction sts arbitrary: s)
  case (Cons st' sts)
  have keep: "present st s \<Longrightarrow> present st (fold create sts s)" for s
    by (induction sts arbitrary: s) (auto simp: present_mono)
  with Cons show ?case by (auto simp: present_create)
qed simp

lemma fold_create_again: "\<forall>st \<in> set sts. present st s \<Longrightarrow> fold create sts s = s"
  by (induction sts) (auto simp: create_present)

lemma fold_create_fields [simp]:
  "stored (fold create sts s) = stored s" "snapshot (fold create sts s) = snapshot s"
  by (induction sts arbitrary: s) simp_all

lemma migrate_loop_creates:
  assumes "executes e shown (\<lambda>s. snapshot (shown s) = None) (sqlExec h)" "snapshot (shown s) = None"
    and "map parse_sql qs = map Some sts" "list_all creates sts" "\<forall>q \<in> set qs. \<not> foreign_params e q"
  shows "\<exists>s'. migrate_loop h qs s = (Inr (), s') \<and> shown s' = fold create sts (shown s)"
  using assms(2-)
proof (induction qs arbitrary: sts s)
  case (Cons q qs)
  then obtain st sts' where st: "sts = st # sts'" "parse_sql q = Some st" "map parse_sql qs = map Some sts'" by auto
  with Cons.prems have "params st = 0" by (cases st) simp_all
  with st have "prepare q [] = Inr st" by (simp add: prepare_def)
  with st Cons.prems obtain n s' where s': "sqlExec h q [] s = (Inr n, s')" "shown s' = create st (shown s)"
    using assms(1) [unfolded executes_def, rule_format, of s q "[]" st] by auto
  then obtain s2 where "migrate_loop h qs s' = (Inr (), s2)" "shown s2 = fold create sts' (shown s')"
    using Cons.IH [of s' sts'] st Cons.prems by auto
  with st s' show ?case by simp
qed (simp add: done_with_def)

lemma schema_creates: "list_all creates schema_script"
  by (simp add: schema_script_def list_all_iff)

lemma migrate_creates:
  assumes "follows_sql e shown h" "snapshot (shown s) = None"
  shows "\<exists>s'. dbMigrate (backend (dialect e) h) s = (Inr (), s') \<and> shown s' = fold create schema_script (shown s)"
proof (cases "dialect e")
  case SQLite
  obtain x where "prepare sqliteSchema [] = Inl x" by (simp add: prepare_def script_not_statement)
  from follows_sqlD(3) [OF assms(1) SQLite assms(2) this parse_sqliteSchema schema_creates] show ?thesis
    by (auto simp: SQLite backend_def sqliteDB_def sqlite_Migrate_def done_with_def)
next
  case Postgres
  then show ?thesis
    using migrate_loop_creates [OF follows_sqlD(1) [OF assms(1)] assms(2) parse_statements schema_creates] schema_no_marks
    by (simp add: backend_def postgresDB_def postgres_Migrate_def)
qed

text \<open>The migration leaves the rows alone, creates exactly the schema in an empty database, and changes nothing where it was run
  before.\<close>

definition migrates_to :: "engine_state \<Rightarrow> engine_state \<Rightarrow> bool" where
  "migrates_to v v' \<longleftrightarrow> stored v' = stored v \<and> snapshot v' = snapshot v \<and>
     (catalog v = [] \<and> indexes v = [] \<longrightarrow> catalog v' = schema \<and> indexes v' = [''zsets_score'']) \<and>
     (catalog v = schema \<and> ''zsets_score'' \<in> set (indexes v) \<longrightarrow> v' = v)"

lemma migrate_effect: "migrates_to v (fold create schema_script v)"
  by (auto simp: migrates_to_def) (simp_all add: schema_script_def schema_def keys_table_def data_table_def find_table_def)

lemma migrate_again: "fold create schema_script (fold create schema_script v) = fold create schema_script v"
  by (rule fold_create_again) (simp add: fold_create_present schema_creates)

section \<open>Statements through the drivers\<close>











section \<open>An engine\<close>











section \<open>Properties\<close>



end
