(* ===== verification/Process.thy ===== *)
theory Process
  imports Config Drivers Server_Laws
begin

text \<open>
  The process: \<^verbatim>\<open>src/cmd/sql-resp/main.go\<close> and the life of the listener in \<^verbatim>\<open>src/internal/server/server.go\<close>
  (\<^verbatim>\<open>ListenAndServe\<close>, \<^verbatim>\<open>serve\<close>, \<^verbatim>\<open>Close\<close>, \<^verbatim>\<open>Addr\<close>).

  \<open>main_start\<close> is \<^verbatim>\<open>main\<close> up to the point where its goroutines start: the command line, the configuration, the database
  that is opened and migrated, with the function \<^verbatim>\<open>sql.Open\<close> as a parameter. From there on the process is a step relation
  over the goroutines: the accepting one, the one that waits for a signal, the sweep, and the connections of \<^verbatim>\<open>Server\<close>.
  What \<^verbatim>\<open>net.Listen\<close> and \<^verbatim>\<open>Accept\<close> give is arbitrary, except that a closed listener accepts no connection.
\<close>

section \<open>Start\<close>







definition main_addr :: "Config \<Rightarrow> string" where
  "main_addr c = '':'' @ FormatInt (cPort c)"

definition main_server :: "Config \<Rightarrow> ServerConfig" where
  "main_server c = \<lparr>Addr = main_addr c, Password = cPassword c, TLSConfig = False, Store = True\<rparr>"

section \<open>The listener\<close>

record listener =
  lnAddr :: string
  lnTLS :: bool
  lnClosed :: bool

text \<open>The main goroutine is about to listen, is in the loop of \<^verbatim>\<open>serve\<close>, or has an error from \<^verbatim>\<open>ListenAndServe\<close>, which ends
  the process. The signal goroutine has not yet asked for signals (a signal then kills the process), waits for one,
  has one, or has called \<^verbatim>\<open>Close\<close> and is gone; signals that come later are dropped.\<close>

datatype phase = Starting | Accepting | Returned string

datatype watcher = NotYet | Waiting | Received | Gone | Killed

record process =
  listener_of :: "listener option"
  phase_of :: phase
  watcher_of :: watcher
  shared :: server

definition start_process :: "world \<Rightarrow> process" where
  "start_process w = \<lparr>listener_of = None, phase_of = Starting, watcher_of = NotYet, shared = new_server w\<rparr>"

text \<open>\<open>ListenAndServe\<close> up to its loop, for a result of \<^verbatim>\<open>net.Listen\<close>: an error, or the address that was bound.\<close>

definition ListenAndServe :: "ServerConfig \<Rightarrow> string + string \<Rightarrow> process \<Rightarrow> process" where
  "ListenAndServe cfg r p =
     (case r of
        Inl x \<Rightarrow> p\<lparr>phase_of := Returned x\<rparr>
      | Inr a \<Rightarrow> p\<lparr>listener_of := Some \<lparr>lnAddr = a, lnTLS = TLSConfig cfg, lnClosed = False\<rparr>, phase_of := Accepting\<rparr>)"

text \<open>A turn of the loop, for a result of \<^verbatim>\<open>Accept\<close>: an error, or a connection with the bytes it will send.\<close>

definition serve_loop :: "ServerConfig \<Rightarrow> string + nat \<times> string \<Rightarrow> process \<Rightarrow> process" where
  "serve_loop cfg r p =
     (case r of
        Inl x \<Rightarrow> p\<lparr>phase_of := Returned x\<rparr>
      | Inr (i, inp) \<Rightarrow> p\<lparr>shared := accept cfg i inp (shared p)\<rparr>)"

definition Close :: "process \<Rightarrow> process" where
  "Close p =
     (case listener_of p of
        None \<Rightarrow> p
      | Some l \<Rightarrow> p\<lparr>listener_of := Some (l\<lparr>lnClosed := True\<rparr>)\<rparr>)"

definition server_Addr :: "process \<Rightarrow> string" where
  "server_Addr p = (case listener_of p of None \<Rightarrow> '''' | Some l \<Rightarrow> lnAddr l)"

section \<open>Steps\<close>

definition running :: "process \<Rightarrow> bool" where
  "running p \<longleftrightarrow> (phase_of p = Starting \<or> phase_of p = Accepting) \<and> watcher_of p \<noteq> Killed \<and> \<not> crashed (shared p)"

definition accepts :: "process \<Rightarrow> string + nat \<times> string \<Rightarrow> bool" where
  "accepts p r \<longleftrightarrow> phase_of p = Accepting \<and>
     (case r of
        Inl _ \<Rightarrow> True
      | Inr (i, _) \<Rightarrow> conns (shared p) i = None \<and> (\<exists>l. listener_of p = Some l \<and> \<not> lnClosed l))"

inductive process_step :: "Config \<Rightarrow> ctx \<Rightarrow> process \<Rightarrow> process \<Rightarrow> bool" for conf c where
  listen: "running p \<Longrightarrow> phase_of p = Starting \<Longrightarrow> process_step conf c p (ListenAndServe (main_server conf) r p)"
| turn: "running p \<Longrightarrow> accepts p r \<Longrightarrow> process_step conf c p (serve_loop (main_server conf) r p)"
| notify: "running p \<Longrightarrow> watcher_of p = NotYet \<Longrightarrow> process_step conf c p (p\<lparr>watcher_of := Waiting\<rparr>)"
| kill: "running p \<Longrightarrow> watcher_of p = NotYet \<Longrightarrow> process_step conf c p (p\<lparr>watcher_of := Killed\<rparr>)"
| signal: "running p \<Longrightarrow> watcher_of p = Waiting \<Longrightarrow> process_step conf c p (p\<lparr>watcher_of := Received\<rparr>)"
| shutdown: "running p \<Longrightarrow> watcher_of p = Received \<Longrightarrow> process_step conf c p (Close (p\<lparr>watcher_of := Gone\<rparr>))"
| request: "running p \<Longrightarrow> process_step conf c p (p\<lparr>shared := iterate (main_server conf) c i (shared p)\<rparr>)"
| tick: "running p \<Longrightarrow> \<not> ticker_panics conf \<Longrightarrow> process_step conf c p (p\<lparr>shared := sweep (shared p)\<rparr>)"
| no_tick: "running p \<Longrightarrow> ticker_panics conf \<Longrightarrow> process_step conf c p (p\<lparr>shared := (shared p)\<lparr>crashed := True\<rparr>\<rparr>)"
| outside: "running p \<Longrightarrow> tabs w = tabs (world_of (shared p)) \<Longrightarrow>
    process_step conf c p (p\<lparr>shared := (shared p)\<lparr>world_of := w\<rparr>\<rparr>)"

text \<open>The contract of what the process keeps for ever once it holds.\<close>

locale process_keeps =
  fixes Q :: "process \<Rightarrow> bool"
  assumes keeps: "process_step conf c p p' \<Longrightarrow> Q p \<Longrightarrow> Q p'"
begin

lemma for_ever: "(process_step conf c)\<^sup>*\<^sup>* p p' \<Longrightarrow> Q p \<Longrightarrow> Q p'"
  by (induction rule: rtranclp_induct) (auto intro: keeps)

end

section \<open>What is kept\<close>

lemma iterate_same_conns: "observes (\<lambda>_. ()) st (iterate cfg c i st)"
proof -
  have same: "map_option g a = map_option g b \<Longrightarrow> map_option (\<lambda>_. ()) a = map_option (\<lambda>_. ()) b" for g :: "conn \<Rightarrow> 'z" and a b
    by (cases a; cases b) simp_all
  have any: "observes (\<lambda>_. ()) st st'" if "observes wiring st st'" for st st'
    unfolding observes_def by (intro allI, rule same [of wiring]) (use that in \<open>simp add: observes_def\<close>)
  have conn: "observes (\<lambda>_. ()) st (on_conn i f st)" for f i st by (simp add: observes_on_conn)
  have left: "observes (\<lambda>_. ()) st (disconnect i st)" for i st
    by (auto simp: observes_def option.map_comp comp_def)
  have cmd: "observes (\<lambda>_. ()) st (run_command cfg c i args k st)" for args k st
    unfolding run_command_def
    by (auto simp: Let_def observes_def option.map_comp comp_def split: prod.split reply.split)
  have "observes (\<lambda>_. ()) st (serve cfg c i v k st)" for v k st
    unfolding serve_def Let_def
    by (auto simp: observes_refl case_prod_beta
        intro: cmd any [OF observes_Write] any [OF observes_publish] any [OF observes_unsubscribe_all]
          any [OF observes_fold [OF observes_subscribe(1)]] any [OF observes_fold [OF observes_subscribe(2)]]
          observes_trans [OF conn any [OF observes_Write]])
  then show ?thesis
    unfolding iterate_def
    by (auto simp: observes_refl split: option.split rd.split intro: observes_trans [OF conn] left)
      (simp add: observes_def)
qed

lemma dom_iterate: "dom (conns (iterate cfg c i st)) = dom (conns st)"
proof -
  have "conns (iterate cfg c i st) j = None \<longleftrightarrow> conns st j = None" for j
    using iterate_same_conns [of st cfg c i] unfolding observes_def by (metis option.map_disc_iff)
  then show ?thesis by (simp add: dom_def)
qed

lemma step_fields [simp]:
  "shared (ListenAndServe cfg r p) = shared p" "watcher_of (ListenAndServe cfg r p) = watcher_of p"
  "listener_of (serve_loop cfg a p) = listener_of p" "watcher_of (serve_loop cfg a p) = watcher_of p"
  "shared (Close p) = shared p" "phase_of (Close p) = phase_of p" "watcher_of (Close p) = watcher_of p"
  "listener_of (Close p) = map_option (lnClosed_update (\<lambda>_. True)) (listener_of p)"
  "world_of (sweep st) = snd (SweepExpired (world_of st))" "conns (sweep st) = conns st"
  by (simp_all add: ListenAndServe_def serve_loop_def Close_def sweep_def split: sum.split option.split)

text \<open>Whether the process listens, and on what.\<close>

definition listening_ok :: "process \<Rightarrow> bool" where
  "listening_ok p \<longleftrightarrow> (phase_of p = Starting \<longrightarrow> listener_of p = None \<and> dom (conns (shared p)) = {}) \<and>
     (phase_of p = Accepting \<longrightarrow> listener_of p \<noteq> None) \<and> (\<forall>l. listener_of p = Some l \<longrightarrow> \<not> lnTLS l)"

lemma serve_loop_fields:
  "phase_of (serve_loop cfg (Inl x) p) = Returned x" "shared (serve_loop cfg (Inl x) p) = shared p"
  "phase_of (serve_loop cfg (Inr a) p) = phase_of p" "shared (serve_loop cfg (Inr a) p) = accept cfg (fst a) (snd a) (shared p)"
  by (simp_all add: serve_loop_def split: prod.split)

interpretation listening: process_keeps listening_ok
proof
  fix conf c p p' assume "process_step conf c p p'" "listening_ok p"
  then show "listening_ok p'"
  proof (cases rule: process_step.cases)
    case (listen r)
    with \<open>listening_ok p\<close> show ?thesis
      by (auto simp: listening_ok_def ListenAndServe_def main_server_def split: sum.split)
  next
    case (turn r)
    with \<open>listening_ok p\<close> show ?thesis
      by (cases r) (auto simp: listening_ok_def serve_loop_fields accepts_def)
  next
    case (request i)
    with \<open>listening_ok p\<close> show ?thesis by (simp add: listening_ok_def dom_iterate)
  qed (auto simp: listening_ok_def)
qed

interpretation sound: process_keeps "\<lambda>p. server_ok (shared p)"
proof
  fix conf c p p' assume step: "process_step conf c p p'" and ok: "server_ok (shared p)"
  from step show "server_ok (shared p')"
  proof (cases rule: process_step.cases)
    case (turn r)
    show ?thesis
    proof (cases r)
      case (Inr a)
      with turn have "server_step (main_server conf) c (shared p) (shared p')"
        by (auto simp: serve_loop_fields accepts_def running_def intro: server_step.step_accept)
      then show ?thesis by (rule ok_step [OF _ ok])
    qed (use turn ok in \<open>simp add: serve_loop_fields\<close>)
  next
    case tick
    then have "server_step (main_server conf) c (shared p) (shared p')"
      by (simp add: running_def server_step.step_sweep)
    then show ?thesis by (rule ok_step [OF _ ok])
  next
    case (outside w)
    then have "server_step (main_server conf) c (shared p) (shared p')"
      by (simp add: server_step.step_env)
    then show ?thesis by (rule ok_step [OF _ ok])
  qed (use ok in \<open>simp_all add: ok_iterate ok_crashed\<close>)
qed

text \<open>The listener is closed, and the connections are those of \<open>D\<close>.\<close>

definition closed_with :: "nat set \<Rightarrow> process \<Rightarrow> bool" where
  "closed_with D p \<longleftrightarrow> (\<exists>l. listener_of p = Some l \<and> lnClosed l) \<and> phase_of p \<noteq> Starting \<and> dom (conns (shared p)) = D"

interpretation closing: process_keeps "closed_with D" for D
proof
  fix conf c p p' assume "process_step conf c p p'" "closed_with D p"
  then show "closed_with D p'"
  proof (cases rule: process_step.cases)
    case (turn r)
    with \<open>closed_with D p\<close> show ?thesis
      by (cases r) (auto simp: closed_with_def serve_loop_fields accepts_def)
  next
    case (request i)
    with \<open>closed_with D p\<close> show ?thesis by (simp add: closed_with_def dom_iterate)
  qed (auto simp: closed_with_def)
qed

text \<open>The signal goroutine is gone and has not closed the listener.\<close>

definition deaf :: "process \<Rightarrow> bool" where
  "deaf p \<longleftrightarrow> watcher_of p = Gone \<and> (\<forall>l. listener_of p = Some l \<longrightarrow> \<not> lnClosed l)"

interpretation deafness: process_keeps deaf
proof
  fix conf c p p' assume "process_step conf c p p'" "deaf p"
  then show "deaf p'"
  proof (cases rule: process_step.cases)
    case (listen r)
    with \<open>deaf p\<close> show ?thesis by (auto simp: deaf_def ListenAndServe_def split: sum.split)
  qed (auto simp: deaf_def)
qed

section \<open>The backends of a configuration\<close>






section \<open>Properties\<close>





text \<open>C23. In every state that the process reaches from its start on the tables of an earlier or an empty run (listening or not,
  with signals, sweeps and clients in any order), the tables satisfy the schema's constraints and every connection has a
  valid state; there is no connection before the process listens, and it never listens with TLS.\<close>

theorem process_sound:
  assumes "reachable w" "(process_step conf c)\<^sup>*\<^sup>* (start_process w) p"
  shows "schema_ok (tabs (world_of (shared p))) \<and> (\<forall>i k. conns (shared p) i = Some k \<longrightarrow> conn_ok k) \<and>
    (phase_of p = Starting \<longrightarrow> dom (conns (shared p)) = {} \<and> server_Addr p = '''') \<and>
    (\<forall>l. listener_of p = Some l \<longrightarrow> \<not> lnTLS l)"
proof -
  have "server_ok (shared (start_process w))" "listening_ok (start_process w)"
    using assms(1) by (simp_all add: start_process_def listening_ok_def server_ok_def new_server_def broker_ok_New)
  with sound.for_ever [OF assms(2)] listening.for_ever [OF assms(2)]
  have "server_ok (shared p)" "listening_ok p" by simp_all
  then show ?thesis
    by (auto simp: server_ok_def listening_ok_def server_Addr_def reachable_schema)
qed

text \<open>A run: the process listens, a client connects, a signal closes the listener.\<close>

definition sample_run :: process where
  "sample_run = Close ((serve_loop (main_server Default) (Inr (0, ''''))
     (ListenAndServe (main_server Default) (Inr '':6379'') (start_process (quiet 0))))\<lparr>watcher_of := Gone\<rparr>)"

lemma sample_run_reached: "(process_step Default base_ctx)\<^sup>*\<^sup>* (start_process (quiet 0)) sample_run"
proof -
  let ?p1 = "ListenAndServe (main_server Default) (Inr '':6379'') (start_process (quiet 0))"
  let ?p2 = "serve_loop (main_server Default) (Inr (0, '''')) ?p1"
  note defs = running_def ListenAndServe_def serve_loop_def start_process_def new_server_def accept_def accepts_def
  have run: "running (?p2\<lparr>watcher_of := v\<rparr>)" if "v \<noteq> Killed" for v using that by (simp add: defs)
  have "process_step Default base_ctx (start_process (quiet 0)) ?p1"
    by (rule process_step.listen) (simp_all add: defs)
  moreover have "process_step Default base_ctx ?p1 ?p2" by (rule process_step.turn) (simp_all add: defs)
  moreover have "process_step Default base_ctx ?p2 (?p2\<lparr>watcher_of := Waiting\<rparr>)"
    by (rule process_step.notify) (simp_all add: defs)
  moreover have "process_step Default base_ctx (?p2\<lparr>watcher_of := Waiting\<rparr>) (?p2\<lparr>watcher_of := Received\<rparr>)"
    using process_step.signal [OF run [of Waiting]] by simp
  moreover have "process_step Default base_ctx (?p2\<lparr>watcher_of := Received\<rparr>) sample_run"
    using process_step.shutdown [OF run [of Received]] by (simp add: sample_run_def)
  ultimately show ?thesis by (meson rtranclp.rtrancl_into_rtrancl rtranclp.rtrancl_refl)
qed

theorem process_sound_witness: "schema_ok (tabs (world_of (shared sample_run)))"
  using process_sound [OF _ sample_run_reached] by (simp add: reachable.init quiet_def)

text \<open>Shutting down: once the listener is closed, no connection is added any more, and the next turn of the accepting loop
  ends it with an error, which ends the process.\<close>

theorem closed_accepts_none:
  assumes "(process_step conf c)\<^sup>*\<^sup>* (start_process w) p" "listener_of p = Some l" "lnClosed l"
    and "(process_step conf c)\<^sup>*\<^sup>* p p'"
  shows "dom (conns (shared p')) = dom (conns (shared p)) \<and>
    (\<forall>r. accepts p' r \<longrightarrow> (\<exists>x. phase_of (serve_loop (main_server conf) r p') = Returned x))"
proof -
  have "listening_ok (start_process w)" by (simp add: start_process_def listening_ok_def new_server_def)
  with listening.for_ever [OF assms(1)] have "listening_ok p" by simp
  with assms(2,3) have "closed_with (dom (conns (shared p))) p" by (auto simp: closed_with_def listening_ok_def)
  from closing.for_ever [OF assms(4) this] have cl: "closed_with (dom (conns (shared p))) p'" .
  moreover have "\<exists>x. phase_of (serve_loop (main_server conf) r p') = Returned x" if "accepts p' r" for r
    using cl that by (cases r) (auto simp: closed_with_def accepts_def serve_loop_fields)
  ultimately show ?thesis by (simp add: closed_with_def)
qed

theorem closed_accepts_none_witness:
  "accepts sample_run (Inl ''closed'') \<and>
     (\<exists>x. phase_of (serve_loop (main_server Default) (Inl ''closed'') sample_run) = Returned x)"
proof -
  have a: "accepts sample_run (Inl ''closed'')"
    by (simp add: accepts_def sample_run_def serve_loop_fields ListenAndServe_def)
  obtain l where "listener_of sample_run = Some l" "lnClosed l" by (simp add: sample_run_def ListenAndServe_def)
  from closed_accepts_none [OF sample_run_reached this rtranclp.rtrancl_refl] a show ?thesis by blast
qed

text \<open>C29. A signal that is handled before the listener is set is lost: the process can reach a state in which it accepts
  connections and the signal goroutine is gone, and from there no later signal ever closes the listener.\<close>

theorem early_signal_lost:
  "\<exists>p. (process_step conf c)\<^sup>*\<^sup>* (start_process w) p \<and> running p \<and> phase_of p = Accepting \<and>
    (\<forall>p'. (process_step conf c)\<^sup>*\<^sup>* p p' \<longrightarrow> watcher_of p' = Gone \<and> (\<forall>l. listener_of p' = Some l \<longrightarrow> \<not> lnClosed l))"
proof -
  let ?at = "\<lambda>v. (start_process w)\<lparr>watcher_of := v\<rparr>"
  let ?p = "ListenAndServe (main_server conf) (Inr '''') (?at Gone)"
  have run: "running (?at v)" if "v \<noteq> Killed" for v
    using that by (simp add: running_def start_process_def new_server_def)
  have shut: "Close (?at Gone) = ?at Gone" by (simp add: Close_def start_process_def)
  have "process_step conf c (start_process w) (?at Waiting)"
    using process_step.notify [of "start_process w"] run [of NotYet] by (simp add: start_process_def)
  moreover have "process_step conf c (?at Waiting) (?at Received)"
    using process_step.signal [OF run [of Waiting]] by (simp add: start_process_def)
  moreover have "process_step conf c (?at Received) (Close (?at Gone))"
    using process_step.shutdown [OF run [of Received]] by simp
  then have "process_step conf c (?at Received) (?at Gone)" by (simp only: shut)
  moreover have "process_step conf c (?at Gone) ?p"
    using process_step.listen [OF run [of Gone]] by (simp add: start_process_def)
  ultimately have "(process_step conf c)\<^sup>*\<^sup>* (start_process w) ?p"
    by (meson rtranclp.rtrancl_into_rtrancl rtranclp.rtrancl_refl)
  moreover have "deaf ?p" by (simp add: deaf_def ListenAndServe_def)
  moreover have "running ?p" "phase_of ?p = Accepting"
    by (simp_all add: running_def ListenAndServe_def start_process_def new_server_def)
  ultimately show ?thesis using deafness.for_ever by (metis deaf_def)
qed

theorem early_signal_lost_witness:
  "\<exists>p. (process_step Default base_ctx)\<^sup>*\<^sup>* (start_process (quiet 0)) p \<and> phase_of p = Accepting \<and> watcher_of p = Gone"
  using early_signal_lost [of Default base_ctx "quiet 0"] by blast

end
