(* ===== verification/Spec2Isabelle.thy ===== *)
theory Spec2Isabelle
  imports Resp_Codec Resp_Writer Pubsub Glob Placeholders Store_Safety Refine_Strings Refine_Lists Refine_Keys
    Refine_Hashes Refine_Sets Refine_Zsets Interleaving Sessions Server_Laws Config
    Drivers Process
begin

text \<open>
  sql-resp is a server for the Redis protocol (RESP2) that keeps its data in SQLite or PostgreSQL. This development
  models the whole Go program under \<^verbatim>\<open>src/\<close> and proves what makes its parts correct.

  \<^bold>\<open>The program and its parts.\<close> \<^verbatim>\<open>cmd/sql-resp/main.go\<close> loads the configuration (\<^verbatim>\<open>internal/config\<close>), opens and migrates a
  database (\<^verbatim>\<open>internal/db\<close>), wraps it in a store (\<^verbatim>\<open>internal/store\<close>), starts the sweep of expired keys and runs the server
  (\<^verbatim>\<open>internal/server\<close>). For each connection the server decodes requests (\<^verbatim>\<open>internal/resp\<close>), handles login and pub/sub
  (\<^verbatim>\<open>internal/pubsub\<close>) itself and gives everything else to the commands (\<^verbatim>\<open>internal/commands\<close>), which queue it
  (\<^verbatim>\<open>MULTI\<close>) or look it up in a registry and call the store; the store sends SQL texts to the database.

  \<^bold>\<open>Where each part is.\<close>
  \<^item> Prelude: \<^verbatim>\<open>Go_Prelude\<close> (int64 wrap-around, lists, collections of rules), \<^verbatim>\<open>Go_Strings\<close> (\<^verbatim>\<open>strconv\<close>, \<^verbatim>\<open>strings\<close>),
    \<^verbatim>\<open>Go_Float\<close> and \<^verbatim>\<open>Go_Format\<close> (IEEE doubles, their parsing, addition, printing; \<^verbatim>\<open>%q\<close>), \<^verbatim>\<open>Codec\<close> (the interface of an
    encoding with its stream decoder, as a locale).
  \<^item> \<^verbatim>\<open>resp.go\<close>: \<^verbatim>\<open>Resp\<close> (values, writer, reader over the bytes that arrive), \<^verbatim>\<open>Resp_Codec\<close> (its theorems) and
    \<^verbatim>\<open>Resp_Writer\<close> (\<^verbatim>\<open>WriteTo\<close> and the server's \<^verbatim>\<open>connWriter\<close> over their buffer).
  \<^item> \<^verbatim>\<open>broker.go\<close>: \<^verbatim>\<open>Pubsub\<close>. \<^verbatim>\<open>Subscribe\<close> and \<^verbatim>\<open>Unsubscribe\<close> hold the mutex throughout and are functions on the broker;
    \<^verbatim>\<open>Publish\<close> gives the deliveries to the copy of the subscribers that it takes under the read lock.
  \<^item> \<^verbatim>\<open>store/*.go\<close>: \<^verbatim>\<open>Sql\<close> has the six tables as lists of rows, and each SQL statement of the store as a function on them;
    \<^verbatim>\<open>Store_Core\<close> (keys, expiry, \<^verbatim>\<open>GET\<close>, \<^verbatim>\<open>SET\<close>, \<^verbatim>\<open>RENAME\<close>), \<^verbatim>\<open>Store_Strings\<close>, \<^verbatim>\<open>Store_Lists\<close>, \<^verbatim>\<open>Store_Hashes\<close>, \<^verbatim>\<open>Store_Sets\<close> and
    \<^verbatim>\<open>Store_Zsets\<close> have every method, statement by statement, with transactions; \<^verbatim>\<open>Glob\<close> has the pattern matcher.
  \<^item> \<^verbatim>\<open>db/*.go\<close>: \<^verbatim>\<open>Placeholders\<close> (\<^verbatim>\<open>rewritePlaceholders\<close>, \<^verbatim>\<open>splitStatements\<close>), \<^verbatim>\<open>Schema_Text\<close> (the two schema texts), \<^verbatim>\<open>Drivers\<close> (the
    interfaces, both drivers, migration).
  \<^item> \<^verbatim>\<open>commands/*.go\<close>: \<^verbatim>\<open>Commands_Core\<close> (connection state, context, errors, wrappers), \<^verbatim>\<open>Cmd_Strings\<close> and \<^verbatim>\<open>Cmd_Data\<close> (all
    handlers), \<^verbatim>\<open>Commands\<close> (registry, \<^verbatim>\<open>Dispatch\<close>, \<^verbatim>\<open>MULTI\<close> and \<^verbatim>\<open>EXEC\<close>).
  \<^item> \<^verbatim>\<open>server.go\<close>: \<^verbatim>\<open>Server\<close> (connections, login, pub/sub, the loop of a connection, the steps of the server).
  \<^item> \<^verbatim>\<open>config.go\<close>: \<^verbatim>\<open>Config\<close>; \<^verbatim>\<open>main.go\<close> and the listener: \<^verbatim>\<open>Process\<close>.

  \<^bold>\<open>State and effects.\<close> A method of the store is a function of the \<^typ>\<open>world\<close>: the tables, an environment, and a
  counter. The environment gives, for each moment, the clock, whether the database fails, and an order; it stands for what
  the program does not control: time, failing statements, the order of rows without \<^verbatim>\<open>ORDER BY\<close> and of Go maps, the
  dialect and its collation. Errors are values (\<^typ>\<open>error\<close> on the left of a sum); a Go panic is a result of its own. Case mapping
  and quoting of non-ASCII text, files, environment variables, \<^verbatim>\<open>sql.Open\<close> and the handle of \<^verbatim>\<open>database/sql\<close>, and
  the results of \<^verbatim>\<open>net.Listen\<close> and \<^verbatim>\<open>Accept\<close> are parameters too.

  \<^bold>\<open>What the theorems show.\<close>
  \<^item> Protocol: a value that is written is read back, with any bytes behind it; the reader returns on every stream;
    exactly which length headers make it panic; a sequence of replies arrives as this sequence.
  \<^item> SQL: \<^verbatim>\<open>Sql_Syntax\<close> and \<^verbatim>\<open>Sql_Semantics\<close> are a lexer, a parser and a semantics (three-valued conditions, constraints,
    cascades, conflict clauses, ordering, aggregates) for the texts that the program sends. \<^verbatim>\<open>Schema_Text\<close>, \<^verbatim>\<open>Sql_Writes\<close>
    and \<^verbatim>\<open>Sql_Reads\<close> show that the schemas and every statement and query of the store mean what the store's model does, in the
    form for SQLite and in the form with numbered placeholders for PostgreSQL; \<^verbatim>\<open>Drivers\<close> shows the same through both drivers,
    with transactions, and that the migration creates exactly this schema, for every handle of \<^verbatim>\<open>database/sql\<close> that follows
    this SQL (the predicate \<open>follows_sql\<close>; the handle \<open>sql_engine\<close> is only an instance that shows it can hold).
  \<^item> Store: the constraints hold in every reachable state, whatever fails (\<^verbatim>\<open>Store_Safety\<close>); a call touches only the keys it
    is about; while the clock stands still inside a call, every key has rows of its own type only (\<^verbatim>\<open>Store_Types\<close>). Every call is a
    sequence of statements, so constraints and isolation hold for every interleaving of the statements of concurrent calls;
    a key that expires between two readings of the clock in one call defeats its type check (\<^verbatim>\<open>Interleaving\<close>). \<^verbatim>\<open>Keyspace\<close> is the
    abstract specification, a map from keys to typed values with expiry; the theories \<^verbatim>\<open>Refine_*\<close> show that every operation on
    strings, keys, lists, hashes, sets and sorted sets implements it, on every branch; intersection and difference of sets do
    so only as far as the first key has no expired rows left, and what they do otherwise is stated too.
  \<^item> Commands: what a command may change, the type of its reply, that \<^verbatim>\<open>Dispatch\<close> returns, that \<^verbatim>\<open>EXEC\<close> runs the
    queue in sequence (\<^verbatim>\<open>Command_Laws\<close>, \<^verbatim>\<open>Requests\<close>, \<^verbatim>\<open>Reply_Types\<close>, \<^verbatim>\<open>Transactions\<close>).
  \<^item> Server and process: invariants of all reachable states, nothing happens before login, login needs the password,
    requests are answered, what \<^verbatim>\<open>MULTI\<close> defers and what it does not, publications are delivered, loops end, how an error
    reply is split by the client's own bytes (\<^verbatim>\<open>Server_Laws\<close>); through all layers, bytes of
    \<^verbatim>\<open>SET\<close> and \<^verbatim>\<open>GET\<close> are answered with what was set (\<^verbatim>\<open>Sessions\<close>); where each setting of the configuration comes from
    (\<^verbatim>\<open>Config\<close>); starting with every way to fail and on a fresh or an existing database, shutting down, and a signal that is lost (\<^verbatim>\<open>Process\<close>).

  Interfaces are locales: \<open>stream_codec\<close> for the encoding, \<open>pubsub\<close> for the broker, \<open>table_relation\<close> for what a statement
  keeps, \<open>purging_relation\<close> and \<open>keyed_relation\<close> for what a call of the store keeps, \<open>dispatch_relation\<close> and \<open>request_relation\<close> for what a command keeps, \<open>config_field\<close> for a setting,
  \<open>process_keeps\<close> for what the process keeps; each is interpreted on the model's own definitions.

  \<^bold>\<open>Bounds and fuel.\<close> The reader nests at most as deep as the stream is long, so its fuel is the length plus one;
  \<^verbatim>\<open>Dispatch\<close> has fuel 2, as a queued \<^verbatim>\<open>EXEC\<close> is refused; both are proved to be enough. The SQL parser's fuel is the number of
  tokens, and every text is proved to parse. A double has at most 17 significant digits when printed. Integers are int64
  with their wrap-around written out; the line scanner of the configuration has its limit of 64 kB.

  \<^bold>\<open>Limits.\<close> The steps of the server are whole requests: inside a call only the environment acts (the clock, failures, orders). What
  concurrent calls do statement by statement is covered by \<^verbatim>\<open>Interleaving\<close>. All connections of the pool see one database, and the
  deliveries of a publication are part of its request. A commit that reports an error is taken to have had no effect; one that
  took effect all the same is not covered. Not
  modelled: sockets and TLS (a stream is the list of bytes that have arrived), log output, the
  monotonic part of the clock, cancellation through contexts (the program always passes the background context), and the
  Go runtime (memory exhaustion, scheduling fairness).
\<close>

end
